(* ===== verification/Maubase_Prelude.thy ===== *)
theory Maubase_Prelude
  imports Main "HOL-Library.Char_ord" "HOL-Library.List_Lexorder"
begin

text \<open>
  The vocabulary shared by every component of the development.

  \<^item> Go strings are byte strings and are modelled as \<^typ>\<open>string\<close>, one \<^typ>\<open>char\<close> per byte.
    The functions of Go's \<^verbatim>\<open>strings\<close> and \<^verbatim>\<open>strconv\<close> packages the sources call
    (\<^verbatim>\<open>TrimSpace\<close>, \<^verbatim>\<open>ToLower\<close>, \<^verbatim>\<open>HasPrefix\<close>, \<^verbatim>\<open>Contains\<close>, \<^verbatim>\<open>Split\<close>, \<^verbatim>\<open>Join\<close>,
    \<^verbatim>\<open>ReplaceAll\<close>, \<^verbatim>\<open>Fields\<close>, \<^verbatim>\<open>Atoi\<close>, \<^verbatim>\<open>Itoa\<close>) are defined on the ASCII
    range; a byte above 127 is an ordinary letter that has no case and is no space.
  \<^item> A Go result pair \<open>(value, error)\<close> is a sum: \<open>Inl\<close> the error, \<open>Inr\<close> the value.
  \<^item> Times and durations are integers counting nanoseconds.
  \<^item> Association-list tables: a database table is the list of its rows in insertion order.
\<close>

named_theorems keeps \<open>an operation of the program keeps the component's invariant\<close>
named_theorems frame \<open>what an operation of the program leaves alone\<close>
named_theorems go_simps \<open>unfolding of the Go library functions on closed arguments\<close>

type_synonym time = int
type_synonym duration = int

abbreviation second :: duration where "second \<equiv> 1000000000"

abbreviation minute :: duration where "minute \<equiv> 60 * second"

abbreviation hour :: duration where "hour \<equiv> 60 * minute"


section \<open>Characters\<close>

definition is_space :: "char \<Rightarrow> bool" where
  "is_space c \<longleftrightarrow> c \<in> {CHR 0x09, CHR 0x0A, CHR 0x0B, CHR 0x0C, CHR 0x0D, CHR '' ''}"

definition is_digit :: "char \<Rightarrow> bool" where
  "is_digit c \<longleftrightarrow> CHR ''0'' \<le> c \<and> c \<le> CHR ''9''"

definition is_lower :: "char \<Rightarrow> bool" where
  "is_lower c \<longleftrightarrow> CHR ''a'' \<le> c \<and> c \<le> CHR ''z''"

definition is_upper :: "char \<Rightarrow> bool" where
  "is_upper c \<longleftrightarrow> CHR ''A'' \<le> c \<and> c \<le> CHR ''Z''"

definition lower_char :: "char \<Rightarrow> char" where
  "lower_char c = (if is_upper c then char_of (of_char c + 32 :: nat) else c)"

definition upper_char :: "char \<Rightarrow> char" where
  "upper_char c = (if is_lower c then char_of (of_char c - 32 :: nat) else c)"

definition digit_val :: "char \<Rightarrow> nat" where
  "digit_val c = of_char c - 48"

definition digit_char :: "nat \<Rightarrow> char" where
  "digit_char d = char_of (48 + d)"

lemma less_eq_char_nat: "c \<le> d \<longleftrightarrow> (of_char c :: nat) \<le> of_char d" for c d :: char
  by (simp add: less_eq_char_def)

lemma lower_char_not_upper [simp]: "\<not> is_upper (lower_char c)"
  by (simp add: lower_char_def is_upper_def less_eq_char_nat)

lemma lower_char_idem [simp]: "lower_char (lower_char c) = lower_char c"
  using lower_char_not_upper [of c] unfolding lower_char_def by simp

lemma is_digit_of_char: "is_digit c \<longleftrightarrow> 48 \<le> (of_char c :: nat) \<and> (of_char c :: nat) \<le> 57"
  by (simp add: is_digit_def less_eq_char_nat)

lemma digit_char_inv [simp]:
  assumes "d < 10"
  shows "is_digit (digit_char d)" and "digit_val (digit_char d) = d"
  using assms by (simp_all add: is_digit_of_char digit_char_def digit_val_def)

lemma is_space_lower_char [simp]: "is_space (lower_char c) \<longleftrightarrow> is_space c"
proof (cases "is_upper c")
  case True
  then have bounds: "65 \<le> (of_char c :: nat)" "(of_char c :: nat) \<le> 90"
    by (simp_all add: is_upper_def less_eq_char_nat)
  have "of_char (lower_char c) = (of_char c + 32 :: nat)"
    using True bounds by (simp add: lower_char_def)
  then have "(of_char (lower_char c) :: nat) > 90" using bounds by simp
  then have "\<not> is_space (lower_char c)" by (auto simp: is_space_def)
  moreover have "\<not> is_space c" using bounds by (auto simp: is_space_def)
  ultimately show ?thesis by simp
next
  case False
  then show ?thesis by (simp add: lower_char_def)
qed


section \<open>Go's strings package\<close>

definition ToLower :: "string \<Rightarrow> string" where
  "ToLower = map lower_char"

definition ToUpper :: "string \<Rightarrow> string" where
  "ToUpper = map upper_char"

definition TrimLeft_by :: "(char \<Rightarrow> bool) \<Rightarrow> string \<Rightarrow> string" where
  "TrimLeft_by p s = dropWhile p s"

definition TrimRight_by :: "(char \<Rightarrow> bool) \<Rightarrow> string \<Rightarrow> string" where
  "TrimRight_by p s = rev (dropWhile p (rev s))"

definition Trim_by :: "(char \<Rightarrow> bool) \<Rightarrow> string \<Rightarrow> string" where
  "Trim_by p s = TrimRight_by p (TrimLeft_by p s)"

definition TrimSpace :: "string \<Rightarrow> string" where
  "TrimSpace = Trim_by is_space"

fun HasPrefix :: "string \<Rightarrow> string \<Rightarrow> bool" where
  "HasPrefix s [] = True"
| "HasPrefix [] (p # ps) = False"
| "HasPrefix (c # s) (p # ps) = (c = p \<and> HasPrefix s ps)"

definition TrimPrefix :: "string \<Rightarrow> string \<Rightarrow> string" where
  "TrimPrefix s p = (if HasPrefix s p then drop (length p) s else s)"

text \<open>\<^verbatim>\<open>strings.Index\<close>: the first position at which the pattern occurs.\<close>

fun Index :: "string \<Rightarrow> string \<Rightarrow> nat option" where
  "Index [] pat = (if pat = [] then Some 0 else None)"
| "Index (c # s) pat =
     (if HasPrefix (c # s) pat then Some 0 else map_option Suc (Index s pat))"

definition Contains :: "string \<Rightarrow> string \<Rightarrow> bool" where
  "Contains s pat = (Index s pat \<noteq> None)"

text \<open>\<^verbatim>\<open>strings.Split(s, sep)\<close> for a separator of one byte.\<close>

fun Split :: "string \<Rightarrow> char \<Rightarrow> string list" where
  "Split [] sep = [[]]"
| "Split (c # s) sep =
     (if c = sep then [] # Split s sep
      else (case Split s sep of [] \<Rightarrow> [[c]] | w # ws \<Rightarrow> (c # w) # ws))"

fun Join :: "string list \<Rightarrow> string \<Rightarrow> string" where
  "Join [] sep = []"
| "Join [w] sep = w"
| "Join (w # v # ws) sep = w @ sep @ Join (v # ws) sep"

text \<open>\<^verbatim>\<open>strings.ReplaceAll\<close> of a single byte by a string.\<close>

definition ReplaceAll :: "string \<Rightarrow> char \<Rightarrow> string \<Rightarrow> string" where
  "ReplaceAll s c r = concat (map (\<lambda>d. if d = c then r else [d]) s)"

text \<open>\<^verbatim>\<open>strings.Fields\<close>: the maximal runs of non-space bytes.\<close>

fun fields_aux :: "string \<Rightarrow> string \<Rightarrow> string list" where
  "fields_aux acc [] = (if acc = [] then [] else [rev acc])"
| "fields_aux acc (c # s) =
     (if is_space c then (if acc = [] then fields_aux [] s else rev acc # fields_aux [] s)
      else fields_aux (c # acc) s)"

definition Fields :: "string \<Rightarrow> string list" where
  "Fields s = fields_aux [] s"

lemma HasPrefix_iff: "HasPrefix s p \<longleftrightarrow> (\<exists>t. s = p @ t)"
  by (induction s p rule: HasPrefix.induct) auto

lemma HasPrefix_append [simp]: "HasPrefix (p @ t) p"
  by (auto simp: HasPrefix_iff)

lemma TrimPrefix_append [simp]: "TrimPrefix (p @ t) p = t"
  by (simp add: TrimPrefix_def)

lemma Index_prefix: "Index (pat @ ys) pat = Some 0"
proof (cases "pat @ ys")
  case (Cons c t)
  then have "HasPrefix (c # t) pat" by (metis HasPrefix_append)
  with Cons show ?thesis by simp
qed simp

lemma Index_append_pat: "Index (xs @ pat @ ys) pat \<noteq> None"
proof (induction xs)
  case Nil
  show ?case by (simp add: Index_prefix)
next
  case (Cons c xs)
  show ?case using Cons by (auto simp del: HasPrefix.simps)
qed

lemma Index_Some_split: "Index s pat = Some i \<Longrightarrow> s = take i s @ pat @ drop (i + length pat) s \<and> i + length pat \<le> length s"
proof (induction s arbitrary: i)
  case Nil
  then show ?case by (auto split: if_splits)
next
  case (Cons c s)
  show ?case
  proof (cases "HasPrefix (c # s) pat")
    case True
    then obtain t where "c # s = pat @ t" by (auto simp: HasPrefix_iff)
    moreover have "i = 0" using Cons.prems True by simp
    ultimately show ?thesis by simp
  next
    case False
    then obtain j where j: "Index s pat = Some j" "i = Suc j" using Cons.prems by auto
    from Cons.IH [OF j(1)] j(2) show ?thesis by simp
  qed
qed

lemma Contains_iff: "Contains s pat \<longleftrightarrow> (\<exists>xs ys. s = xs @ pat @ ys)"
proof
  assume "Contains s pat"
  then show "\<exists>xs ys. s = xs @ pat @ ys"
    unfolding Contains_def
  proof (induction s)
    case Nil
    then show ?case by (auto split: if_splits)
  next
    case (Cons c s)
    show ?case
    proof (cases "HasPrefix (c # s) pat")
      case True
      then show ?thesis by (metis HasPrefix_iff append_Nil)
    next
      case False
      with Cons obtain xs ys where "s = xs @ pat @ ys" by auto
      then have "c # s = (c # xs) @ pat @ ys" by simp
      then show ?thesis by blast
    qed
  qed
next
  assume "\<exists>xs ys. s = xs @ pat @ ys"
  then show "Contains s pat"
    using Index_append_pat unfolding Contains_def by blast
qed

lemma Split_not_Nil [simp]: "Split s sep \<noteq> []"
  by (induction s) (auto split: list.splits)

lemma Split_line: "sep \<notin> set line \<Longrightarrow> Split (line @ sep # rest) sep = line # Split rest sep"
  by (induction line) (auto split: list.split)

lemma Join_Cons_char: "ws \<noteq> [] \<Longrightarrow> Join ((c # hd ws) # tl ws) sep = c # Join ws sep"
  by (cases ws; cases "tl ws") auto

lemma Join_Split [simp]: "Join (Split s sep) [sep] = s"
proof (induction s)
  case Nil
  then show ?case by simp
next
  case (Cons c s)
  obtain w ws where eq: "Split s sep = w # ws" by (cases "Split s sep") auto
  show ?case
  proof (cases "c = sep")
    case True
    with Cons eq show ?thesis by simp
  next
    case False
    with Cons eq Join_Cons_char [of "w # ws" c "[sep]"] show ?thesis by simp
  qed
qed

lemma TrimRight_by_idem: "TrimRight_by p (TrimRight_by p s) = TrimRight_by p s"
  by (simp add: TrimRight_by_def)

lemma dropWhile_TrimRight:
  "dropWhile p s = s \<Longrightarrow> dropWhile p (TrimRight_by p s) = TrimRight_by p s"
proof -
  assume a: "dropWhile p s = s"
  obtain t where s: "s = TrimRight_by p s @ t"
    unfolding TrimRight_by_def
    by (metis rev_append rev_rev_ident takeWhile_dropWhile_id)
  show ?thesis
  proof (cases "TrimRight_by p s")
    case Nil
    then show ?thesis by simp
  next
    case (Cons c u)
    then have "hd s = c" and "s \<noteq> []" using s by (metis hd_append2 list.distinct(1) list.sel(1), metis append_is_Nil_conv list.distinct(1))
    then have "\<not> p c" using a by (metis dropWhile_eq_self_iff)
    then show ?thesis using Cons by simp
  qed
qed

lemma Trim_by_idem: "Trim_by p (Trim_by p s) = Trim_by p s"
  by (simp add: Trim_by_def TrimLeft_by_def dropWhile_TrimRight TrimRight_by_idem)

lemma TrimSpace_idem [simp]: "TrimSpace (TrimSpace s) = TrimSpace s"
  by (simp add: TrimSpace_def Trim_by_idem)

lemma dropWhile_map_inv:
  "(\<And>c. p (f c) = p c) \<Longrightarrow> dropWhile p (map f s) = map f (dropWhile p s)"
  by (induction s) auto

lemma TrimSpace_ToLower: "TrimSpace (ToLower s) = ToLower (TrimSpace s)"
  by (simp add: TrimSpace_def Trim_by_def TrimLeft_by_def TrimRight_by_def ToLower_def
      dropWhile_map_inv rev_map)

lemma ToLower_idem [simp]: "ToLower (ToLower s) = ToLower s"
  by (simp add: ToLower_def)


section \<open>Go's strconv package\<close>

fun digits_val :: "nat \<Rightarrow> string \<Rightarrow> nat option" where
  "digits_val acc [] = Some acc"
| "digits_val acc (c # s) =
     (if is_digit c then digits_val (10 * acc + digit_val c) s else None)"

definition parse_nat :: "string \<Rightarrow> nat option" where
  "parse_nat s = (if s = [] then None else digits_val 0 s)"

text \<open>
  \<^verbatim>\<open>strconv.Atoi\<close> on a 64-bit platform: an optional sign, at least one digit, and a value in
  the range of \<^verbatim>\<open>int\<close>; everything else is an error (\<^term>\<open>None\<close>).
\<close>

definition Atoi :: "string \<Rightarrow> int option" where
  "Atoi s =
     (let (neg, ds) =
        (case s of [] \<Rightarrow> (False, [])
         | c # t \<Rightarrow> if c = CHR ''-'' then (True, t) else if c = CHR ''+'' then (False, t) else (False, s))
      in case parse_nat ds of None \<Rightarrow> None
         | Some n \<Rightarrow>
             (let v = (if neg then - int n else int n)
              in if - (2 ^ 63) \<le> v \<and> v < 2 ^ 63 then Some v else None))"

fun Itoa_nat :: "nat \<Rightarrow> string" where
  "Itoa_nat n = (if n < 10 then [digit_char n] else Itoa_nat (n div 10) @ [digit_char (n mod 10)])"

declare Itoa_nat.simps [simp del]

definition Itoa :: "int \<Rightarrow> string" where
  "Itoa i = (if i < 0 then CHR ''-'' # Itoa_nat (nat (- i)) else Itoa_nat (nat i))"

lemma Atoi_range: "Atoi s = Some v \<Longrightarrow> - (2 ^ 63) \<le> v \<and> v < 2 ^ 63"
  by (auto simp: Atoi_def Let_def split: option.splits prod.splits if_splits)

lemma digits_val_append:
  "digits_val acc (s @ t) = (case digits_val acc s of None \<Rightarrow> None | Some m \<Rightarrow> digits_val m t)"
  by (induction acc s rule: digits_val.induct) auto

lemma Itoa_nat_not_Nil [simp]: "Itoa_nat n \<noteq> []"
  by (subst Itoa_nat.simps) simp

lemma Itoa_nat_digits: "\<forall>c \<in> set (Itoa_nat n). is_digit c"
proof (induction n rule: Itoa_nat.induct)
  case (1 n)
  then show ?case by (subst Itoa_nat.simps) auto
qed

lemma digits_val_Itoa_nat: "digits_val 0 (Itoa_nat n) = Some n"
proof (induction n rule: Itoa_nat.induct)
  case (1 n)
  show ?case
  proof (cases "n < 10")
    case True
    then show ?thesis by (subst Itoa_nat.simps) simp
  next
    case False
    with "1" have IH: "digits_val 0 (Itoa_nat (n div 10)) = Some (n div 10)" by simp
    from False show ?thesis by (subst Itoa_nat.simps) (simp add: digits_val_append IH)
  qed
qed

lemma parse_nat_Itoa_nat [simp]: "parse_nat (Itoa_nat n) = Some n"
  by (simp add: parse_nat_def digits_val_Itoa_nat)

lemma digits_val_replicate_0 [simp]:
  "digits_val 0 (replicate k (CHR ''0'') @ s) = digits_val 0 s"
  by (induction k) (simp_all add: is_digit_of_char digit_val_def)


lemma Atoi_Itoa: "0 \<le> i \<Longrightarrow> i < 2 ^ 63 \<Longrightarrow> Atoi (Itoa i) = Some i"
proof -
  assume i: "0 \<le> i" "i < 2 ^ 63"
  obtain c t where ct: "Itoa_nat (nat i) = c # t" by (cases "Itoa_nat (nat i)") auto
  then have "is_digit c" using Itoa_nat_digits [of "nat i"] by simp
  then have "c \<noteq> CHR ''-''" "c \<noteq> CHR ''+''" by (auto simp: is_digit_of_char)
  moreover have "parse_nat (c # t) = Some (nat i)" using parse_nat_Itoa_nat [of "nat i"] ct by simp
  ultimately show ?thesis using i ct by (simp add: Atoi_def Itoa_def)
qed

lemma Itoa_not_Nil [simp]: "Itoa i \<noteq> []"
  by (simp add: Itoa_def)


section \<open>Association lists and tables\<close>

lemma map_of_filter_fst:
  "map_of (filter (\<lambda>(k, v). P k) xs) k = (if P k then map_of xs k else None)"
  by (induction xs) auto

lemma find_Some_mem: "find P xs = Some x \<Longrightarrow> x \<in> set xs \<and> P x"
  by (auto simp: find_Some_iff)

lemma find_None_all: "find P xs = None \<longleftrightarrow> (\<forall>x \<in> set xs. \<not> P x)"
  by (auto simp: find_None_iff)

text \<open>Rows with a unique key: a lookup by that key finds the one row.\<close>

lemma find_unique:
  assumes "distinct (map f xs)" and "x \<in> set xs" and "f x = k"
  shows "find (\<lambda>y. f y = k) xs = Some x"
  using assms by (induction xs) (auto split: if_splits)

lemma distinct_map_filter: "distinct (map f xs) \<Longrightarrow> distinct (map f (filter P xs))"
  by (induction xs) auto

lemma distinct_map_map:
  "(\<And>x. x \<in> set xs \<Longrightarrow> f (g x) = f x) \<Longrightarrow> distinct (map f xs) \<Longrightarrow> distinct (map f (map g xs))"
  by (simp add: comp_def cong: map_cong)

lemma find_filter_keep:
  assumes "distinct (map f xs)" and "find (\<lambda>y. f y = k) xs = Some x" and "P x"
  shows "find (\<lambda>y. f y = k) (filter P xs) = Some x"
proof -
  from assms(2) have "x \<in> set xs" "f x = k" by (auto dest: find_Some_mem)
  with assms show ?thesis by (intro find_unique distinct_map_filter) auto
qed

lemma find_filter_gone:
  assumes "\<And>x. x \<in> set xs \<Longrightarrow> f x = k \<Longrightarrow> \<not> P x"
  shows "find (\<lambda>y. f y = k) (filter P xs) = None"
  using assms by (auto simp: find_None_iff)

lemma find_append_last:
  "find P (xs @ [x]) = (case find P xs of None \<Rightarrow> if P x then Some x else None | Some y \<Rightarrow> Some y)"
  by (induction xs) auto


text \<open>Lookup by a key after an insert of a fresh key, and after a delete of some rows.\<close>

lemma find_insert_key:
  assumes "f r \<notin> f ` set t"
  shows "find (\<lambda>x. f x = k) (t @ [r]) = (if k = f r then Some r else find (\<lambda>x. f x = k) t)"
proof (cases "k = f r")
  case True
  with assms have "find (\<lambda>x. f x = k) t = None" unfolding find_None_all by (metis image_eqI)
  with True show ?thesis by (simp add: find_append_last)
next
  case False
  then show ?thesis by (cases "find (\<lambda>x. f x = k) t") (auto simp: find_append_last)
qed

lemma find_filter_key:
  assumes "distinct (map f t)"
  shows "find (\<lambda>x. f x = k) (filter P t) =
    (case find (\<lambda>x. f x = k) t of None \<Rightarrow> None | Some r \<Rightarrow> if P r then Some r else None)"
proof (cases "find (\<lambda>x. f x = k) t")
  case None
  then have "find (\<lambda>x. f x = k) (filter P t) = None" by (auto simp: find_None_all)
  with None show ?thesis by simp
next
  case (Some r)
  then have r: "r \<in> set t" "f r = k" by (auto dest: find_Some_mem)
  have "x = r" if "x \<in> set t" "f x = k" for x
    using that r assms by (metis (no_types, lifting) distinct_map inj_onD)
  with find_filter_keep [OF assms Some] find_filter_gone [of t f k P] Some show ?thesis by auto
qed

lemma find_map_key:
  assumes "\<And>x. f (g x) = f x"
  shows "find (\<lambda>x. f x = k) (map g t) = map_option g (find (\<lambda>x. f x = k) t)"
  using assms by (induction t) auto

end
