(* ===== verification/Rate_Limiter.thy ===== *)
theory Rate_Limiter
  imports Maubase_Prelude
begin

text \<open>
  The login throttle: \<^verbatim>\<open>internal/ratelimit/ratelimit.go\<close> and the middleware of
  \<^verbatim>\<open>internal/server/server.go\<close> that puts it in front of a handler.

  The limiter is a fixed-window counter per key that also sweeps expired buckets. It is
  compared with a specification that never sweeps and touches only the bucket of the key it
  is asked about: under a clock that does not run backwards both give the same answers.
  Bounds on the number of admitted attempts are proved for the specification and carried over.
\<close>

section \<open>The limiter\<close>

record bucket =
  count :: int
  windowStart :: time

record limiter =
  Limit :: int
  Window :: duration
  buckets :: "string \<rightharpoonup> bucket"

definition New :: "int \<Rightarrow> duration \<Rightarrow> limiter" where
  "New limit window = \<lparr>Limit = limit, Window = window, buckets = Map.empty\<rparr>"

definition sweepLocked :: "time \<Rightarrow> limiter \<Rightarrow> limiter" where
  "sweepLocked now l =
     l\<lparr>buckets := (\<lambda>k. case buckets l k of None \<Rightarrow> None
        | Some b \<Rightarrow> if now - windowStart b \<ge> Window l then None else Some b)\<rparr>"

definition fresh_window :: "string \<Rightarrow> time \<Rightarrow> limiter \<Rightarrow> limiter \<times> bool \<times> duration" where
  "fresh_window key now l =
     (let l1 = sweepLocked now l
      in (l1\<lparr>buckets := (buckets l1)(key \<mapsto> \<lparr>count = 1, windowStart = now\<rparr>)\<rparr>, True, 0))"

definition Allow :: "string \<Rightarrow> time \<Rightarrow> limiter \<Rightarrow> limiter \<times> bool \<times> duration" where
  "Allow key now l =
     (case buckets l key of
        None \<Rightarrow> fresh_window key now l
      | Some b \<Rightarrow>
          if now - windowStart b \<ge> Window l then fresh_window key now l
          else (let b' = b\<lparr>count := count b + 1\<rparr>;
                    l' = l\<lparr>buckets := (buckets l)(key \<mapsto> b')\<rparr>
                in if count b' > Limit l
                   then (l', False, Window l - (now - windowStart b))
                   else (l', True, 0)))"

text \<open>A sequence of attempts, each with its key and the time the clock showed.\<close>

fun attempts :: "limiter \<Rightarrow> (string \<times> time) list \<Rightarrow> (bool \<times> duration) list" where
  "attempts l [] = []"
| "attempts l ((key, now) # as) =
     (case Allow key now l of (l', r) \<Rightarrow> r # attempts l' as)"

text \<open>The attempts of one key that were admitted at a time of the interval \<open>[a, e)\<close>.\<close>

definition admitted :: "string \<Rightarrow> time \<Rightarrow> time \<Rightarrow> (string \<times> time) list \<Rightarrow> (bool \<times> duration) list \<Rightarrow> nat" where
  "admitted key a e as rs =
     length (filter (\<lambda>((k, t), (ok, _)). k = key \<and> a \<le> t \<and> t < e \<and> ok) (zip as rs))"


section \<open>The middleware\<close>

datatype verdict = Forward | TooManyRequests int \<comment> \<open>the \<^verbatim>\<open>Retry-After\<close> header\<close>

definition trunc_seconds :: "duration \<Rightarrow> int" where
  "trunc_seconds d = (if d \<ge> 0 then d div second else - ((- d) div second))"

definition rateLimitMiddleware :: "string \<Rightarrow> time \<Rightarrow> limiter \<Rightarrow> limiter \<times> verdict" where
  "rateLimitMiddleware clientIP now l =
     (if Limit l \<le> 0 then (l, Forward)
      else (case Allow clientIP now l of (l', ok, retryAfter) \<Rightarrow>
              (l', if ok then Forward else TooManyRequests (trunc_seconds retryAfter + 1))))"


section \<open>The specification: a fixed window per key, nothing swept\<close>

definition spec_Allow :: "int \<Rightarrow> duration \<Rightarrow> string \<Rightarrow> time \<Rightarrow> (string \<rightharpoonup> bucket)
    \<Rightarrow> (string \<rightharpoonup> bucket) \<times> bool \<times> duration" where
  "spec_Allow L W key now m =
     (case m key of
        None \<Rightarrow> (m(key \<mapsto> \<lparr>count = 1, windowStart = now\<rparr>), True, 0)
      | Some b \<Rightarrow>
          if now - windowStart b \<ge> W then (m(key \<mapsto> \<lparr>count = 1, windowStart = now\<rparr>), True, 0)
          else (m(key \<mapsto> b\<lparr>count := count b + 1\<rparr>), count b + 1 \<le> L,
                if count b + 1 \<le> L then 0 else W - (now - windowStart b)))"

fun spec_attempts :: "int \<Rightarrow> duration \<Rightarrow> (string \<rightharpoonup> bucket) \<Rightarrow> (string \<times> time) list
    \<Rightarrow> (bool \<times> duration) list" where
  "spec_attempts L W m [] = []"
| "spec_attempts L W m ((key, now) # as) =
     (case spec_Allow L W key now m of (m', r) \<Rightarrow> r # spec_attempts L W m' as)"

fun clock_ok :: "time \<Rightarrow> (string \<times> time) list \<Rightarrow> bool" where
  "clock_ok t [] = True"
| "clock_ok t ((k, now) # as) = (t \<le> now \<and> clock_ok now as)"

definition only_expired_missing :: "duration \<Rightarrow> time \<Rightarrow> (string \<rightharpoonup> bucket) \<Rightarrow> (string \<rightharpoonup> bucket) \<Rightarrow> bool" where
  "only_expired_missing W t swept full \<longleftrightarrow>
     (\<forall>k. swept k = full k \<or> (swept k = None \<and> (\<exists>b. full k = Some b \<and> t - windowStart b \<ge> W)))"

lemma Limit_Allow [frame]: "Allow key now l = (l', r) \<Longrightarrow> Limit l' = Limit l \<and> Window l' = Window l"
  by (auto simp: Allow_def fresh_window_def sweepLocked_def Let_def split: option.splits if_splits)

lemma only_expired_missingD:
  assumes "only_expired_missing W t m n"
  shows "m k = n k \<or> (m k = None \<and> (\<exists>b. n k = Some b \<and> t - windowStart b \<ge> W))"
  using assms by (auto simp: only_expired_missing_def)

lemma only_expired_missing_later:
  "only_expired_missing W t m n \<Longrightarrow> t \<le> t' \<Longrightarrow> only_expired_missing W t' m n"
  unfolding only_expired_missing_def by force

lemma only_expired_missing_upd:
  "only_expired_missing W t m n \<Longrightarrow> only_expired_missing W t (m(k \<mapsto> b)) (n(k \<mapsto> b))"
  by (auto simp: only_expired_missing_def)

lemma only_expired_missing_sweep:
  assumes "only_expired_missing (Window l) t (buckets l) n"
  shows "only_expired_missing (Window l) t (buckets (sweepLocked t l)) n"
  unfolding only_expired_missing_def
proof
  fix k
  show "buckets (sweepLocked t l) k = n k \<or>
     (buckets (sweepLocked t l) k = None \<and> (\<exists>b. n k = Some b \<and> t - windowStart b \<ge> Window l))"
    using only_expired_missingD [OF assms, of k]
    by (auto simp: sweepLocked_def split: option.splits)
qed

lemma fresh_window_sim:
  assumes "only_expired_missing (Window l) now (buckets l) n"
  shows "\<exists>l'. fresh_window key now l = (l', True, 0) \<and>
     only_expired_missing (Window l) now (buckets l') (n(key \<mapsto> \<lparr>count = 1, windowStart = now\<rparr>))"
  using only_expired_missing_upd [OF only_expired_missing_sweep [OF assms]]
  by (auto simp: fresh_window_def Let_def)

lemma Allow_sim:
  assumes rel: "only_expired_missing (Window l) t (buckets l) n" and "t \<le> now"
  shows "\<exists>l' n' r. Allow key now l = (l', r) \<and> spec_Allow (Limit l) (Window l) key now n = (n', r)
     \<and> only_expired_missing (Window l) now (buckets l') n'"
proof -
  have rel': "only_expired_missing (Window l) now (buckets l) n"
    using only_expired_missing_later assms by blast
  obtain l1 where l1: "fresh_window key now l = (l1, True, 0)"
    and r1: "only_expired_missing (Window l) now (buckets l1) (n(key \<mapsto> \<lparr>count = 1, windowStart = now\<rparr>))"
    using fresh_window_sim [OF rel'] by blast
  show ?thesis
  proof (cases "buckets l key")
    case None
    then have "spec_Allow (Limit l) (Window l) key now n =
        (n(key \<mapsto> \<lparr>count = 1, windowStart = now\<rparr>), True, 0)"
      using only_expired_missingD [OF rel', of key]
      by (auto simp: spec_Allow_def split: option.splits)
    with None l1 r1 show ?thesis by (auto simp: Allow_def)
  next
    case (Some b)
    then have n: "n key = Some b"
      using only_expired_missingD [OF rel', of key] by auto
    show ?thesis
    proof (cases "now - windowStart b \<ge> Window l")
      case True
      with Some n l1 r1 show ?thesis by (auto simp: Allow_def spec_Allow_def)
    next
      case False
      with Some n only_expired_missing_upd [OF rel', of key "b\<lparr>count := count b + 1\<rparr>"]
      show ?thesis by (auto simp: Allow_def spec_Allow_def Let_def)
    qed
  qed
qed

lemma attempts_sim:
  assumes "only_expired_missing (Window l) t (buckets l) n" and "clock_ok t as"
  shows "attempts l as = spec_attempts (Limit l) (Window l) n as"
  using assms
proof (induction as arbitrary: l t n)
  case Nil
  then show ?case by simp
next
  case (Cons a as)
  obtain key now where a: "a = (key, now)" by (cases a)
  from Cons.prems a have "t \<le> now" and clk: "clock_ok now as" by auto
  then obtain l' n' r where al: "Allow key now l = (l', r)"
    and sp: "spec_Allow (Limit l) (Window l) key now n = (n', r)"
    and rel: "only_expired_missing (Window l) now (buckets l') n'"
    using Allow_sim [OF Cons.prems(1)] by blast
  have "Limit l' = Limit l" "Window l' = Window l" using Limit_Allow [OF al] by auto
  with Cons.IH [of l' now n'] rel clk have "attempts l' as = spec_attempts (Limit l) (Window l) n' as"
    by simp
  with a al sp show ?case by simp
qed

lemma attempts_New_spec:
  "clock_ok t as \<Longrightarrow> attempts (New L W) as = spec_attempts L W Map.empty as"
  using attempts_sim [of "New L W" t Map.empty as]
  by (simp add: New_def only_expired_missing_def)


section \<open>How many attempts pass\<close>

text \<open>The specification's answers for one key depend on that key's attempts alone.\<close>

lemma spec_Allow_other: "spec_Allow L W key now m = (m', r) \<Longrightarrow> k \<noteq> key \<Longrightarrow> m' k = m k"
  by (auto simp: spec_Allow_def split: option.splits if_splits)

lemma admitted_Nil [simp]: "admitted key a e [] rs = 0"
  by (simp add: admitted_def)

lemma admitted_Cons:
  "admitted key a e ((k, t) # as) ((ok, d) # rs) =
     (if k = key \<and> a \<le> t \<and> t < e \<and> ok then 1 else 0) + admitted key a e as rs"
  by (simp add: admitted_def)

lemma admitted_after: "clock_ok t as \<Longrightarrow> e \<le> t \<Longrightarrow> admitted key a e as rs = 0"
proof (induction as arbitrary: t rs)
  case Nil
  then show ?case by simp
next
  case (Cons x as)
  obtain k now where x: "x = (k, now)" by (cases x)
  show ?case
  proof (cases rs)
    case Nil
    then show ?thesis by (simp add: admitted_def)
  next
    case (Cons r rs')
    obtain ok d where r: "r = (ok, d)" by (cases r)
    have "clock_ok now as" "e \<le> now" using Cons.prems x by auto
    with Cons.IH have "admitted key a e as rs' = 0" by blast
    with x r Cons \<open>e \<le> now\<close> show ?thesis by (simp add: admitted_Cons)
  qed
qed

text \<open>Within a window opened at or after \<open>a\<close>, what is left of the limit bounds the admissions.\<close>

lemma admitted_in_window:
  assumes "clock_ok t as" and "m key = Some b" and "a \<le> windowStart b" and "1 \<le> count b"
  shows "int (admitted key a (a + W) as (spec_attempts L W m as)) \<le> max 0 (L - count b)"
  using assms
proof (induction as arbitrary: t m b)
  case Nil
  then show ?case by simp
next
  case (Cons x as)
  obtain k now where x: "x = (k, now)" by (cases x)
  from Cons.prems x have clk: "clock_ok now as" by auto
  obtain m' ok d where sp: "spec_Allow L W k now m = (m', ok, d)"
    by (metis prod_cases3)
  show ?case
  proof (cases "now < a + W")
    case False
    then have "admitted key a (a + W) as (spec_attempts L W m' as) = 0"
      using admitted_after [OF clk] by simp
    with False x sp show ?thesis by (simp add: admitted_Cons)
  next
    case True
    show ?thesis
    proof (cases "k = key")
      case False
      with spec_Allow_other [OF sp] Cons.prems have "m' key = Some b" by metis
      with Cons.IH [of now m' b] clk Cons.prems(3,4) False x sp
      show ?thesis by (simp add: admitted_Cons)
    next
      case key: True
      have "\<not> now - windowStart b \<ge> W" using True Cons.prems(3) by simp
      with sp key Cons.prems(2) have m': "m' key = Some (b\<lparr>count := count b + 1\<rparr>)"
        and ok: "ok \<longleftrightarrow> count b + 1 \<le> L"
        by (auto simp: spec_Allow_def)
      from Cons.IH [of now m' "b\<lparr>count := count b + 1\<rparr>"] clk m' Cons.prems(3,4)
      have "int (admitted key a (a + W) as (spec_attempts L W m' as)) \<le> max 0 (L - (count b + 1))"
        by simp
      with ok x sp show ?thesis by (simp add: admitted_Cons max_def split: if_splits)
    qed
  qed
qed

text \<open>From a moment of the interval on: the rest of the open window, then one more window.\<close>

lemma admitted_two_windows:
  assumes "clock_ok t as" and "a \<le> t" and "\<And>b. m key = Some b \<Longrightarrow> 1 \<le> count b"
  shows "int (admitted key a (a + W) as (spec_attempts L W m as))
     \<le> (case m key of None \<Rightarrow> 0 | Some b \<Rightarrow> max 0 (L - count b)) + max 1 L"
  using assms
proof (induction as arbitrary: t m)
  case Nil
  then show ?case by (simp split: option.splits)
next
  case (Cons x as)
  obtain k now where x: "x = (k, now)" by (cases x)
  from Cons.prems x have clk: "clock_ok now as" and an: "a \<le> now" by auto
  obtain m' ok d where sp: "spec_Allow L W k now m = (m', ok, d)"
    by (metis prod_cases3)
  let ?rest = "int (admitted key a (a + W) as (spec_attempts L W m' as))"
  show ?case
  proof (cases "k = key")
    case False
    with spec_Allow_other [OF sp] have m': "m' key = m key" by metis
    with Cons.IH [of now m'] clk an Cons.prems(3) False x sp show ?thesis by (simp add: admitted_Cons)
  next
    case key: True
    consider (fresh) "m' key = Some \<lparr>count = 1, windowStart = now\<rparr>" "ok"
      | (same) b where "m key = Some b" "m' key = Some (b\<lparr>count := count b + 1\<rparr>)"
          "ok \<longleftrightarrow> count b + 1 \<le> L"
      using sp key by (fastforce simp: spec_Allow_def split: option.splits if_splits)
    then show ?thesis
    proof cases
      case fresh
      from admitted_in_window [of now as m' key "\<lparr>count = 1, windowStart = now\<rparr>" a W L] clk fresh an
      have "?rest \<le> max 0 (L - 1)" by simp
      with fresh x sp show ?thesis
        by (simp add: admitted_Cons max_def split: if_splits option.splits)
    next
      case same
      with Cons.prems(3) have "1 \<le> count b" by blast
      with Cons.IH [of now m'] clk an same
      have "?rest \<le> max 0 (L - (count b + 1)) + max 1 L" by simp
      with same x sp show ?thesis by (simp add: admitted_Cons max_def split: if_splits)
    qed
  qed
qed

lemma admitted_bound:
  assumes "clock_ok t as" and "\<And>b. m key = Some b \<Longrightarrow> 1 \<le> count b" and "1 \<le> L"
  shows "int (admitted key a (a + W) as (spec_attempts L W m as)) \<le> 2 * L - 1"
  using assms(1,2)
proof (induction as arbitrary: t m)
  case Nil
  then show ?case using \<open>1 \<le> L\<close> by simp
next
  case (Cons x as)
  obtain k now where x: "x = (k, now)" by (cases x)
  obtain m' ok d where sp: "spec_Allow L W k now m = (m', ok, d)"
    by (metis prod_cases3)
  show ?case
  proof (cases "a \<le> now")
    case True
    have "clock_ok now (x # as)" using Cons.prems x by simp
    from admitted_two_windows [of now "x # as" a m key W L] this True Cons.prems(2) \<open>1 \<le> L\<close>
    show ?thesis by (force simp: max_def split: option.splits if_splits)
  next
    case False
    have "\<And>b. m' key = Some b \<Longrightarrow> 1 \<le> count b"
      using sp Cons.prems(2) by (fastforce simp: spec_Allow_def split: option.splits if_splits)
    with Cons.IH [of now m'] Cons.prems x False sp show ?thesis by (simp add: admitted_Cons)
  qed
qed


section \<open>The contract of a throttle\<close>

text \<open>
  What the middleware relies on: every answer comes with a sound waiting time, an admitted
  attempt needs no waiting, and the attempts of one key never change what another key sees.
\<close>

locale throttle =
  fixes allow :: "'k \<Rightarrow> time \<Rightarrow> 's \<Rightarrow> 's \<times> bool \<times> duration"
    and since :: "'s \<Rightarrow> 'k \<Rightarrow> time \<Rightarrow> 'b option"
    and window :: "'s \<Rightarrow> duration"
    and invar :: "time \<Rightarrow> 's \<Rightarrow> bool"
  assumes invar_allow: "invar t s \<Longrightarrow> t \<le> now \<Longrightarrow> allow k now s = (s', r) \<Longrightarrow> invar now s'"
    and retry_pos: "invar t s \<Longrightarrow> t \<le> now \<Longrightarrow> allow k now s = (s', False, d) \<Longrightarrow> 0 < d"
    and retry_le: "invar t s \<Longrightarrow> t \<le> now \<Longrightarrow> allow k now s = (s', False, d) \<Longrightarrow> d \<le> window s"
    and window_allow: "allow k now s = (s', r) \<Longrightarrow> window s' = window s"
    and since_other: "k' \<noteq> k \<Longrightarrow> allow k now s = (s', r) \<Longrightarrow> now \<le> t
        \<Longrightarrow> since s' k' t = since s k' t"
begin

lemma retry_header_range:
  assumes "invar t s" and "t \<le> now" and "allow k now s = (s', False, d)"
  shows "1 \<le> trunc_seconds d + 1 \<and> trunc_seconds d \<le> window s div second"
  using retry_pos [OF assms] retry_le [OF assms]
  by (simp add: trunc_seconds_def zdiv_mono1)

fun run :: "'s \<Rightarrow> ('k \<times> time) list \<Rightarrow> 's" where
  "run s [] = s"
| "run s ((k, now) # as) = run (fst (allow k now s)) as"

lemma since_run_other:
  assumes "\<forall>(k, now) \<in> set as. k \<noteq> k' \<and> now \<le> t"
  shows "since (run s as) k' t = since s k' t"
  using assms
proof (induction as arbitrary: s)
  case Nil
  then show ?case by simp
next
  case (Cons a as)
  obtain k now where a: "a = (k, now)" by (cases a)
  obtain s' r where al: "allow k now s = (s', r)" by (cases "allow k now s")
  have "since s' k' t = since s k' t" using Cons.prems a by (intro since_other [OF _ al]) auto
  with Cons a al show ?case by simp
qed

end

text \<open>The live bucket of a key: what decides its next answer.\<close>

definition live :: "limiter \<Rightarrow> string \<Rightarrow> time \<Rightarrow> bucket option" where
  "live l key t =
     (case buckets l key of None \<Rightarrow> None
      | Some b \<Rightarrow> if t - windowStart b \<ge> Window l then None else Some b)"

definition started_by :: "time \<Rightarrow> limiter \<Rightarrow> bool" where
  "started_by t l \<longleftrightarrow> (\<forall>k b. buckets l k = Some b \<longrightarrow> windowStart b \<le> t)"

lemma started_by_Allow [keeps]:
  assumes "started_by t l" and "t \<le> now" and "Allow key now l = (l', r)"
  shows "started_by now l'"
proof -
  have "started_by now l" using assms(1,2) by (auto simp: started_by_def) force
  with assms(3) show ?thesis
    by (fastforce simp: started_by_def Allow_def fresh_window_def sweepLocked_def Let_def
        split: option.splits if_splits)
qed

lemma Allow_reject:
  "Allow key now l = (l', False, d) \<Longrightarrow>
     \<exists>b. buckets l key = Some b \<and> now - windowStart b < Window l \<and> d = Window l - (now - windowStart b)"
  by (auto simp: Allow_def fresh_window_def Let_def split: option.splits if_splits)

lemma live_Allow_other:
  assumes "k' \<noteq> k" and "Allow k now l = (l', r)" and "now \<le> t"
  shows "live l' k' t = live l k' t"
  using assms
  by (auto simp: live_def Allow_def fresh_window_def sweepLocked_def Let_def
      split: option.splits if_splits)

interpretation lim: throttle Allow live Window started_by
proof unfold_locales
  fix t now d :: int and s s' :: limiter and k :: string
  assume "started_by t s" "t \<le> now" "Allow k now s = (s', False, d)"
  then obtain b where "buckets s k = Some b" "now - windowStart b < Window s"
    "d = Window s - (now - windowStart b)" using Allow_reject by blast
  moreover have "windowStart b \<le> now"
    using \<open>started_by t s\<close> \<open>t \<le> now\<close> calculation(1) by (force simp: started_by_def)
  ultimately show "0 < d" and "d \<le> Window s" by auto
qed (auto dest: started_by_Allow Limit_Allow live_Allow_other)


section \<open>Properties\<close>

text \<open>
  C15. However the attempts of all clients are interleaved, a limiter with a limit of at
  least one admits at most \<open>2 * limit - 1\<close> attempts of one client within any interval of the
  length of the window (a fixed-window counter cannot promise the plain limit).
\<close>

theorem admitted_at_most_twice:
  assumes "1 \<le> limit" and "clock_ok t as"
  shows "int (admitted key a (a + window) as (attempts (New limit window) as)) \<le> 2 * limit - 1"
  using admitted_bound [OF assms(2), of Map.empty] assms(1)
  by (simp add: attempts_New_spec [OF assms(2)])

theorem admitted_at_most_twice_witness:
  "int (admitted ''ip'' 0 (0 + 60)
     [(''ip'', 0), (''other'', 1), (''ip'', 2), (''ip'', 3), (''ip'', 61)]
     (attempts (New 2 60) [(''ip'', 0), (''other'', 1), (''ip'', 2), (''ip'', 3), (''ip'', 61)]))
   \<le> 2 * 2 - 1"
  by (rule admitted_at_most_twice [where t = 0]) simp_all

text \<open>
  C16. Sweeping expired buckets is invisible: the answers (admitted or not, and the waiting
  time) are those of the limiter that keeps every bucket forever, for every sequence of
  attempts under a clock that does not run backwards.
\<close>

theorem sweep_invisible:
  assumes "clock_ok t as"
  shows "attempts (New limit window) as = spec_attempts limit window Map.empty as"
  by (rule attempts_New_spec [OF assms])

theorem sweep_invisible_witness:
  "attempts (New 1 10) [(''a'', 0), (''b'', 11), (''a'', 12)] =
   spec_attempts 1 10 Map.empty [(''a'', 0), (''b'', 11), (''a'', 12)]"
  by (rule sweep_invisible [where t = 0]) simp

text \<open>
  A rejected request is told to come back after at least one second and no later than
  one second past the window, and a limiter with a limit of zero or less rejects nothing.
\<close>

theorem retry_after_sound:
  assumes "started_by t l" and "t \<le> now"
    and "rateLimitMiddleware ip now l = (l', TooManyRequests secs)"
  shows "0 < Limit l \<and> 1 \<le> secs \<and> secs \<le> Window l div second + 1"
proof -
  from assms(3) obtain d where al: "Allow ip now l = (l', False, d)"
    and secs: "secs = trunc_seconds d + 1" and "0 < Limit l"
    by (auto simp: rateLimitMiddleware_def split: if_splits prod.splits)
  with lim.retry_header_range [OF assms(1,2) al] show ?thesis by simp
qed

theorem retry_after_sound_witness:
  "0 < Limit (fst (Allow ''ip'' 0 (New 1 (60 * second)))) \<and> 1 \<le> (60 :: int) \<and>
   60 \<le> Window (fst (Allow ''ip'' 0 (New 1 (60 * second)))) div second + 1"
proof -
  let ?l = "fst (Allow ''ip'' 0 (New 1 (60 * second)))"
  have "rateLimitMiddleware ''ip'' (1 * second) ?l =
      (fst (rateLimitMiddleware ''ip'' (1 * second) ?l), TooManyRequests 60)"
    by (simp add: rateLimitMiddleware_def Allow_def New_def fresh_window_def sweepLocked_def
        trunc_seconds_def)
  moreover have "started_by 0 ?l"
    by (simp add: started_by_def Allow_def New_def fresh_window_def sweepLocked_def)
  ultimately show ?thesis by (intro retry_after_sound [where t = 0]) simp_all
qed

end
