(* ===== verification/Go_Values.thy ===== *)
theory Go_Values
  imports Maubase_Prelude "HOL-Library.Word"
begin

text \<open>
  Dynamic values: what Go's \<^verbatim>\<open>any\<close> holds when a row is scanned from the database
  (\<^verbatim>\<open>internal/restapi/json.go\<close>) or a JSON body is decoded, and how \<^verbatim>\<open>fmt.Sprint\<close> prints it.
  A \<^verbatim>\<open>float64\<close> is carried as its 64 bits; no operation of the program computes with it.
\<close>

type_synonym float64 = "64 word"

datatype val =
    VNull
  | VBool bool
  | VInt int
  | VFloat float64
  | VText string
  | VBytes string

datatype json =
    JNull
  | JBool bool
  | JNum float64
  | JStr string
  | JArr "json list"
  | JObj "(string \<times> json) list"

type_synonym cells = "(string \<times> val) list"

definition normalizeValue :: "val \<Rightarrow> val" where
  "normalizeValue v = (case v of VBytes b \<Rightarrow> VText b | _ \<Rightarrow> v)"

text \<open>
  \<^verbatim>\<open>fmt.Sprint\<close> of a single operand. The decimal rendering of a \<^verbatim>\<open>float64\<close> is the
  parameter \<open>ftoa\<close>; a byte slice prints as the bracketed list of its bytes.
\<close>

definition Sprint :: "(float64 \<Rightarrow> string) \<Rightarrow> val \<Rightarrow> string" where
  "Sprint ftoa v =
     (case v of
        VNull \<Rightarrow> ''<nil>''
      | VBool b \<Rightarrow> if b then ''true'' else ''false''
      | VInt i \<Rightarrow> Itoa i
      | VFloat f \<Rightarrow> ftoa f
      | VText s \<Rightarrow> s
      | VBytes b \<Rightarrow> ''['' @ Join (map (\<lambda>c. Itoa_nat (of_char c)) b) '' '' @ '']'')"

text \<open>The scalar JSON values as the values a statement parameter is bound to.\<close>

fun scalar :: "json \<Rightarrow> val option" where
  "scalar JNull = Some VNull"
| "scalar (JBool b) = Some (VBool b)"
| "scalar (JNum f) = Some (VFloat f)"
| "scalar (JStr s) = Some (VText s)"
| "scalar (JArr _) = None"
| "scalar (JObj _) = None"

lemma normalizeValue_idem [simp]: "normalizeValue (normalizeValue v) = normalizeValue v"
  by (cases v) (simp_all add: normalizeValue_def)

lemma normalizeValue_VText [simp]: "normalizeValue (VText s) = VText s"
  by (simp add: normalizeValue_def)

lemma normalizeValue_eq_VNull [simp]: "normalizeValue v = VNull \<longleftrightarrow> v = VNull"
  by (cases v) (simp_all add: normalizeValue_def)

lemma Sprint_VText [simp]: "Sprint ftoa (VText s) = s"
  by (simp add: Sprint_def)

end
