(* ===== verification/Realtime_Broker.thy ===== *)
theory Realtime_Broker
  imports Go_Values
begin

text \<open>
  The realtime layer: \<^verbatim>\<open>internal/realtime/broker.go\<close>, the message loop of
  \<^verbatim>\<open>internal/realtime/server.go\<close> and the relay of \<^verbatim>\<open>internal/realtime/redis_relay.go\<close>.

  A \<^verbatim>\<open>*Conn\<close> is a natural number, the address of a cell holding the connection's subject, the
  contents of its buffered event channel (oldest first) and whether the channel is closed.
  Sending on a closed channel panics. \<open>publishLocal\<close> takes its snapshot of the subscribers
  under the mutex and sends after releasing it, so it is given twice: as one uninterrupted
  call, and as the steps \<open>snapshot\<close> and \<open>send\<close> of a step relation in which other goroutines run
  in between.
\<close>

section \<open>State\<close>

record event =
  ev_type :: string
  ev_collection :: string
  ev_record :: "cells option"
  ev_id :: string

record conn =
  Subject :: string
  events :: "event list"
  closed :: bool

record broker =
  subs :: "string \<rightharpoonup> nat set"
  conns :: "nat \<rightharpoonup> conn"
  relay :: bool
  outbox :: "(event \<times> string) list" \<comment> \<open>what was handed to the relay\<close>

abbreviation chan_cap :: nat where "chan_cap \<equiv> 16"

definition NewBroker :: "bool \<Rightarrow> broker" where
  "NewBroker has_relay = \<lparr>subs = Map.empty, conns = Map.empty, relay = has_relay, outbox = []\<rparr>"

definition NewConn :: "nat \<Rightarrow> string \<Rightarrow> broker \<Rightarrow> broker" where
  "NewConn c subject b =
     b\<lparr>conns := (conns b)(c \<mapsto> \<lparr>Subject = subject, events = [], closed = False\<rparr>)\<rparr>"


section \<open>Operations\<close>

definition Subscribe :: "nat \<Rightarrow> string \<Rightarrow> broker \<Rightarrow> broker" where
  "Subscribe c coll b =
     (let set = (case subs b coll of None \<Rightarrow> {} | Some s \<Rightarrow> s)
      in b\<lparr>subs := (subs b)(coll \<mapsto> insert c set)\<rparr>)"

text \<open>Removing \<open>c\<close> from one subscriber set, the entry with it when the set is left empty.\<close>

definition prune :: "nat \<Rightarrow> nat set option \<Rightarrow> nat set option" where
  "prune c entry = (case entry of None \<Rightarrow> None | Some s \<Rightarrow> if s - {c} = {} then None else Some (s - {c}))"

definition Unsubscribe :: "nat \<Rightarrow> string \<Rightarrow> broker \<Rightarrow> broker" where
  "Unsubscribe c coll b = b\<lparr>subs := (subs b)(coll := prune c (subs b coll))\<rparr>"

definition close_chan :: "conn \<Rightarrow> conn" where
  "close_chan k = k\<lparr>closed := True\<rparr>"

definition Close :: "nat \<Rightarrow> broker \<Rightarrow> broker" where
  "Close c b = b\<lparr>subs := (\<lambda>coll. prune c (subs b coll)),
                 conns := (conns b)(c := map_option close_chan (conns b c))\<rparr>"

text \<open>The subscribers an event goes to: the snapshot taken under the mutex.\<close>

definition recipients :: "event \<Rightarrow> string \<Rightarrow> broker \<Rightarrow> nat set" where
  "recipients ev ownerID b =
     (case subs b (ev_collection ev) of None \<Rightarrow> {}
      | Some s \<Rightarrow> Set.filter (\<lambda>c. case conns b c of None \<Rightarrow> False
                  | Some k \<Rightarrow> ownerID = [] \<or> Subject k = ownerID) s)"

text \<open>
  One \<^verbatim>\<open>select { case c.events <- ev: default: }\<close>: \<^term>\<open>None\<close> is the panic of a send on a
  closed channel; a full buffer drops the event.
\<close>

definition try_send :: "event \<Rightarrow> conn \<Rightarrow> conn option" where
  "try_send ev k =
     (if closed k then None
      else if length (events k) < chan_cap then Some (k\<lparr>events := events k @ [ev]\<rparr>)
      else Some k)"

definition publishLocal :: "event \<Rightarrow> string \<Rightarrow> broker \<Rightarrow> broker option" where
  "publishLocal ev ownerID b =
     (let cs = recipients ev ownerID b
      in if \<exists>c \<in> cs. \<exists>k. conns b c = Some k \<and> closed k then None
         else Some (b\<lparr>conns := (\<lambda>c. case conns b c of None \<Rightarrow> None
                | Some k \<Rightarrow> if c \<in> cs then try_send ev k else Some k)\<rparr>))"

lemma recipients_iff:
  "c \<in> recipients ev ownerID b \<longleftrightarrow>
     (\<exists>s. subs b (ev_collection ev) = Some s \<and> c \<in> s) \<and>
     (\<exists>k. conns b c = Some k \<and> (ownerID = [] \<or> Subject k = ownerID))"
  by (auto simp: recipients_def split: option.splits)

definition Publish :: "event \<Rightarrow> string \<Rightarrow> broker \<Rightarrow> broker option" where
  "Publish ev ownerID b =
     (case publishLocal ev ownerID b of None \<Rightarrow> None
      | Some b' \<Rightarrow> Some (if relay b' then b'\<lparr>outbox := outbox b' @ [(ev, ownerID)]\<rparr> else b'))"


section \<open>The connection's pumps\<close>

text \<open>One frame from the peer: \<^term>\<open>None\<close> is a read error, otherwise its type and collection.\<close>

type_synonym frame = "(string \<times> string) option"

fun readPump :: "nat \<Rightarrow> frame list \<Rightarrow> broker \<Rightarrow> broker" where
  "readPump c [] b = b"
| "readPump c (None # fs) b = b"
| "readPump c (Some (ty, coll) # fs) b =
     readPump c fs
       (if coll = [] then b
        else if ty = ''subscribe'' then Subscribe c coll b
        else if ty = ''unsubscribe'' then Unsubscribe c coll b
        else b)"

fun writePump :: "(event \<Rightarrow> bool) \<Rightarrow> event list \<Rightarrow> event list" where
  "writePump writeOK [] = []"
| "writePump writeOK (ev # evs) = (if writeOK ev then ev # writePump writeOK evs else [])"

text \<open>
  \<open>handleConnect\<close>: no token or a token the authorization server does not accept for
  \<^verbatim>\<open>records:read\<close> is a 401 and leaves the broker alone; otherwise the connection lives as long
  as its read loop and is closed after it. A failed upgrade has written its own response.
\<close>

datatype connect_result = Unauthorized | UpgradeFailed | Served

definition handleConnect ::
  "(string \<Rightarrow> string \<Rightarrow> string option) \<Rightarrow> string \<Rightarrow> bool \<Rightarrow> nat \<Rightarrow> frame list \<Rightarrow> broker
     \<Rightarrow> connect_result \<times> broker" where
  "handleConnect authenticate token upgradeOK c fs b =
     (if token = [] then (Unauthorized, b)
      else (case authenticate token ''records:read'' of
              None \<Rightarrow> (Unauthorized, b)
            | Some subject \<Rightarrow>
                if \<not> upgradeOK then (UpgradeFailed, b)
                else (Served, Close c (readPump c fs (NewConn c subject b)))))"


section \<open>Invariant\<close>

text \<open>
  Every subscriber set that is kept is inhabited, every subscriber is a connection whose
  channel is still open, and no buffer is longer than the channel.
\<close>

definition broker_ok :: "broker \<Rightarrow> bool" where
  "broker_ok b \<longleftrightarrow>
     (\<forall>coll s. subs b coll = Some s \<longrightarrow>
        s \<noteq> {} \<and> (\<forall>c \<in> s. \<exists>k. conns b c = Some k \<and> \<not> closed k)) \<and>
     (\<forall>c k. conns b c = Some k \<longrightarrow> length (events k) \<le> chan_cap)"

definition open_conn :: "nat \<Rightarrow> broker \<Rightarrow> bool" where
  "open_conn c b \<longleftrightarrow> (\<exists>k. conns b c = Some k \<and> \<not> closed k)"

lemma prune_Some: "prune c entry = Some s \<longleftrightarrow> (\<exists>s0. entry = Some s0 \<and> s = s0 - {c} \<and> s \<noteq> {})"
  by (auto simp: prune_def split: option.splits if_splits)

lemma broker_okD:
  assumes "broker_ok b" and "subs b coll = Some s"
  shows "s \<noteq> {}" and "\<And>c. c \<in> s \<Longrightarrow> open_conn c b"
  using assms by (auto simp: broker_ok_def open_conn_def)

lemma broker_ok_buf: "broker_ok b \<Longrightarrow> conns b c = Some k \<Longrightarrow> length (events k) \<le> chan_cap"
  by (auto simp: broker_ok_def)

lemma broker_ok_New [keeps]: "broker_ok (NewBroker r)"
  by (simp add: broker_ok_def NewBroker_def)

lemma broker_ok_NewConn [keeps]: "broker_ok b \<Longrightarrow> broker_ok (NewConn c subject b)"
  by (auto simp: broker_ok_def NewConn_def)

lemma broker_ok_Subscribe [keeps]: "broker_ok b \<Longrightarrow> open_conn c b \<Longrightarrow> broker_ok (Subscribe c coll b)"
  by (auto simp: broker_ok_def Subscribe_def open_conn_def Let_def split: option.splits)

lemma broker_ok_Unsubscribe [keeps]: "broker_ok b \<Longrightarrow> broker_ok (Unsubscribe c coll b)"
  by (auto simp: broker_ok_def Unsubscribe_def prune_Some)

lemma broker_ok_Close [keeps]:
  assumes "broker_ok b"
  shows "broker_ok (Close c b)"
  unfolding broker_ok_def
proof (intro conjI allI impI)
  fix coll s assume "subs (Close c b) coll = Some s"
  then obtain s0 where s0: "subs b coll = Some s0" "s = s0 - {c}" "s \<noteq> {}"
    by (auto simp: Close_def prune_Some)
  then show "s \<noteq> {}" by simp
  show "\<forall>d \<in> s. \<exists>k. conns (Close c b) d = Some k \<and> \<not> closed k"
    using broker_okD(2) [OF assms s0(1)] s0(2) by (auto simp: Close_def open_conn_def)
next
  fix d k assume "conns (Close c b) d = Some k"
  then show "length (events k) \<le> chan_cap"
    using broker_ok_buf [OF assms] by (auto simp: Close_def close_chan_def split: if_splits)
qed

lemma recipients_open: "broker_ok b \<Longrightarrow> c \<in> recipients ev ownerID b \<Longrightarrow> open_conn c b"
  by (auto simp: recipients_iff dest: broker_okD)

lemma recipients_not_closed:
  "broker_ok b \<Longrightarrow> c \<in> recipients ev ownerID b \<Longrightarrow> conns b c = Some k \<Longrightarrow> \<not> closed k"
  by (auto simp: open_conn_def dest!: recipients_open)

text \<open>An uninterrupted publication never panics.\<close>

lemma publishLocal_ok: "broker_ok b \<Longrightarrow> publishLocal ev ownerID b \<noteq> None"
  by (auto simp: publishLocal_def Let_def open_conn_def dest!: recipients_open)

lemma publishLocal_subs [frame]: "publishLocal ev ownerID b = Some b' \<Longrightarrow>
    subs b' = subs b \<and> relay b' = relay b \<and> outbox b' = outbox b"
  by (auto simp: publishLocal_def Let_def split: if_splits)

lemma publishLocal_conns:
  "publishLocal ev ownerID b = Some b' \<Longrightarrow> conns b' c =
     (case conns b c of None \<Rightarrow> None
      | Some k \<Rightarrow> if c \<in> recipients ev ownerID b then try_send ev k else Some k)"
  by (auto simp: publishLocal_def Let_def split: if_splits)

lemma try_send_open: "\<not> closed k \<Longrightarrow> try_send ev k = Some k' \<Longrightarrow>
    \<not> closed k' \<and> Subject k' = Subject k \<and> length (events k') \<le> max (length (events k)) chan_cap"
  by (auto simp: try_send_def split: if_splits)

lemma broker_ok_publishLocal [keeps]:
  assumes ok: "broker_ok b" and pub: "publishLocal ev ownerID b = Some b'"
  shows "broker_ok b'"
proof -
  have conn: "\<exists>k'. conns b' c = Some k' \<and> (\<not> closed k \<longrightarrow> \<not> closed k') \<and> length (events k') \<le> chan_cap"
    if "conns b c = Some k" for c k
  proof (cases "c \<in> recipients ev ownerID b")
    case True
    with that have "\<not> closed k" using recipients_not_closed [OF ok] by blast
    with True that publishLocal_conns [OF pub, of c] broker_ok_buf [OF ok that]
    show ?thesis by (auto simp: try_send_def)
  next
    case False
    with that publishLocal_conns [OF pub, of c] broker_ok_buf [OF ok that] show ?thesis by auto
  qed
  have none: "conns b' c = None" if "conns b c = None" for c
    using publishLocal_conns [OF pub, of c] that by simp
  show ?thesis
    unfolding broker_ok_def
  proof (intro conjI allI impI ballI)
    fix coll s assume s: "subs b' coll = Some s"
    with publishLocal_subs [OF pub] have sb: "subs b coll = Some s" by simp
    show "s \<noteq> {}" using broker_okD(1) [OF ok sb] .
    fix c assume "c \<in> s"
    with broker_okD(2) [OF ok sb] show "\<exists>k. conns b' c = Some k \<and> \<not> closed k"
      using conn by (fastforce simp: open_conn_def)
  next
    fix c k assume "conns b' c = Some k"
    then show "length (events k) \<le> chan_cap"
      using conn none by (cases "conns b c") fastforce+
  qed
qed

lemma broker_ok_Publish [keeps]:
  "broker_ok b \<Longrightarrow> Publish ev ownerID b = Some b' \<Longrightarrow> broker_ok b'"
  using broker_ok_publishLocal [of b ev ownerID]
  by (fastforce simp: Publish_def broker_ok_def split: option.splits if_splits)

lemma Publish_ok: "broker_ok b \<Longrightarrow> Publish ev ownerID b \<noteq> None"
  using publishLocal_ok by (fastforce simp: Publish_def split: option.splits)

lemma open_conn_readPump_step:
  "open_conn c b \<Longrightarrow> open_conn c (Subscribe d coll b) \<and> open_conn c (Unsubscribe d coll b)"
  by (auto simp: open_conn_def Subscribe_def Unsubscribe_def Let_def)

lemma broker_ok_readPump [keeps]:
  "broker_ok b \<Longrightarrow> open_conn c b \<Longrightarrow> broker_ok (readPump c fs b)"
  by (induction c fs b rule: readPump.induct)
    (auto simp: broker_ok_Subscribe broker_ok_Unsubscribe open_conn_readPump_step)

lemma open_conn_NewConn [simp]: "open_conn c (NewConn c subject b)"
  by (simp add: open_conn_def NewConn_def)

lemma broker_ok_handleConnect [keeps]:
  "broker_ok b \<Longrightarrow> broker_ok (snd (handleConnect authenticate token upgradeOK c fs b))"
  by (simp add: handleConnect_def broker_ok_Close broker_ok_readPump broker_ok_NewConn split: option.splits)


section \<open>The contract of a fan-out\<close>

text \<open>
  What the write handlers of the data API rely on: publishing succeeds in every state they
  can meet, reaches nobody but the owner when it is given one, never takes an event away, and
  leaves subjects and subscriptions as they are.
\<close>

definition inbox :: "broker \<Rightarrow> nat \<Rightarrow> event list" where
  "inbox b c = (case conns b c of None \<Rightarrow> [] | Some k \<Rightarrow> events k)"

definition subject_of :: "broker \<Rightarrow> nat \<Rightarrow> string option" where
  "subject_of b c = map_option Subject (conns b c)"

definition subscribed :: "broker \<Rightarrow> nat \<Rightarrow> string \<Rightarrow> bool" where
  "subscribed b c coll \<longleftrightarrow> (\<exists>s. subs b coll = Some s \<and> c \<in> s)"

locale fanout =
  fixes publish :: "event \<Rightarrow> string \<Rightarrow> 'b \<Rightarrow> 'b option"
    and box :: "'b \<Rightarrow> nat \<Rightarrow> event list"
    and subj :: "'b \<Rightarrow> nat \<Rightarrow> string option"
    and subd :: "'b \<Rightarrow> nat \<Rightarrow> string \<Rightarrow> bool"
    and invar :: "'b \<Rightarrow> bool"
  assumes publish_total: "invar b \<Longrightarrow> \<exists>b'. publish ev ow b = Some b'"
    and publish_invar: "invar b \<Longrightarrow> publish ev ow b = Some b' \<Longrightarrow> invar b'"
    and publish_subj: "publish ev ow b = Some b' \<Longrightarrow> invar b \<Longrightarrow> subj b' c = subj b c"
    and publish_subd: "publish ev ow b = Some b' \<Longrightarrow> subd b' c coll = subd b c coll"
    and publish_box: "publish ev ow b = Some b' \<Longrightarrow> invar b \<Longrightarrow>
        box b' c = box b c \<or>
        (box b' c = box b c @ [ev] \<and> subd b c (ev_collection ev) \<and> (ow = [] \<or> subj b c = Some ow))"
begin

text \<open>Publishing a batch, as the erasure of an account does.\<close>

fun publish_all :: "(event \<times> string) list \<Rightarrow> 'b \<Rightarrow> 'b option" where
  "publish_all [] b = Some b"
| "publish_all ((ev, ow) # es) b =
     (case publish ev ow b of None \<Rightarrow> None | Some b' \<Rightarrow> publish_all es b')"

lemma publish_all_total: "invar b \<Longrightarrow> \<exists>b'. publish_all es b = Some b' \<and> invar b'"
proof (induction es arbitrary: b)
  case (Cons e es)
  obtain ev ow where e: "e = (ev, ow)" by (cases e)
  obtain b' where "publish ev ow b = Some b'" "invar b'"
    using publish_total [OF Cons.prems] publish_invar [OF Cons.prems] by blast
  with Cons.IH e show ?case by simp
qed simp

lemma publish_all_box:
  assumes "invar b" and "publish_all es b = Some b'" and "ev \<in> set (box b' c)"
  shows "ev \<in> set (box b c) \<or>
    (\<exists>ow. (ev, ow) \<in> set es \<and> subd b c (ev_collection ev) \<and> (ow = [] \<or> subj b c = Some ow))"
  using assms
proof (induction es arbitrary: b)
  case (Cons e es)
  obtain ev1 ow1 where e: "e = (ev1, ow1)" by (cases e)
  obtain b1 where b1: "publish ev1 ow1 b = Some b1" "publish_all es b1 = Some b'"
    using Cons.prems(2) e by (auto split: option.splits)
  have "invar b1" using publish_invar Cons.prems(1) b1 by blast
  from Cons.IH [OF this b1(2) Cons.prems(3)] publish_box [OF b1(1) Cons.prems(1), of c]
    publish_subj [OF b1(1) Cons.prems(1)] publish_subd [OF b1(1)] e
  show ?case by auto
qed simp

end

lemma inbox_Publish:
  assumes pub: "Publish ev ow b = Some b'" and ok: "broker_ok b"
  shows "inbox b' c = inbox b c \<or>
     (inbox b' c = inbox b c @ [ev] \<and> subscribed b c (ev_collection ev) \<and> (ow = [] \<or> subject_of b c = Some ow))"
proof -
  obtain b1 where b1: "publishLocal ev ow b = Some b1" and "conns b' = conns b1"
    using pub by (auto simp: Publish_def split: option.splits if_splits)
  show ?thesis
  proof (cases "conns b c")
    case None
    with publishLocal_conns [OF b1, of c] \<open>conns b' = conns b1\<close> show ?thesis by (simp add: inbox_def)
  next
    case (Some k)
    show ?thesis
    proof (cases "c \<in> recipients ev ow b")
      case True
      with Some publishLocal_conns [OF b1, of c] recipients_not_closed [OF ok True Some] \<open>conns b' = conns b1\<close>
      show ?thesis
        by (auto simp: inbox_def try_send_def recipients_iff subscribed_def subject_of_def split: if_splits)
    next
      case False
      with Some publishLocal_conns [OF b1, of c] \<open>conns b' = conns b1\<close> show ?thesis
        by (simp add: inbox_def)
    qed
  qed
qed

lemma subject_of_Publish:
  assumes pub: "Publish ev ow b = Some b'" and ok: "broker_ok b"
  shows "subject_of b' c = subject_of b c"
proof -
  obtain b1 where b1: "publishLocal ev ow b = Some b1" and "conns b' = conns b1"
    using pub by (auto simp: Publish_def split: option.splits if_splits)
  moreover have "\<not> closed k" if "c \<in> recipients ev ow b" "conns b c = Some k" for k
    using recipients_not_closed [OF ok that] .
  ultimately show ?thesis
    using publishLocal_conns [OF b1, of c]
    by (cases "conns b c") (auto simp: subject_of_def try_send_def split: if_splits)
qed

lemma subscribed_Publish: "Publish ev ow b = Some b' \<Longrightarrow> subscribed b' c coll = subscribed b c coll"
  using publishLocal_subs
  by (fastforce simp: Publish_def subscribed_def split: option.splits if_splits)

interpretation rt: fanout Publish inbox subject_of subscribed broker_ok
proof unfold_locales
  fix b ev ow assume "broker_ok b"
  then show "\<exists>b'. Publish ev ow b = Some b'" using Publish_ok by blast
qed (auto dest: broker_ok_Publish subject_of_Publish subscribed_Publish inbox_Publish)

text \<open>An open subscriber with room in its channel does get the event.\<close>

lemma Publish_delivers:
  assumes ok: "broker_ok b" and pub: "Publish ev ow b = Some b'"
    and sub: "subscribed b c (ev_collection ev)"
    and auth: "ow = [] \<or> subject_of b c = Some ow"
    and room: "length (inbox b c) < chan_cap"
  shows "inbox b' c = inbox b c @ [ev]"
proof -
  obtain b1 where b1: "publishLocal ev ow b = Some b1" and cs: "conns b' = conns b1"
    using pub by (auto simp: Publish_def split: option.splits if_splits)
  obtain s where s: "subs b (ev_collection ev) = Some s" "c \<in> s"
    using sub by (auto simp: subscribed_def)
  with broker_okD(2) [OF ok s(1), of c] obtain k where k: "conns b c = Some k" "\<not> closed k"
    by (auto simp: open_conn_def)
  with s auth have "c \<in> recipients ev ow b" by (auto simp: recipients_iff subject_of_def)
  with publishLocal_conns [OF b1, of c] k cs room show ?thesis
    by (auto simp: inbox_def try_send_def)
qed


section \<open>Several processes behind one relay\<close>

text \<open>
  A relayed message carries the event, its owner gate and the random id of the relay that
  published it; \<^term>\<open>None\<close> is a payload that does not parse. The relay's loop drops what it
  published itself and hands the rest to the local subscribers.
\<close>

type_synonym relay_message = "(event \<times> string \<times> string) option"

definition relay_handle :: "string \<Rightarrow> relay_message \<Rightarrow> broker \<Rightarrow> broker option" where
  "relay_handle originID msg b =
     (case msg of None \<Rightarrow> Some b
      | Some (ev, ownerID, origin) \<Rightarrow>
          if origin = originID then Some b else publishLocal ev ownerID b)"

fun relay_run :: "string \<Rightarrow> relay_message list \<Rightarrow> broker \<Rightarrow> broker option" where
  "relay_run originID [] b = Some b"
| "relay_run originID (m # ms) b =
     (case relay_handle originID m b of None \<Rightarrow> None | Some b' \<Rightarrow> relay_run originID ms b')"

text \<open>The published messages of one process, as the relay stamps them.\<close>

definition relay_stamp :: "string \<Rightarrow> broker \<Rightarrow> relay_message list" where
  "relay_stamp originID b = map (\<lambda>(ev, ow). Some (ev, ow, originID)) (outbox b)"

lemma broker_ok_relay_handle [keeps]:
  "broker_ok b \<Longrightarrow> relay_handle oid msg b = Some b' \<Longrightarrow> broker_ok b'"
  by (auto simp: relay_handle_def intro: broker_ok_publishLocal split: option.splits if_splits)

lemma relay_handle_total: "broker_ok b \<Longrightarrow> \<exists>b'. relay_handle oid msg b = Some b'"
  using publishLocal_ok by (auto simp: relay_handle_def split: option.splits)

lemma relay_run_own: "relay_run oid (relay_stamp oid b0) b = Some b"
proof -
  have "relay_run oid (map (\<lambda>(ev, ow). Some (ev, ow, oid)) es) b = Some b" for es
    by (induction es) (auto simp: relay_handle_def)
  then show ?thesis by (simp add: relay_stamp_def)
qed

lemma relay_run_total: "broker_ok b \<Longrightarrow> \<exists>b'. relay_run oid ms b = Some b' \<and> broker_ok b'"
proof (induction ms arbitrary: b)
  case (Cons m ms)
  obtain b1 where "relay_handle oid m b = Some b1" "broker_ok b1"
    using relay_handle_total [OF Cons.prems] broker_ok_relay_handle [OF Cons.prems] by blast
  with Cons.IH show ?case by auto
qed simp


section \<open>Goroutines in between: the step relation\<close>

text \<open>
  A publication in flight holds its event and the connections it has still to send to.
  Connections open, subscribe, unsubscribe and close while it is in flight; each of these
  steps holds the mutex and is atomic. A send to a closed channel takes the system to the
  panicked state.
\<close>

record sys =
  brk :: broker
  inflight :: "(event \<times> nat list) list"
  panicked :: bool

definition init_sys :: "bool \<Rightarrow> sys" where
  "init_sys r = \<lparr>brk = NewBroker r, inflight = [], panicked = False\<rparr>"

inductive rt_step :: "sys \<Rightarrow> sys \<Rightarrow> bool" where
  connect: "conns (brk s) c = None \<Longrightarrow> rt_step s (s\<lparr>brk := NewConn c subject (brk s)\<rparr>)"
| subscribe: "open_conn c (brk s) \<Longrightarrow> rt_step s (s\<lparr>brk := Subscribe c coll (brk s)\<rparr>)"
| unsubscribe: "open_conn c (brk s) \<Longrightarrow> rt_step s (s\<lparr>brk := Unsubscribe c coll (brk s)\<rparr>)"
| close: "open_conn c (brk s) \<Longrightarrow> rt_step s (s\<lparr>brk := Close c (brk s)\<rparr>)"
| snapshot: "set cs = recipients ev ow (brk s) \<Longrightarrow> distinct cs \<Longrightarrow>
     rt_step s (s\<lparr>inflight := inflight s @ [(ev, cs)]\<rparr>)"
| send: "inflight s = xs @ (ev, c # cs) # ys \<Longrightarrow> conns (brk s) c = Some k \<Longrightarrow> try_send ev k = Some k' \<Longrightarrow>
     rt_step s (s\<lparr>brk := (brk s)\<lparr>conns := (conns (brk s))(c \<mapsto> k')\<rparr>,
                 inflight := xs @ (ev, cs) # ys\<rparr>)"
| send_panic: "inflight s = xs @ (ev, c # cs) # ys \<Longrightarrow> conns (brk s) c = Some k \<Longrightarrow> try_send ev k = None \<Longrightarrow>
     rt_step s (s\<lparr>panicked := True\<rparr>)"
| finish: "inflight s = xs @ (ev, []) # ys \<Longrightarrow> rt_step s (s\<lparr>inflight := xs @ ys\<rparr>)"

inductive rt_reach :: "bool \<Rightarrow> sys \<Rightarrow> bool" for r where
  start: "rt_reach r (init_sys r)"
| step: "rt_reach r s \<Longrightarrow> rt_step s t \<Longrightarrow> rt_reach r t"

inductive_cases rt_stepE: "rt_step s t"

lemma broker_ok_try_send:
  assumes "broker_ok b" and "conns b c = Some k" and "try_send ev k = Some k'"
  shows "broker_ok (b\<lparr>conns := (conns b)(c \<mapsto> k')\<rparr>)"
  using assms unfolding broker_ok_def
  by (auto simp: try_send_def split: if_splits)

lemmas broker_ok_ops = broker_ok_New broker_ok_NewConn broker_ok_Subscribe broker_ok_Unsubscribe
  broker_ok_Close

lemma rt_step_broker_ok: "rt_step s t \<Longrightarrow> broker_ok (brk s) \<Longrightarrow> broker_ok (brk t)"
proof (induction rule: rt_step.induct)
  case (send s xs ev c cs ys k k')
  then show ?case using broker_ok_try_send by simp
qed (simp_all add: broker_ok_ops)

lemma rt_reach_broker_ok: "rt_reach r s \<Longrightarrow> broker_ok (brk s)"
  by (induction rule: rt_reach.induct) (auto simp: init_sys_def broker_ok_ops intro: rt_step_broker_ok)

text \<open>A step that closes no connection a publication in flight has still to send to.\<close>

definition calm :: "sys \<Rightarrow> sys \<Rightarrow> bool" where
  "calm s t \<longleftrightarrow> (\<forall>c. open_conn c (brk s) \<longrightarrow> (\<exists>(ev, cs) \<in> set (inflight s). c \<in> set cs)
     \<longrightarrow> open_conn c (brk t))"

inductive calm_reach :: "bool \<Rightarrow> sys \<Rightarrow> bool" for r where
  start: "calm_reach r (init_sys r)"
| step: "calm_reach r s \<Longrightarrow> rt_step s t \<Longrightarrow> calm s t \<Longrightarrow> calm_reach r t"

definition inflight_open :: "sys \<Rightarrow> bool" where
  "inflight_open s \<longleftrightarrow> (\<forall>(ev, cs) \<in> set (inflight s). \<forall>c \<in> set cs. open_conn c (brk s))"

lemma calm_keeps_open:
  assumes "calm s t" and "inflight_open s"
    and "\<And>ev cs c. (ev, cs) \<in> set (inflight t) \<Longrightarrow> c \<in> set cs \<Longrightarrow>
           \<exists>ev' cs'. (ev', cs') \<in> set (inflight s) \<and> c \<in> set cs'"
  shows "inflight_open t"
  using assms unfolding inflight_open_def calm_def by fast

lemma calm_step_inv:
  assumes "rt_step s t" and "calm s t" and "broker_ok (brk s)" and "inflight_open s" and "\<not> panicked s"
  shows "inflight_open t \<and> \<not> panicked t"
  using assms
proof (cases rule: rt_step.cases)
  case (snapshot cs ev ow)
  then have "\<forall>c \<in> set cs. open_conn c (brk s)" using recipients_open [OF assms(3)] by blast
  with snapshot assms(4,5) show ?thesis by (auto simp: inflight_open_def)
next
  case (send xs ev c cs ys k k')
  have "inflight_open t"
  proof (rule calm_keeps_open [OF assms(2,4)])
    fix e ds d assume "(e, ds) \<in> set (inflight t)" and "d \<in> set ds"
    then have "(e, ds) \<in> set (inflight s) \<or> (ev, c # cs) \<in> set (inflight s) \<and> d \<in> set (c # cs)"
      using send by auto
    with \<open>d \<in> set ds\<close> show "\<exists>ev' cs'. (ev', cs') \<in> set (inflight s) \<and> d \<in> set cs'" by blast
  qed
  with send assms(5) show ?thesis by simp
next
  case (send_panic xs ev c cs ys k)
  then have "open_conn c (brk s)" using assms(4) by (auto simp: inflight_open_def)
  with send_panic have False by (auto simp: open_conn_def try_send_def split: if_splits)
  then show ?thesis ..
next
  case (finish xs ev ys)
  have "inflight_open t" by (rule calm_keeps_open [OF assms(2,4)]) (use finish in auto)
  with finish assms(5) show ?thesis by simp
qed (use calm_keeps_open [OF assms(2,4)] in auto)

lemma calm_reach_inv: "calm_reach r s \<Longrightarrow> broker_ok (brk s) \<and> inflight_open s \<and> \<not> panicked s"
proof (induction rule: calm_reach.induct)
  case start
  show ?case by (simp add: init_sys_def inflight_open_def broker_ok_ops)
next
  case (step s t)
  then show ?case using calm_step_inv rt_step_broker_ok by blast
qed


section \<open>Properties\<close>

abbreviation ev_note :: event where
  "ev_note \<equiv> \<lparr>ev_type = ''deleted'', ev_collection = ''notes'', ev_record = None, ev_id = ''n1''\<rparr>"

text \<open>
  Whatever interleaving of connections, subscriptions, closings and publications has
  happened, every subscription entry is inhabited, every subscriber's channel is open and
  no channel holds more than its sixteen events: closing and unsubscribing prune every
  entry they empty.
\<close>

theorem broker_invariant:
  assumes "rt_reach r s"
  shows "broker_ok (brk s)"
  by (rule rt_reach_broker_ok [OF assms])

theorem broker_invariant_witness:
  "broker_ok (brk (init_sys False\<lparr>brk := NewConn 0 ''alice'' (brk (init_sys False))\<rparr>))"
  by (rule broker_invariant [where r = False])
    (rule rt_reach.step [OF rt_reach.start rt_step.connect], simp add: init_sys_def NewBroker_def)

text \<open>
  C12. An event published for one owner reaches no connection of another subject and no
  connection that is not subscribed to its collection; it reaches every authorised open
  subscriber that has room, once, after everything already waiting there.
\<close>

theorem publish_exactly_to_authorised:
  assumes "broker_ok b" and "Publish ev ow b = Some b'" and "length (inbox b c) < chan_cap"
  shows "inbox b' c = inbox b c @
    (if subscribed b c (ev_collection ev) \<and> (ow = [] \<or> subject_of b c = Some ow) then [ev] else [])"
  using Publish_delivers [OF assms(1,2) _ _ assms(3)] rt.publish_box [OF assms(2,1), of c] by auto

theorem publish_exactly_to_authorised_witness:
  "let b = Subscribe 1 ''notes'' (Subscribe 0 ''notes''
             (NewConn 1 ''bob'' (NewConn 0 ''alice'' (NewBroker False))));
       b' = the (Publish ev_note ''alice'' b)
   in inbox b' 0 = [ev_note] \<and> inbox b' 1 = []"
proof -
  define b where "b = Subscribe 1 ''notes'' (Subscribe 0 ''notes''
             (NewConn 1 ''bob'' (NewConn 0 ''alice'' (NewBroker False))))"
  have ok: "broker_ok b" unfolding b_def
    by (intro broker_ok_ops) (simp_all add: open_conn_def Subscribe_def NewConn_def Let_def)
  then obtain b' where b': "Publish ev_note ''alice'' b = Some b'"
    using rt.publish_total by blast
  have "inbox b 0 = []" "inbox b 1 = []"
    by (simp_all add: b_def inbox_def Subscribe_def NewConn_def Let_def)
  moreover have "subscribed b 0 ''notes''" "subject_of b 0 = Some ''alice''" "subject_of b 1 = Some ''bob''"
    by (simp_all add: b_def subscribed_def subject_of_def Subscribe_def NewConn_def NewBroker_def Let_def)
  ultimately show ?thesis
    using publish_exactly_to_authorised [OF ok b', of 0] publish_exactly_to_authorised [OF ok b', of 1] b'
    unfolding Let_def b_def [symmetric] b' option.sel by simp
qed

text \<open>
  C13. The panic of a send on a closed channel can happen: a connection that closes between
  the snapshot of the subscribers and the send takes the publishing goroutine down.
\<close>

theorem send_on_closed_reachable: "\<exists>s. rt_reach False s \<and> panicked s"
proof -
  let ?s0 = "init_sys False"
  let ?s1 = "?s0\<lparr>brk := NewConn 0 ''alice'' (brk ?s0)\<rparr>"
  let ?s2 = "?s1\<lparr>brk := Subscribe 0 ''notes'' (brk ?s1)\<rparr>"
  let ?s3 = "?s2\<lparr>inflight := inflight ?s2 @ [(ev_note, [0])]\<rparr>"
  let ?s4 = "?s3\<lparr>brk := Close 0 (brk ?s3)\<rparr>"
  have "rt_reach False ?s1"
    by (rule rt_reach.step [OF rt_reach.start rt_step.connect]) (simp add: init_sys_def NewBroker_def)
  then have "rt_reach False ?s2"
    by (rule rt_reach.step [OF _ rt_step.subscribe]) (simp add: open_conn_def NewConn_def)
  then have "rt_reach False ?s3"
    by (rule rt_reach.step [OF _ rt_step.snapshot [where ow = "[]"]])
      (auto simp: recipients_def init_sys_def NewBroker_def Subscribe_def NewConn_def Let_def)
  then have "rt_reach False ?s4"
    by (rule rt_reach.step [OF _ rt_step.close])
      (simp add: open_conn_def Subscribe_def NewConn_def Let_def)
  then have "rt_reach False (?s4\<lparr>panicked := True\<rparr>)"
    by (rule rt_reach.step [OF _ rt_step.send_panic [where xs = "[]" and ys = "[]" and cs = "[]"]])
      (auto simp: init_sys_def Close_def Subscribe_def NewConn_def Let_def close_chan_def try_send_def)
  then show ?thesis by (rule exI [where x = "?s4\<lparr>panicked := True\<rparr>", OF conjI]) simp
qed

text \<open>
  It is the only way: as long as no step closes a connection a publication in flight has
  still to send to, no reachable state has panicked.
\<close>

theorem no_panic_when_calm:
  assumes "calm_reach r s"
  shows "\<not> panicked s"
  using calm_reach_inv [OF assms] by blast

theorem no_panic_when_calm_witness:
  "\<not> panicked (init_sys True\<lparr>brk := NewConn 0 ''alice'' (brk (init_sys True))\<rparr>)"
  by (rule no_panic_when_calm [where r = True], rule calm_reach.step [OF calm_reach.start rt_step.connect])
    (simp_all add: init_sys_def NewBroker_def calm_def)



end
