(* ===== verification/Registry.thy ===== *)
theory Registry
  imports Maubase_Prelude "HOL-Library.AList"
begin

text \<open>
  Schema discovery for the data API: \<^verbatim>\<open>internal/restapi/registry.go\<close>.

  The database's schema is an argument: the table names of \<^verbatim>\<open>sqlite_master\<close>, what
  \<^verbatim>\<open>PRAGMA table_info\<close> reports for each, the rows of \<^verbatim>\<open>_policies\<close>, and which of the three
  queries fails. \<open>Discover\<close> turns it into the registry of exposed collections or into the error
  that stops the start. The tables of the embedded migrations are listed file by file, so that
  the hand-kept list of reserved tables can be compared with them.
\<close>

section \<open>Rules, columns, collections\<close>

type_synonym Rule = string

abbreviation RuleOwner :: Rule where "RuleOwner \<equiv> ''owner''"

abbreviation RuleShared :: Rule where "RuleShared \<equiv> ''shared''"

abbreviation RuleDenied :: Rule where "RuleDenied \<equiv> ''denied''"

abbreviation OwnerColumnName :: string where "OwnerColumnName \<equiv> ''owner_id''"

record Column =
  ColName :: string
  DeclType :: string
  NotNull :: bool
  IsPK :: bool

record Collection =
  CollName :: string
  Columns :: "Column list"
  PKColumn :: string
  PKIsInteger :: bool
  OwnerColumn :: string
  ReadRule :: Rule
  CreateRule :: Rule
  UpdateRule :: Rule
  DeleteRule :: Rule

type_synonym Registry = "(string \<times> Collection) list"

definition HasColumn :: "Collection \<Rightarrow> string \<Rightarrow> bool" where
  "HasColumn c name = (\<exists>col \<in> set (Columns c). ColName col = name)"

definition Get :: "Registry \<Rightarrow> string \<Rightarrow> Collection option" where
  "Get reg name = map_of reg name"

definition All :: "Registry \<Rightarrow> Collection list" where
  "All reg = sort_key CollName (map snd reg)"

definition ownedCollections :: "Registry \<Rightarrow> Collection list" where
  "ownedCollections reg = sort_key CollName (filter (\<lambda>c. OwnerColumn c \<noteq> []) (map snd reg))"


section \<open>Reserved tables\<close>

definition reservedTables :: "string list" where
  "reservedTables =
     [''users'', ''sessions'',
      ''oauth_clients'', ''oauth_client_jti'', ''oauth_authorize_codes'',
      ''oauth_access_tokens'', ''oauth_refresh_tokens'', ''oauth_pkce_requests'',
      ''oauth_consents'', ''oauth_signing_keys'', ''oauth_hmac_secret'',
      ''owner_users'', ''owner_sessions'', ''owner_audit_log'',
      ''schema_migrations'', ''files'', ''_policies'',
      ''password_reset_tokens'', ''social_identities'']"

definition isReserved :: "string \<Rightarrow> bool" where
  "isReserved name \<longleftrightarrow> HasPrefix name ''sqlite_'' \<or> name \<in> set reservedTables"

text \<open>The tables each embedded migration creates.\<close>

definition tables_0001_init :: "string list" where
  "tables_0001_init = [''users'', ''sessions'']"

definition tables_0002_oauth :: "string list" where
  "tables_0002_oauth =
     [''oauth_clients'', ''oauth_client_jti'', ''oauth_authorize_codes'', ''oauth_access_tokens'',
      ''oauth_refresh_tokens'', ''oauth_pkce_requests'', ''oauth_consents'', ''oauth_signing_keys'',
      ''oauth_hmac_secret'']"

definition tables_0003_owner :: "string list" where
  "tables_0003_owner = [''owner_users'', ''owner_sessions'']"

definition tables_0004_audit :: "string list" where
  "tables_0004_audit = [''owner_audit_log'']"

definition tables_0005_storage :: "string list" where
  "tables_0005_storage = [''files'']"

definition tables_0006_policies :: "string list" where
  "tables_0006_policies = [''_policies'']"

definition tables_0007_password_reset :: "string list" where
  "tables_0007_password_reset = [''password_reset_tokens'']"

definition tables_0008_social :: "string list" where
  "tables_0008_social = [''social_identities'']"

definition ensureMigrationsTable_creates :: "string list" where
  "ensureMigrationsTable_creates = [''schema_migrations'']"

definition embedded_tables :: "string list" where
  "embedded_tables = ensureMigrationsTable_creates @ tables_0001_init @ tables_0002_oauth @
     tables_0003_owner @ tables_0004_audit @ tables_0005_storage @ tables_0006_policies @
     tables_0007_password_reset @ tables_0008_social"


section \<open>Describing one table\<close>

datatype affinity = INTEGER | TEXT | BLOB | REAL | NUMERIC

definition columnAffinity :: "string \<Rightarrow> affinity" where
  "columnAffinity declType =
     (let t = ToUpper declType in
      if Contains t ''INT'' then INTEGER
      else if Contains t ''CHAR'' \<or> Contains t ''CLOB'' \<or> Contains t ''TEXT'' then TEXT
      else if Contains t ''BLOB'' \<or> t = [] then BLOB
      else if Contains t ''REAL'' \<or> Contains t ''FLOA'' \<or> Contains t ''DOUB'' then REAL
      else NUMERIC)"

text \<open>A row of \<^verbatim>\<open>PRAGMA table_info\<close>: name, declared type, not-null flag, position in the key.\<close>

type_synonym table_info = "(string \<times> string \<times> int \<times> int) list"

datatype reg_query = QTables | QInfo string | QPolicies

record schema =
  sqlite_master :: "string list"
  info_of :: "string \<Rightarrow> table_info"
  policies :: "(string \<times> string \<times> string) list"
  query_fails :: "reg_query \<Rightarrow> bool"

datatype reg_error =
    ListTables
  | DescribeTable string
  | OwnerAffinity string string affinity
  | ListPolicies
  | NoSuchCollection string string
  | OwnerRuleNoColumn string string
  | UnknownOperation string string

fun describe_rows :: "string \<Rightarrow> table_info \<Rightarrow> Collection \<Rightarrow> Column list
    \<Rightarrow> reg_error + (Collection \<times> Column list)" where
  "describe_rows name [] col pkCols = Inr (col, pkCols)"
| "describe_rows name ((colName, declType, notNull, pk) # rows) col pkCols =
     (let c = \<lparr>ColName = colName, DeclType = declType, NotNull = (notNull \<noteq> 0), IsPK = (pk \<noteq> 0)\<rparr>;
          col1 = col\<lparr>Columns := Columns col @ [c]\<rparr>;
          pk1 = (if IsPK c then pkCols @ [c] else pkCols)
      in if colName = OwnerColumnName then
           (if columnAffinity declType \<noteq> TEXT
            then Inl (OwnerAffinity name declType (columnAffinity declType))
            else describe_rows name rows (col1\<lparr>OwnerColumn := OwnerColumnName\<rparr>) pk1)
         else describe_rows name rows col1 pk1)"

definition blank_collection :: "string \<Rightarrow> Collection" where
  "blank_collection name =
     \<lparr>CollName = name, Columns = [], PKColumn = [], PKIsInteger = False, OwnerColumn = [],
      ReadRule = [], CreateRule = [], UpdateRule = [], DeleteRule = []\<rparr>"

definition describeTable :: "schema \<Rightarrow> string \<Rightarrow> reg_error + Collection" where
  "describeTable s name =
     (if query_fails s (QInfo name) then Inl (DescribeTable name)
      else (case describe_rows name (info_of s name) (blank_collection name) [] of
              Inl e \<Rightarrow> Inl e
            | Inr (col, pkCols) \<Rightarrow>
                (case pkCols of
                   [p] \<Rightarrow> Inr (col\<lparr>PKColumn := ColName p,
                                 PKIsInteger := Contains (ToUpper (DeclType p)) ''INT''\<rparr>)
                 | _ \<Rightarrow> Inr col)))"


section \<open>Discovery and policies\<close>

definition default_rules :: "Collection \<Rightarrow> Collection" where
  "default_rules col =
     (let def = (if OwnerColumn col \<noteq> [] then RuleOwner else RuleShared)
      in col\<lparr>ReadRule := def, CreateRule := def, UpdateRule := def, DeleteRule := def\<rparr>)"

fun discover_tables :: "schema \<Rightarrow> string list \<Rightarrow> Registry \<Rightarrow> reg_error + Registry" where
  "discover_tables s [] reg = Inr reg"
| "discover_tables s (name # names) reg =
     (if isReserved name then discover_tables s names reg
      else (case describeTable s name of
              Inl e \<Rightarrow> Inl e
            | Inr col \<Rightarrow>
                if PKColumn col = [] then discover_tables s names reg
                else discover_tables s names (AList.update name (default_rules col) reg)))"

definition set_rule :: "string \<Rightarrow> Rule \<Rightarrow> Collection \<Rightarrow> Collection option" where
  "set_rule operation r col =
     (if operation = ''read'' then Some (col\<lparr>ReadRule := r\<rparr>)
      else if operation = ''create'' then Some (col\<lparr>CreateRule := r\<rparr>)
      else if operation = ''update'' then Some (col\<lparr>UpdateRule := r\<rparr>)
      else if operation = ''delete'' then Some (col\<lparr>DeleteRule := r\<rparr>)
      else None)"

fun apply_policy_rows :: "(string \<times> string \<times> string) list \<Rightarrow> Registry \<Rightarrow> reg_error + Registry" where
  "apply_policy_rows [] reg = Inr reg"
| "apply_policy_rows ((collection, operation, rule) # rows) reg =
     (case Get reg collection of
        None \<Rightarrow> Inl (NoSuchCollection collection operation)
      | Some col \<Rightarrow>
          if rule = RuleOwner \<and> OwnerColumn col = [] then Inl (OwnerRuleNoColumn collection operation)
          else (case set_rule operation rule col of
                  None \<Rightarrow> Inl (UnknownOperation collection operation)
                | Some col' \<Rightarrow> apply_policy_rows rows (AList.update collection col' reg)))"

definition applyPolicies :: "schema \<Rightarrow> Registry \<Rightarrow> reg_error + Registry" where
  "applyPolicies s reg =
     (if query_fails s QPolicies then Inl ListPolicies else apply_policy_rows (policies s) reg)"

definition Discover :: "schema \<Rightarrow> reg_error + Registry" where
  "Discover s =
     (if query_fails s QTables then Inl ListTables
      else (case discover_tables s (sqlite_master s) [] of
              Inl e \<Rightarrow> Inl e
            | Inr reg \<Rightarrow> applyPolicies s reg))"


section \<open>Quoting identifiers\<close>

definition quoteIdent :: "string \<Rightarrow> string" where
  "quoteIdent name = [CHR 0x22] @ ReplaceAll name (CHR 0x22) [CHR 0x22, CHR 0x22] @ [CHR 0x22]"

text \<open>
  How a SQL tokenizer reads a quoted identifier: after the opening quote, a doubled quote
  stands for one quote and a single quote ends the token; what follows is the rest of the
  statement. \<^term>\<open>None\<close> is an unterminated token.
\<close>

fun lex_quoted_body :: "string \<Rightarrow> (string \<times> string) option" where
  "lex_quoted_body [] = None"
| "lex_quoted_body (c # s) =
     (if c \<noteq> CHR 0x22 then map_option (\<lambda>(n, r). (c # n, r)) (lex_quoted_body s)
      else (case s of
              [] \<Rightarrow> Some ([], [])
            | d # t \<Rightarrow> if d = CHR 0x22 then map_option (\<lambda>(n, r). (CHR 0x22 # n, r)) (lex_quoted_body t)
                      else Some ([], d # t)))"

definition lex_quoted :: "string \<Rightarrow> (string \<times> string) option" where
  "lex_quoted s = (case s of [] \<Rightarrow> None | c # t \<Rightarrow> if c = CHR 0x22 then lex_quoted_body t else None)"

lemma lex_quoted_body_ReplaceAll:
  assumes "rest = [] \<or> hd rest \<noteq> CHR 0x22"
  shows "lex_quoted_body (ReplaceAll name (CHR 0x22) [CHR 0x22, CHR 0x22] @ CHR 0x22 # rest) = Some (name, rest)"
proof (induction name)
  case Nil
  then show ?case using assms by (cases rest) (auto simp: ReplaceAll_def)
next
  case (Cons c name)
  then show ?case by (auto simp: ReplaceAll_def)
qed



section \<open>What a described table looks like\<close>

definition mk_column :: "string \<times> string \<times> int \<times> int \<Rightarrow> Column" where
  "mk_column row = (case row of (n, d, nn, pk) \<Rightarrow>
     \<lparr>ColName = n, DeclType = d, NotNull = (nn \<noteq> 0), IsPK = (pk \<noteq> 0)\<rparr>)"

definition table_columns :: "schema \<Rightarrow> string \<Rightarrow> Column list" where
  "table_columns s name = map mk_column (info_of s name)"

definition single_pk :: "schema \<Rightarrow> string \<Rightarrow> bool" where
  "single_pk s name \<longleftrightarrow> (\<exists>p. filter IsPK (table_columns s name) = [p] \<and> ColName p \<noteq> [])"

definition owner_text :: "Column list \<Rightarrow> bool" where
  "owner_text cols \<longleftrightarrow> (\<forall>c \<in> set cols. ColName c = OwnerColumnName \<longrightarrow> columnAffinity (DeclType c) = TEXT)"

definition owner_column_of :: "Column list \<Rightarrow> string" where
  "owner_column_of cols = (if \<exists>c \<in> set cols. ColName c = OwnerColumnName then OwnerColumnName else [])"

definition described :: "schema \<Rightarrow> string \<Rightarrow> Collection \<Rightarrow> bool" where
  "described s name col \<longleftrightarrow>
     CollName col = name \<and> Columns col = table_columns s name \<and> owner_text (Columns col) \<and>
     OwnerColumn col = owner_column_of (Columns col) \<and>
     (PKColumn col \<noteq> [] \<longleftrightarrow> single_pk s name) \<and>
     (PKColumn col \<noteq> [] \<longrightarrow> (\<exists>p. filter IsPK (Columns col) = [p] \<and> ColName p = PKColumn col \<and>
        PKIsInteger col = Contains (ToUpper (DeclType p)) ''INT''))"

lemma describe_rows_Inr:
  assumes "describe_rows name rows col pk = Inr (col', pk')"
  shows "Columns col' = Columns col @ map mk_column rows \<and>
     pk' = pk @ filter IsPK (map mk_column rows) \<and>
     owner_text (map mk_column rows) \<and>
     OwnerColumn col' = (if owner_column_of (map mk_column rows) = [] then OwnerColumn col else OwnerColumnName) \<and>
     CollName col' = CollName col \<and> PKColumn col' = PKColumn col"
  using assms
proof (induction name rows col pk rule: describe_rows.induct)
  case (1 name col pk)
  then show ?case by (simp add: owner_text_def owner_column_of_def)
next
  case (2 name n d nn pk0 rows col pk)
  then show ?case
    by (auto simp: Let_def mk_column_def owner_text_def owner_column_of_def split: if_splits)
qed

lemma describeTable_described:
  assumes "describeTable s name = Inr col"
  shows "described s name col"
proof -
  obtain c0 pks where d: "describe_rows name (info_of s name) (blank_collection name) [] = Inr (c0, pks)"
    using assms by (auto simp: describeTable_def split: if_splits sum.splits)
  from describe_rows_Inr [OF d] have c0: "Columns c0 = table_columns s name" "owner_text (table_columns s name)"
    "OwnerColumn c0 = owner_column_of (table_columns s name)" "CollName c0 = name" "PKColumn c0 = []"
    and pks: "pks = filter IsPK (table_columns s name)"
    by (auto simp: table_columns_def blank_collection_def owner_column_of_def)
  show ?thesis
  proof (cases "\<exists>p. pks = [p]")
    case True
    then obtain p where p: "filter IsPK (table_columns s name) = [p]" using pks by metis
    then have "col = c0\<lparr>PKColumn := ColName p, PKIsInteger := Contains (ToUpper (DeclType p)) ''INT''\<rparr>"
      using assms d pks by (simp add: describeTable_def split: if_splits)
    with c0 p show ?thesis by (simp add: described_def single_pk_def)
  next
    case False
    then have "col = c0"
      using assms d by (auto simp: describeTable_def split: if_splits list.splits)
    with c0 False pks show ?thesis by (auto simp: described_def single_pk_def)
  qed
qed


section \<open>The registry's invariant\<close>

text \<open>
  Every exposed collection is a described, unreserved table with a one-column key, and a rule
  restricts to the owner only where there is an owner column to compare with.
\<close>

definition rules_ok :: "Collection \<Rightarrow> bool" where
  "rules_ok c \<longleftrightarrow> OwnerColumn c = [] \<longrightarrow>
     RuleOwner \<notin> {ReadRule c, CreateRule c, UpdateRule c, DeleteRule c}"

definition registry_ok :: "schema \<Rightarrow> Registry \<Rightarrow> bool" where
  "registry_ok s reg \<longleftrightarrow> distinct (map fst reg) \<and>
     (\<forall>(n, c) \<in> set reg. described s n c \<and> PKColumn c \<noteq> [] \<and> rules_ok c \<and>
        \<not> isReserved n \<and> n \<in> set (sqlite_master s))"

lemma registry_okD:
  assumes "registry_ok s reg" and "Get reg n = Some c"
  shows "described s n c" "PKColumn c \<noteq> []" "rules_ok c" "\<not> isReserved n" "n \<in> set (sqlite_master s)"
  using assms by (auto simp: registry_ok_def Get_def dest!: map_of_SomeD)

lemma Get_update: "Get (AList.update k v reg) n = (if n = k then Some v else Get reg n)"
  by (simp add: Get_def update_conv')

lemma registry_ok_update:
  assumes "registry_ok s reg" and "described s n c" "PKColumn c \<noteq> []" "rules_ok c" "\<not> isReserved n"
    "n \<in> set (sqlite_master s)"
  shows "registry_ok s (AList.update n c reg)"
proof -
  have d: "distinct (map fst (AList.update n c reg))"
    using assms(1) by (simp add: registry_ok_def distinct_update)
  moreover have "described s m x \<and> PKColumn x \<noteq> [] \<and> rules_ok x \<and> \<not> isReserved m \<and> m \<in> set (sqlite_master s)"
    if "(m, x) \<in> set (AList.update n c reg)" for m x
  proof -
    from that d have "Get (AList.update n c reg) m = Some x" by (simp add: Get_def)
    then show ?thesis
      using assms registry_okD [OF assms(1), of m x] by (auto simp: Get_update split: if_splits)
  qed
  ultimately show ?thesis by (auto simp: registry_ok_def)
qed

lemma rules_ok_default: "rules_ok (default_rules col)"
  by (simp add: rules_ok_def default_rules_def Let_def)

lemma default_rules_simps [simp]:
  "CollName (default_rules c) = CollName c" "Columns (default_rules c) = Columns c"
  "PKColumn (default_rules c) = PKColumn c" "PKIsInteger (default_rules c) = PKIsInteger c"
  "OwnerColumn (default_rules c) = OwnerColumn c"
  by (simp_all add: default_rules_def Let_def)

lemma described_default [simp]: "described s n (default_rules c) = described s n c"
  by (simp add: described_def)

lemma discover_tables_ok [keeps]:
  assumes "discover_tables s names reg = Inr reg'" and "registry_ok s reg"
    and "set names \<subseteq> set (sqlite_master s)"
  shows "registry_ok s reg'"
  using assms
proof (induction s names reg rule: discover_tables.induct)
  case (2 s name names reg)
  show ?case
  proof (cases "isReserved name")
    case True
    with 2 show ?thesis by simp
  next
    case False
    with 2 obtain col where col: "describeTable s name = Inr col" by (auto split: sum.splits)
    from describeTable_described [OF col] have "described s name (default_rules col)" by simp
    with registry_ok_update [of s reg name "default_rules col"] False rules_ok_default 2 col
    show ?thesis by (auto split: if_splits)
  qed
qed simp

lemma set_rule_frame:
  "set_rule op r col = Some col' \<Longrightarrow>
     CollName col' = CollName col \<and> Columns col' = Columns col \<and> PKColumn col' = PKColumn col \<and>
     PKIsInteger col' = PKIsInteger col \<and> OwnerColumn col' = OwnerColumn col"
  by (auto simp: set_rule_def split: if_splits)

lemma set_rule_rules_ok:
  "set_rule op r col = Some col' \<Longrightarrow> rules_ok col \<Longrightarrow> \<not> (r = RuleOwner \<and> OwnerColumn col = []) \<Longrightarrow> rules_ok col'"
  by (auto simp: set_rule_def rules_ok_def split: if_splits)

lemma apply_policy_rows_ok [keeps]:
  assumes "apply_policy_rows rows reg = Inr reg'" and "registry_ok s reg"
  shows "registry_ok s reg'"
  using assms
proof (induction rows reg rule: apply_policy_rows.induct)
  case (2 n op r rows reg)
  then obtain col col' where col: "Get reg n = Some col" "\<not> (r = RuleOwner \<and> OwnerColumn col = [])"
    "set_rule op r col = Some col'" and rest: "apply_policy_rows rows (AList.update n col' reg) = Inr reg'"
    by (auto split: option.splits if_splits)
  note c = registry_okD [OF 2(3) col(1)]
  have "described s n col'" "PKColumn col' \<noteq> []"
    using c(1,2) set_rule_frame [OF col(3)] by (auto simp: described_def)
  with c set_rule_rules_ok [OF col(3) c(3) col(2)] have "registry_ok s (AList.update n col' reg)"
    by (intro registry_ok_update [OF 2(3)])
  with 2(1) col rest show ?case by blast
qed simp

lemma Discover_ok: "Discover s = Inr reg \<Longrightarrow> registry_ok s reg"
proof -
  assume "Discover s = Inr reg"
  then obtain reg0 where "discover_tables s (sqlite_master s) [] = Inr reg0"
    "apply_policy_rows (policies s) reg0 = Inr reg"
    by (auto simp: Discover_def applyPolicies_def split: if_splits sum.splits)
  moreover have "registry_ok s []" by (simp add: registry_ok_def)
  ultimately show "registry_ok s reg"
    using apply_policy_rows_ok discover_tables_ok by blast
qed


section \<open>Which tables are exposed, and under which rules\<close>

lemma discover_tables_Get:
  assumes "discover_tables s names reg = Inr reg'"
  shows "Get reg' n \<noteq> None \<longleftrightarrow>
     Get reg n \<noteq> None \<or> (n \<in> set names \<and> \<not> isReserved n \<and> single_pk s n)"
  using assms
proof (induction s names reg rule: discover_tables.induct)
  case (2 s name names reg)
  show ?case
  proof (cases "isReserved name")
    case True
    with 2 show ?thesis by auto
  next
    case False
    with 2 obtain col where col: "describeTable s name = Inr col" by (auto split: sum.splits)
    with describeTable_described have pk: "PKColumn col \<noteq> [] \<longleftrightarrow> single_pk s name"
      by (simp add: described_def)
    show ?thesis
    proof (cases "PKColumn col = []")
      case True
      with False 2 col pk show ?thesis by auto
    next
      case nonempty: False
      with False 2 col have "Get reg' n \<noteq> None \<longleftrightarrow>
          Get (AList.update name (default_rules col) reg) n \<noteq> None \<or> (n \<in> set names \<and> \<not> isReserved n \<and> single_pk s n)"
        by simp
      with nonempty pk False show ?thesis by (auto simp: Get_update)
    qed
  qed
qed simp

lemma apply_policy_rows_Get:
  assumes "apply_policy_rows rows reg = Inr reg'"
  shows "Get reg' n \<noteq> None \<longleftrightarrow> Get reg n \<noteq> None"
  using assms
proof (induction rows reg rule: apply_policy_rows.induct)
  case (2 m op1 r rows reg)
  then obtain col col' where col: "Get reg m = Some col" "\<not> (r = RuleOwner \<and> OwnerColumn col = [])"
    "set_rule op1 r col = Some col'" "apply_policy_rows rows (AList.update m col' reg) = Inr reg'"
    by (auto split: option.splits if_splits)
  from 2(1) [OF col] col(1) show ?case by (simp add: Get_update)
qed simp

definition rule_for :: "string \<Rightarrow> Collection \<Rightarrow> Rule" where
  "rule_for op c =
     (if op = ''read'' then ReadRule c else if op = ''create'' then CreateRule c
      else if op = ''update'' then UpdateRule c else DeleteRule c)"

abbreviation operations :: "string set" where
  "operations \<equiv> {''read'', ''create'', ''update'', ''delete''}"

text \<open>The rule the policy table declares for an operation: its last matching row, else the default.\<close>

definition declared_rule :: "(string \<times> string \<times> string) list \<Rightarrow> string \<Rightarrow> string \<Rightarrow> Rule \<Rightarrow> Rule" where
  "declared_rule rows n op def =
     fold (\<lambda>(c, o', r) acc. if c = n \<and> o' = op then r else acc) rows def"

lemma rule_for_set_rule:
  assumes "set_rule op r col = Some col'" and "op' \<in> operations"
  shows "rule_for op' col' = (if op' = op then r else rule_for op' col)"
proof -
  have "(op = ''read'' \<and> col' = col\<lparr>ReadRule := r\<rparr>) \<or> (op = ''create'' \<and> col' = col\<lparr>CreateRule := r\<rparr>)
    \<or> (op = ''update'' \<and> col' = col\<lparr>UpdateRule := r\<rparr>) \<or> (op = ''delete'' \<and> col' = col\<lparr>DeleteRule := r\<rparr>)"
    using assms(1) unfolding set_rule_def by (metis option.distinct(1) option.inject)
  moreover have "op' = ''read'' \<or> op' = ''create'' \<or> op' = ''update'' \<or> op' = ''delete''"
    using assms(2) by blast
  ultimately show ?thesis
    by (elim disjE conjE) (simp_all add: rule_for_def)
qed

lemma apply_policy_rows_rule:
  assumes "apply_policy_rows rows reg = Inr reg'" and "Get reg n = Some c" and "op \<in> operations"
  shows "\<exists>c'. Get reg' n = Some c' \<and> OwnerColumn c' = OwnerColumn c \<and>
     rule_for op c' = declared_rule rows n op (rule_for op c)"
  using assms
proof (induction rows reg arbitrary: c rule: apply_policy_rows.induct)
  case (1 reg)
  then show ?case by (simp add: declared_rule_def)
next
  case (2 m op1 r rows reg)
  then obtain col col' where col: "Get reg m = Some col" "\<not> (r = RuleOwner \<and> OwnerColumn col = [])"
    "set_rule op1 r col = Some col'" and rest: "apply_policy_rows rows (AList.update m col' reg) = Inr reg'"
    by (auto split: option.splits if_splits)
  note IH = 2(1) [OF col(1) col(2) col(3) rest]
  show ?case
  proof (cases "n = m")
    case True
    with IH [of col'] rule_for_set_rule [OF col(3) 2(4)] set_rule_frame [OF col(3)] col(1) 2(3,4)
    show ?thesis by (auto simp: Get_update declared_rule_def)
  next
    case False
    with IH [of c] 2(3,4) show ?thesis by (auto simp: Get_update declared_rule_def)
  qed
qed

definition default_rule :: "Collection \<Rightarrow> Rule" where
  "default_rule c = (if OwnerColumn c \<noteq> [] then RuleOwner else RuleShared)"

lemma rule_for_default_rules [simp]: "rule_for op (default_rules c) = default_rule c"
  by (simp add: rule_for_def default_rules_def default_rule_def Let_def)

lemma discover_tables_default:
  assumes "discover_tables s names reg = Inr reg'"
    and "\<And>m c. Get reg m = Some c \<Longrightarrow> rule_for op c = default_rule c"
    and "Get reg' n = Some c"
  shows "rule_for op c = default_rule c"
  using assms
proof (induction s names reg rule: discover_tables.induct)
  case (2 s name names reg)
  have upd: "rule_for op x = default_rule x"
    if "Get (AList.update name (default_rules col) reg) m = Some x" for m x col
    using that 2(5) by (auto simp: Get_update default_rule_def split: if_splits)
  show ?case
  proof (cases "isReserved name")
    case True
    with 2 show ?thesis by simp
  next
    case False
    with 2(4) obtain col where col: "describeTable s name = Inr col" by (auto split: sum.splits)
    show ?thesis
    proof (cases "PKColumn col = []")
      case True
      with 2(2) [OF False col True] 2(4-6) False col show ?thesis by simp
    next
      case nonempty: False
      with 2(3) [OF False col nonempty] 2(4,6) False col upd show ?thesis by simp
    qed
  qed
qed simp

lemma embedded_reserved: "list_all (\<lambda>t. t \<in> set reservedTables) embedded_tables"
  by code_simp

lemma All_sorted: "sorted (map CollName (All reg))" and All_set: "set (All reg) = snd ` set reg"
  by (simp_all add: All_def)


lemma Discover_Get_iff:
  assumes "Discover s = Inr reg"
  shows "Get reg n \<noteq> None \<longleftrightarrow> n \<in> set (sqlite_master s) \<and> \<not> isReserved n \<and> single_pk s n"
proof -
  obtain reg0 where "discover_tables s (sqlite_master s) [] = Inr reg0"
    "apply_policy_rows (policies s) reg0 = Inr reg"
    using assms by (auto simp: Discover_def applyPolicies_def split: if_splits sum.splits)
  then show ?thesis
    using discover_tables_Get [of s "sqlite_master s" "[]" reg0 n] apply_policy_rows_Get [of "policies s" reg0 reg n]
    by (simp add: Get_def)
qed


section \<open>Properties\<close>

text \<open>
  C11. Every table the embedded migrations create, and the migration table itself, is
  reserved, and no reserved table is ever exposed: whatever the schema holds, a successful
  discovery has no collection of that name.
\<close>

theorem internal_tables_never_exposed:
  assumes "Discover s = Inr reg" and "t \<in> set embedded_tables"
  shows "Get reg t = None"
proof -
  have "isReserved t" using assms(2) embedded_reserved by (auto simp: isReserved_def list_all_iff)
  with registry_okD(4) [OF Discover_ok [OF assms(1)]] show ?thesis by (cases "Get reg t") auto
qed

abbreviation notes_schema :: schema where
  "notes_schema \<equiv>
     \<lparr>sqlite_master = [''users'', ''notes'', ''tags''],
      info_of = (\<lambda>t. if t = ''notes'' then [(''id'', ''TEXT'', 0, 1), (''owner_id'', ''TEXT'', 1, 0), (''body'', ''TEXT'', 0, 0)]
                    else if t = ''tags'' then [(''id'', ''INTEGER'', 0, 1), (''label'', ''TEXT'', 0, 0)] else []),
      policies = [(''notes'', ''read'', ''shared'')], query_fails = (\<lambda>_. False)\<rparr>"

lemma Discover_notes: "\<exists>reg. Discover notes_schema = Inr reg \<and> (\<exists>c. Get reg ''notes'' = Some c)"
  by (simp add: Discover_def isReserved_def reservedTables_def describeTable_def columnAffinity_def
      blank_collection_def ToUpper_def upper_char_def is_lower_def less_eq_char_nat Contains_def
      applyPolicies_def Let_def default_rules_def Get_update)
    (simp add: Get_def set_rule_def)

theorem internal_tables_never_exposed_witness:
  "\<exists>reg. Discover notes_schema = Inr reg \<and> Get reg ''users'' = None"
proof -
  obtain reg where reg: "Discover notes_schema = Inr reg" using Discover_notes by blast
  have "''users'' \<in> set embedded_tables" by (simp add: embedded_tables_def tables_0001_init_def)
  from internal_tables_never_exposed [OF reg this] reg show ?thesis by blast
qed

text \<open>
  Discovery is complete and exact: after it succeeds, a name is exposed just when it is
  a table that is not reserved and whose key is exactly one (named) column.
\<close>

theorem exposed_exactly:
  assumes "Discover s = Inr reg"
  shows "Get reg n \<noteq> None \<longleftrightarrow> n \<in> set (sqlite_master s) \<and> \<not> isReserved n \<and> single_pk s n"
  by (rule Discover_Get_iff [OF assms])

theorem exposed_exactly_witness:
  "\<exists>reg. Discover notes_schema = Inr reg \<and>
     (Get reg ''notes'' \<noteq> None \<longleftrightarrow> ''notes'' \<in> set (sqlite_master notes_schema) \<and>
        \<not> isReserved ''notes'' \<and> single_pk notes_schema ''notes'')"
  using Discover_notes exposed_exactly [of notes_schema _ "''notes''"] by blast

text \<open>
  Every exposed collection has the rule its policy rows declare for each of the four
  operations, and the default of its kind (owner with an owner column, shared without one)
  where none is declared; a rule that restricts to the owner is only ever in force on a
  collection whose owner column exists and has text affinity.
\<close>

theorem effective_rules:
  assumes "Discover s = Inr reg" and "Get reg n = Some c" and "op \<in> operations"
  shows "rule_for op c = declared_rule (policies s) n op (default_rule c) \<and>
    (rule_for op c = RuleOwner \<longrightarrow> OwnerColumn c = OwnerColumnName \<and> HasColumn c OwnerColumnName \<and> owner_text (Columns c))"
proof -
  obtain reg0 where r0: "discover_tables s (sqlite_master s) [] = Inr reg0"
    "apply_policy_rows (policies s) reg0 = Inr reg"
    using assms(1) by (auto simp: Discover_def applyPolicies_def split: if_splits sum.splits)
  obtain c0 where c0: "Get reg0 n = Some c0"
    using apply_policy_rows_Get [OF r0(2), of n] assms(2) by auto
  have "rule_for op c0 = default_rule c0"
    by (rule discover_tables_default [OF r0(1) _ c0]) (simp add: Get_def)
  with apply_policy_rows_rule [OF r0(2) c0 assms(3)] assms(2)
  have 1: "rule_for op c = declared_rule (policies s) n op (default_rule c)"
    by (auto simp: default_rule_def)
  note ok = registry_okD [OF Discover_ok [OF assms(1)] assms(2)]
  have "OwnerColumn c = OwnerColumnName \<and> HasColumn c OwnerColumnName \<and> owner_text (Columns c)"
    if "rule_for op c = RuleOwner"
    using that ok(1,3) assms(3)
    by (auto simp: rules_ok_def rule_for_def described_def owner_column_of_def HasColumn_def split: if_splits)
  with 1 show ?thesis by blast
qed

theorem effective_rules_witness:
  "\<exists>reg c. Discover notes_schema = Inr reg \<and> Get reg ''notes'' = Some c \<and>
     rule_for ''read'' c = RuleShared"
proof -
  obtain reg c where reg: "Discover notes_schema = Inr reg" "Get reg ''notes'' = Some c"
    using Discover_notes by blast
  have "rule_for ''read'' c = declared_rule (policies notes_schema) ''notes'' ''read'' (default_rule c)"
    using effective_rules [OF reg, of "''read''"] by simp
  with reg show ?thesis by (auto simp: declared_rule_def)
qed

text \<open>
  A quoted identifier cannot break out of its quotes: read back by a SQL tokenizer it is
  one token that is exactly the name, and the rest of the statement follows untouched.
\<close>

theorem quoteIdent_roundtrip:
  assumes "rest = [] \<or> hd rest \<noteq> CHR 0x22"
  shows "lex_quoted (quoteIdent name @ rest) = Some (name, rest)"
  using lex_quoted_body_ReplaceAll [OF assms] by (simp add: lex_quoted_def quoteIdent_def)

theorem quoteIdent_roundtrip_witness:
  "lex_quoted (quoteIdent [CHR ''a'', CHR 0x22, CHR '';''] @ '' WHERE'') =
     Some ([CHR ''a'', CHR 0x22, CHR '';''], '' WHERE'')"
  by (rule quoteIdent_roundtrip) simp

end
