(* ===== verification/Data_API.thy ===== *)
theory Data_API
  imports Registry Realtime_Broker
begin

text \<open>
  The data API: \<^verbatim>\<open>internal/restapi/handlers.go\<close> and the row scan of \<^verbatim>\<open>json.go\<close>.

  A table is the list of its rows in the order the database scans them; a row is the list of
  its cells. The SQLite engine is a parameter, the record \<open>engine\<close>: how \<^verbatim>\<open>column = ?\<close> compares,
  what value a column stores for a bound one, which constraint a new table contents violates
  (the driver's message), the id \<^verbatim>\<open>LastInsertId\<close> reports and which statement fails. What the
  code relies on of it is the predicate \<open>engine_ok\<close>. Statements are passed as their parts
  (table, assigned cells, conditions), which is what the quoted identifiers and the
  placeholders of the SQL text denote. A handler takes the state of the database and the
  broker and returns the new state and the response.

  A decoded body is the list of the entries of Go's map in the order the map is ranged over;
  the decoder is a parameter, so nothing rests on that order.
\<close>

section \<open>The database\<close>

type_synonym row = cells

definition cell :: "row \<Rightarrow> string \<Rightarrow> val" where
  "cell r k = (case map_of r k of None \<Rightarrow> VNull | Some v \<Rightarrow> v)"

datatype stmt =
    SelectList string | SelectPK string | Insert string | LastInsertId string
  | Update string | Delete string | SelectOwner string | SelectKeys string
  | SelectOwned string | DeleteOwnedRows string | SelectCount string | SelectOrdered string

record engine =
  eng_eq :: "Collection \<Rightarrow> string \<Rightarrow> val \<Rightarrow> val \<Rightarrow> bool"
  eng_cell :: "Collection \<Rightarrow> row list \<Rightarrow> string \<Rightarrow> val option \<Rightarrow> val"
  eng_store :: "Collection \<Rightarrow> string \<Rightarrow> val \<Rightarrow> val"
  eng_check :: "Collection \<Rightarrow> row list \<Rightarrow> string option"
  eng_rowid :: "Collection \<Rightarrow> row list \<Rightarrow> row \<Rightarrow> int"
  eng_fail :: "stmt \<Rightarrow> bool"
  eng_ftoa :: "float64 \<Rightarrow> string"

type_synonym conds = "(string \<times> val) list"

definition matches :: "engine \<Rightarrow> Collection \<Rightarrow> conds \<Rightarrow> row \<Rightarrow> bool" where
  "matches E col cs r = list_all (\<lambda>(k, v). eng_eq E col k (cell r k) v) cs"

definition new_row :: "engine \<Rightarrow> Collection \<Rightarrow> row list \<Rightarrow> cells \<Rightarrow> row" where
  "new_row E col rows bound =
     map (\<lambda>c. (ColName c, eng_cell E col rows (ColName c) (map_of bound (ColName c)))) (Columns col)"

definition assign :: "engine \<Rightarrow> Collection \<Rightarrow> cells \<Rightarrow> row \<Rightarrow> row" where
  "assign E col sets r =
     map (\<lambda>(k, v). (k, case map_of sets k of None \<Rightarrow> v | Some w \<Rightarrow> eng_store E col k w)) r"

text \<open>A statement with an empty column list is a syntax error; a failing one reports some other fault.\<close>

definition sql_insert :: "engine \<Rightarrow> Collection \<Rightarrow> row list \<Rightarrow> cells \<Rightarrow> string + (row list \<times> int)" where
  "sql_insert E col rows bound =
     (if eng_fail E (Insert (CollName col)) then Inl ''database is locked''
      else if bound = [] then Inl ''SQL logic error: syntax error''
      else (let r = new_row E col rows bound
            in case eng_check E col (rows @ [r]) of
                 Some msg \<Rightarrow> Inl msg
               | None \<Rightarrow> Inr (rows @ [r], eng_rowid E col rows r)))"

definition sql_update :: "engine \<Rightarrow> Collection \<Rightarrow> row list \<Rightarrow> cells \<Rightarrow> conds \<Rightarrow> string + (row list \<times> nat)" where
  "sql_update E col rows sets cs =
     (if eng_fail E (Update (CollName col)) then Inl ''database is locked''
      else (let rows' = map (\<lambda>r. if matches E col cs r then assign E col sets r else r) rows
            in case eng_check E col rows' of
                 Some msg \<Rightarrow> Inl msg
               | None \<Rightarrow> Inr (rows', length (filter (matches E col cs) rows))))"

definition sql_delete :: "engine \<Rightarrow> Collection \<Rightarrow> row list \<Rightarrow> conds \<Rightarrow> row list \<times> nat" where
  "sql_delete E col rows cs =
     (filter (\<lambda>r. \<not> matches E col cs r) rows, length (filter (matches E col cs) rows))"

definition scanRows :: "row list \<Rightarrow> row list" where
  "scanRows rows = map (map (\<lambda>(k, v). (k, normalizeValue v))) rows"


section \<open>Server, requests, responses\<close>

record server =
  registry :: Registry
  maxBodyBytes :: nat
  devMode :: bool

record api =
  tables :: "string \<Rightarrow> row list"
  bus :: "broker option"

record request =
  subject :: string
  coll_param :: string
  id_param :: string
  limit_param :: string
  offset_param :: string
  req_body :: string

datatype message =
    Msg string | UnknownField string | NotScalar string | MissingField string
  | BadLimit string | LimitExceeds int | BadOffset string

datatype payload =
    NoBody | PlainText string | ErrorBody message | Rec row | Recs "row list" int int
  | SchemaOf "Collection list"

text \<open>A response, or the abandoned connection of a handler that panicked.\<close>

datatype response = Reply (status: nat) (payload: payload) | Aborted

abbreviation internal_error :: response where
  "internal_error \<equiv> Reply 500 (PlainText ''internal error'')"

abbreviation not_found :: response where
  "not_found \<equiv> Reply 404 (ErrorBody (Msg ''not found''))"

definition set_rows :: "string \<Rightarrow> row list \<Rightarrow> api \<Rightarrow> api" where
  "set_rows n rows st = st\<lparr>tables := (tables st)(n := rows)\<rparr>"


section \<open>Helpers of the handlers\<close>

definition get_collection :: "server \<Rightarrow> request \<Rightarrow> response + Collection" where
  "get_collection s r =
     (case Get (registry s) (coll_param r) of
        None \<Rightarrow> Inl (Reply 404 (ErrorBody (Msg ''no such collection'')))
      | Some col \<Rightarrow> Inr col)"

definition authorizeOp :: "Rule \<Rightarrow> response option" where
  "authorizeOp rule =
     (if rule = RuleDenied
      then Some (Reply 403 (ErrorBody (Msg ''this operation is disabled for this collection'')))
      else None)"

abbreviation defaultLimit :: int where "defaultLimit \<equiv> 50"

abbreviation maxLimit :: int where "maxLimit \<equiv> 200"

definition parsePagination :: "request \<Rightarrow> message + (int \<times> int)" where
  "parsePagination r =
     (let lim = (if limit_param r = [] then Inr defaultLimit
                 else case Atoi (limit_param r) of
                        None \<Rightarrow> Inl (BadLimit (limit_param r))
                      | Some n \<Rightarrow> if n \<le> 0 then Inl (BadLimit (limit_param r))
                                  else if n > maxLimit then Inl (LimitExceeds n) else Inr n)
      in case lim of
           Inl e \<Rightarrow> Inl e
         | Inr limit \<Rightarrow>
             if offset_param r = [] then Inr (limit, 0)
             else case Atoi (offset_param r) of
                    None \<Rightarrow> Inl (BadOffset (offset_param r))
                  | Some n \<Rightarrow> if n < 0 then Inl (BadOffset (offset_param r)) else Inr (limit, n))"

text \<open>
  What the streaming JSON decoder finds in the bytes it is given: bytes that begin no value, a
  value that is not finished, one that ends only because the input does, or a finished one.
\<close>

datatype decoded = DInvalid | DIncomplete | DAtEOF json | DDone json

definition body_of_json :: "json \<Rightarrow> (string \<times> json) list option" where
  "body_of_json j =
     (case j of JObj kvs \<Rightarrow> Some (fold (\<lambda>(k, v) m. AList.update k v m) kvs [])
      | JNull \<Rightarrow> Some [] | _ \<Rightarrow> None)"

fun check_fields :: "Collection \<Rightarrow> (string \<times> json) list \<Rightarrow> response + cells" where
  "check_fields col [] = Inr []"
| "check_fields col ((k, v) # kvs) =
     (if \<not> HasColumn col k then Inl (Reply 400 (ErrorBody (UnknownField k)))
      else (case scalar v of
              None \<Rightarrow> Inl (Reply 400 (ErrorBody (NotScalar k)))
            | Some w \<Rightarrow> (case check_fields col kvs of Inl e \<Rightarrow> Inl e | Inr cs \<Rightarrow> Inr ((k, w) # cs))))"

definition decodeBody :: "(string \<Rightarrow> decoded) \<Rightarrow> server \<Rightarrow> request \<Rightarrow> Collection \<Rightarrow> response + cells" where
  "decodeBody first_value s r col =
     (let body = req_body r;
          big = length body > maxBodyBytes s;
          tooLarge = Inl (Reply 413 (ErrorBody (Msg ''request body too large'')));
          invalid = Inl (Reply 400 (ErrorBody (Msg ''invalid JSON body'')));
          accept = (\<lambda>j. case body_of_json j of None \<Rightarrow> invalid | Some kvs \<Rightarrow> check_fields col kvs)
      in case first_value (take (maxBodyBytes s) body) of
           DInvalid \<Rightarrow> invalid
         | DIncomplete \<Rightarrow> if big then tooLarge else invalid
         | DAtEOF j \<Rightarrow> if big then tooLarge else accept j
         | DDone j \<Rightarrow> accept j)"

definition fieldFromConstraintError :: "string \<Rightarrow> string \<Rightarrow> string" where
  "fieldFromConstraintError msg prefix =
     (case Index msg prefix of
        None \<Rightarrow> ''unknown''
      | Some i \<Rightarrow>
          (let rest = takeWhile (\<lambda>c. c \<noteq> CHR '' '' \<and> c \<noteq> CHR ''('') (drop (i + length prefix) msg)
           in rev (takeWhile (\<lambda>c. c \<noteq> CHR ''.'') (rev rest))))"

definition writeWriteError :: "string \<Rightarrow> response" where
  "writeWriteError msg =
     (if Contains msg ''UNIQUE constraint failed'' then Reply 409 (ErrorBody (Msg ''already exists''))
      else if Contains msg ''NOT NULL constraint failed'' then
        Reply 400 (ErrorBody (MissingField (fieldFromConstraintError msg ''NOT NULL constraint failed: '')))
      else if Contains msg ''CHECK constraint failed'' then
        Reply 400 (ErrorBody (Msg ''a field's value violates a constraint on this table''))
      else if Contains msg ''FOREIGN KEY constraint failed'' then
        Reply 400 (ErrorBody (Msg ''a field references a row that doesn't exist''))
      else internal_error)"

datatype fetch_error = ErrNoRows | QueryFailed

definition owner_cond :: "bool \<Rightarrow> Collection \<Rightarrow> string \<Rightarrow> conds" where
  "owner_cond scoped col subj = (if scoped then [(OwnerColumn col, VText subj)] else [])"

definition fetchByPK :: "engine \<Rightarrow> api \<Rightarrow> Collection \<Rightarrow> val \<Rightarrow> bool \<Rightarrow> string \<Rightarrow> fetch_error + row" where
  "fetchByPK E st col pkValue scopeToOwner subj =
     (if eng_fail E (SelectPK (CollName col)) then Inl QueryFailed
      else (case scanRows (filter (matches E col ((PKColumn col, pkValue) # owner_cond scopeToOwner col subj))
                             (tables st (CollName col))) of
              [] \<Rightarrow> Inl ErrNoRows
            | r # _ \<Rightarrow> Inr r))"

definition ownerGateValue :: "engine \<Rightarrow> Collection \<Rightarrow> row \<Rightarrow> string" where
  "ownerGateValue E col record =
     (if ReadRule col \<noteq> RuleOwner \<or> OwnerColumn col = [] then []
      else (case map_of record (OwnerColumn col) of
              None \<Rightarrow> []
            | Some v \<Rightarrow> if v = VNull then [] else Sprint (eng_ftoa E) v))"

definition ownerValueForPK :: "engine \<Rightarrow> api \<Rightarrow> Collection \<Rightarrow> val \<Rightarrow> fetch_error + string" where
  "ownerValueForPK E st col pkValue =
     (if eng_fail E (SelectOwner (CollName col)) then Inl QueryFailed
      else (case filter (matches E col [(PKColumn col, pkValue)]) (tables st (CollName col)) of
              [] \<Rightarrow> Inl ErrNoRows
            | r # _ \<Rightarrow>
                (let v = normalizeValue (cell r (OwnerColumn col))
                 in Inr (if v = VNull then [] else Sprint (eng_ftoa E) v))))"

text \<open>Handing an event to the broker, then answering.\<close>

definition publish :: "Collection \<Rightarrow> event \<Rightarrow> string \<Rightarrow> response \<Rightarrow> api \<Rightarrow> api \<times> response" where
  "publish col ev ownerID resp st =
     (case bus st of
        None \<Rightarrow> (st, resp)
      | Some b \<Rightarrow>
          if ReadRule col = RuleDenied then (st, resp)
          else (case Publish ev ownerID b of
                  None \<Rightarrow> (st, Aborted)
                | Some b' \<Rightarrow> (st\<lparr>bus := Some b'\<rparr>, resp)))"

abbreviation record_event :: "string \<Rightarrow> Collection \<Rightarrow> row \<Rightarrow> event" where
  "record_event ty col r \<equiv>
     \<lparr>ev_type = ty, ev_collection = CollName col, ev_record = Some r, ev_id = []\<rparr>"

abbreviation deleted_event :: "Collection \<Rightarrow> string \<Rightarrow> event" where
  "deleted_event col i \<equiv>
     \<lparr>ev_type = ''deleted'', ev_collection = CollName col, ev_record = None, ev_id = i\<rparr>"


section \<open>The handlers\<close>

definition requireDevMode :: "server \<Rightarrow> response \<Rightarrow> response" where
  "requireDevMode s next = (if devMode s then next else Reply 404 (PlainText ''404 page not found''))"

definition handleSchema :: "server \<Rightarrow> response" where
  "handleSchema s = Reply 200 (SchemaOf (All (registry s)))"

definition handleList :: "engine \<Rightarrow> server \<Rightarrow> request \<Rightarrow> api \<Rightarrow> response" where
  "handleList E s r st =
     (case get_collection s r of
        Inl e \<Rightarrow> e
      | Inr col \<Rightarrow>
          (case authorizeOp (ReadRule col) of
             Some e \<Rightarrow> e
           | None \<Rightarrow>
               (case parsePagination r of
                  Inl m \<Rightarrow> Reply 400 (ErrorBody m)
                | Inr (limit, offset) \<Rightarrow>
                    if eng_fail E (SelectList (CollName col)) then internal_error
                    else (let sel = filter (matches E col (owner_cond (ReadRule col = RuleOwner) col (subject r)))
                                      (tables st (CollName col))
                          in Reply 200 (Recs (scanRows (take (nat limit) (drop (nat offset) sel))) limit offset)))))"

definition handleGet :: "engine \<Rightarrow> server \<Rightarrow> request \<Rightarrow> api \<Rightarrow> response" where
  "handleGet E s r st =
     (case get_collection s r of
        Inl e \<Rightarrow> e
      | Inr col \<Rightarrow>
          (case authorizeOp (ReadRule col) of
             Some e \<Rightarrow> e
           | None \<Rightarrow>
               (case fetchByPK E st col (VText (id_param r)) (ReadRule col = RuleOwner) (subject r) of
                  Inl ErrNoRows \<Rightarrow> not_found
                | Inl QueryFailed \<Rightarrow> internal_error
                | Inr record \<Rightarrow> Reply 200 (Rec record))))"

definition stamp_owner :: "Collection \<Rightarrow> string \<Rightarrow> cells \<Rightarrow> cells" where
  "stamp_owner col subj body =
     (if OwnerColumn col \<noteq> [] then AList.update (OwnerColumn col) (VText subj) body else body)"

definition stamp_key :: "Collection \<Rightarrow> string \<Rightarrow> cells \<Rightarrow> cells" where
  "stamp_key col uuid body =
     (if PKIsInteger col then body
      else (case map_of body (PKColumn col) of
              None \<Rightarrow> AList.update (PKColumn col) (VText uuid) body
            | Some v \<Rightarrow> if v = VNull \<or> v = VText [] then AList.update (PKColumn col) (VText uuid) body
                        else body))"

definition handleCreate :: "engine \<Rightarrow> (string \<Rightarrow> decoded) \<Rightarrow> string \<Rightarrow> server \<Rightarrow> request \<Rightarrow> api \<Rightarrow> api \<times> response" where
  "handleCreate E first_value uuid s r st =
     (case get_collection s r of
        Inl e \<Rightarrow> (st, e)
      | Inr col \<Rightarrow>
          (case authorizeOp (CreateRule col) of
             Some e \<Rightarrow> (st, e)
           | None \<Rightarrow>
               (case decodeBody first_value s r col of
                  Inl e \<Rightarrow> (st, e)
                | Inr body0 \<Rightarrow>
                    (let body = stamp_key col uuid (stamp_owner col (subject r) body0)
                     in case sql_insert E col (tables st (CollName col)) body of
                          Inl msg \<Rightarrow> (st, writeWriteError msg)
                        | Inr (rows, rowid) \<Rightarrow>
                            (let st' = set_rows (CollName col) rows st
                             in if PKIsInteger col \<and> eng_fail E (LastInsertId (CollName col)) then (st', internal_error)
                                else (case fetchByPK E st' col
                                         (if PKIsInteger col then VInt rowid else cell body (PKColumn col)) False [] of
                                        Inl _ \<Rightarrow> (st', internal_error)
                                      | Inr record \<Rightarrow>
                                          publish col (record_event ''created'' col record)
                                            (ownerGateValue E col record) (Reply 201 (Rec record)) st'))))))"

definition strip_immutable :: "Collection \<Rightarrow> cells \<Rightarrow> cells" where
  "strip_immutable col body =
     (let b = AList.delete (PKColumn col) body
      in if OwnerColumn col \<noteq> [] then AList.delete (OwnerColumn col) b else b)"

definition handleUpdate :: "engine \<Rightarrow> (string \<Rightarrow> decoded) \<Rightarrow> server \<Rightarrow> request \<Rightarrow> api \<Rightarrow> api \<times> response" where
  "handleUpdate E first_value s r st =
     (case get_collection s r of
        Inl e \<Rightarrow> (st, e)
      | Inr col \<Rightarrow>
          (case authorizeOp (UpdateRule col) of
             Some e \<Rightarrow> (st, e)
           | None \<Rightarrow>
               (case decodeBody first_value s r col of
                  Inl e \<Rightarrow> (st, e)
                | Inr body0 \<Rightarrow>
                    (let body = strip_immutable col body0;
                         pk = VText (id_param r);
                         scoped = (UpdateRule col = RuleOwner)
                     in if body = [] then
                          (if body0 = [] then (st, Reply 400 (ErrorBody (Msg ''no updatable fields in request body'')))
                           else (case fetchByPK E st col pk scoped (subject r) of
                                   Inl ErrNoRows \<Rightarrow> (st, not_found)
                                 | Inl QueryFailed \<Rightarrow> (st, internal_error)
                                 | Inr record \<Rightarrow> (st, Reply 200 (Rec record))))
                        else (case sql_update E col (tables st (CollName col)) body
                                     ((PKColumn col, pk) # owner_cond scoped col (subject r)) of
                                Inl msg \<Rightarrow> (st, writeWriteError msg)
                              | Inr (rows, n) \<Rightarrow>
                                  (let st' = set_rows (CollName col) rows st
                                   in if n = 0 then (st', not_found)
                                      else (case fetchByPK E st' col pk False [] of
                                              Inl _ \<Rightarrow> (st', internal_error)
                                            | Inr record \<Rightarrow>
                                                publish col (record_event ''updated'' col record)
                                                  (ownerGateValue E col record) (Reply 200 (Rec record)) st')))))))"

definition gate_before_delete :: "engine \<Rightarrow> api \<Rightarrow> Collection \<Rightarrow> val \<Rightarrow> string" where
  "gate_before_delete E st col pk =
     (if ReadRule col = RuleOwner \<and> OwnerColumn col \<noteq> [] then
        (case ownerValueForPK E st col pk of Inl _ \<Rightarrow> [] | Inr v \<Rightarrow> v)
      else [])"

definition handleDelete :: "engine \<Rightarrow> server \<Rightarrow> request \<Rightarrow> api \<Rightarrow> api \<times> response" where
  "handleDelete E s r st =
     (case get_collection s r of
        Inl e \<Rightarrow> (st, e)
      | Inr col \<Rightarrow>
          (case authorizeOp (DeleteRule col) of
             Some e \<Rightarrow> (st, e)
           | None \<Rightarrow>
               (let pk = VText (id_param r);
                    gateVal = gate_before_delete E st col pk
                in if eng_fail E (Delete (CollName col)) then (st, internal_error)
                   else (case sql_delete E col (tables st (CollName col))
                                ((PKColumn col, pk) # owner_cond (DeleteRule col = RuleOwner) col (subject r)) of
                           (rows, n) \<Rightarrow>
                             (let st' = set_rows (CollName col) rows st
                              in if n = 0 then (st', not_found)
                                 else publish col (deleted_event col (id_param r)) gateVal (Reply 204 NoBody) st')))))"


section \<open>Account export and erasure\<close>

fun export_collections :: "engine \<Rightarrow> string \<Rightarrow> api \<Rightarrow> Collection list \<Rightarrow> (string \<times> row list) list
    \<Rightarrow> fetch_error + (string \<times> row list) list" where
  "export_collections E subj st [] out = Inr out"
| "export_collections E subj st (col # cols) out =
     (if ReadRule col = RuleDenied then export_collections E subj st cols out
      else if eng_fail E (SelectOwned (CollName col)) then Inl QueryFailed
      else export_collections E subj st cols
             (AList.update (CollName col)
                (scanRows (filter (matches E col [(OwnerColumn col, VText subj)]) (tables st (CollName col)))) out))"

definition ExportOwned :: "engine \<Rightarrow> server \<Rightarrow> string \<Rightarrow> api \<Rightarrow> fetch_error + (string \<times> row list) list" where
  "ExportOwned E s subj st = export_collections E subj st (ownedCollections (registry s)) []"

definition pkValuesForOwner :: "engine \<Rightarrow> api \<Rightarrow> Collection \<Rightarrow> string \<Rightarrow> fetch_error + string list" where
  "pkValuesForOwner E st col subj =
     (if eng_fail E (SelectKeys (CollName col)) then Inl QueryFailed
      else Inr (map (\<lambda>r. Sprint (eng_ftoa E) (cell r (PKColumn col)))
             (filter (matches E col [(OwnerColumn col, VText subj)]) (tables st (CollName col)))))"

datatype erase_result = Erased | EraseFailed | ErasePanicked

fun publish_deleted :: "Collection \<Rightarrow> string \<Rightarrow> string list \<Rightarrow> api \<Rightarrow> api option" where
  "publish_deleted col subj [] st = Some st"
| "publish_deleted col subj (i # ids) st =
     (case publish col (deleted_event col i) subj (Reply 0 NoBody) st of
        (st', Aborted) \<Rightarrow> None
      | (st', _) \<Rightarrow> publish_deleted col subj ids st')"

fun delete_collections :: "engine \<Rightarrow> string \<Rightarrow> Collection list \<Rightarrow> api \<Rightarrow> api \<times> erase_result" where
  "delete_collections E subj [] st = (st, Erased)"
| "delete_collections E subj (col # cols) st =
     (case (if bus st = None then Inr [] else pkValuesForOwner E st col subj) of
        Inl _ \<Rightarrow> (st, EraseFailed)
      | Inr ids \<Rightarrow>
          if eng_fail E (DeleteOwnedRows (CollName col)) then (st, EraseFailed)
          else (let st' = set_rows (CollName col)
                      (fst (sql_delete E col (tables st (CollName col)) [(OwnerColumn col, VText subj)])) st
                in case publish_deleted col subj ids st' of
                     None \<Rightarrow> (st', ErasePanicked)
                   | Some st'' \<Rightarrow> delete_collections E subj cols st''))"

definition DeleteOwned :: "engine \<Rightarrow> server \<Rightarrow> string \<Rightarrow> api \<Rightarrow> api \<times> erase_result" where
  "DeleteOwned E s subj st = delete_collections E subj (ownedCollections (registry s)) st"


section \<open>What the code relies on\<close>

text \<open>
  The engine: \<^verbatim>\<open>NULL = x\<close> is never true; a column of text affinity (with the default collation)
  compares equal to a bound text just when it stores that text, and stores a bound text as it is.
\<close>

definition text_column :: "Collection \<Rightarrow> string \<Rightarrow> bool" where
  "text_column col k \<longleftrightarrow>
     HasColumn col k \<and> (\<forall>c \<in> set (Columns col). ColName c = k \<longrightarrow> columnAffinity (DeclType c) = TEXT)"

definition engine_ok :: "engine \<Rightarrow> bool" where
  "engine_ok E \<longleftrightarrow>
     (\<forall>col k v. \<not> eng_eq E col k VNull v) \<and>
     (\<forall>col k v t. text_column col k \<longrightarrow> (eng_eq E col k v (VText t) \<longleftrightarrow> v = VText t)) \<and>
     (\<forall>col rows k t. text_column col k \<longrightarrow> eng_cell E col rows k (Some (VText t)) = VText t)"

text \<open>The registry a server runs with comes from a discovery.\<close>

definition served :: "server \<Rightarrow> bool" where
  "served s \<longleftrightarrow> (\<exists>sch. Discover sch = Inr (registry s))"

definition owned_by :: "Collection \<Rightarrow> string \<Rightarrow> row \<Rightarrow> bool" where
  "owned_by col subj r \<longleftrightarrow> cell r (OwnerColumn col) = VText subj"

lemma served_Get:
  assumes "served s" and "Get (registry s) n = Some col"
  shows "CollName col = n" and "PKColumn col \<noteq> []"
    and "OwnerColumn col \<noteq> [] \<Longrightarrow> text_column col (OwnerColumn col)"
    and "RuleOwner \<in> {ReadRule col, CreateRule col, UpdateRule col, DeleteRule col} \<Longrightarrow> OwnerColumn col \<noteq> []"
proof -
  obtain sch where "Discover sch = Inr (registry s)" using assms(1) by (auto simp: served_def)
  note ok = registry_okD [OF Discover_ok [OF this] assms(2)]
  show "CollName col = n" "PKColumn col \<noteq> []" using ok by (simp_all add: described_def)
  show "text_column col (OwnerColumn col)" if "OwnerColumn col \<noteq> []"
    using ok(1) that
    by (auto simp: described_def owner_column_of_def text_column_def HasColumn_def owner_text_def split: if_splits)
  show "OwnerColumn col \<noteq> []"
    if "RuleOwner \<in> {ReadRule col, CreateRule col, UpdateRule col, DeleteRule col}"
    using ok(3) that by (auto simp: rules_ok_def)
qed

lemma matches_Nil [simp]: "matches E col [] r"
  by (simp add: matches_def)

lemma matches_Cons: "matches E col (c # cs) r \<longleftrightarrow> matches E col [c] r \<and> matches E col cs r"
  by (simp add: matches_def)

lemma owner_cond_False [simp]: "owner_cond False col subj = []"
  by (simp add: owner_cond_def)

lemma matches_owner:
  assumes "engine_ok E" and "text_column col (OwnerColumn col)"
  shows "matches E col [(OwnerColumn col, VText subj)] r \<longleftrightarrow> owned_by col subj r"
  using assms by (simp add: matches_def engine_ok_def owned_by_def)

lemma matches_owner_cond:
  assumes "engine_ok E" and "text_column col (OwnerColumn col)"
  shows "matches E col (owner_cond True col subj) r \<longleftrightarrow> owned_by col subj r"
  using matches_owner [OF assms] by (simp add: owner_cond_def)

lemma matches_scoped:
  assumes "engine_ok E" and "text_column col (OwnerColumn col)"
  shows "matches E col (c # owner_cond True col subj) r \<longleftrightarrow> matches E col [c] r \<and> owned_by col subj r"
  using matches_Cons [of E col c "owner_cond True col subj" r] matches_owner_cond [OF assms, of subj r] by blast

lemma map_of_map_key: "map_of (map (\<lambda>(k, v). (k, f k v)) r) k = map_option (f k) (map_of r k)"
  by (induction r) auto

lemma map_of_map_cols:
  "map_of (map (\<lambda>c. (g c, f (g c))) cs) k = (if k \<in> g ` set cs then Some (f k) else None)"
  by (induction cs) auto

lemma cell_assign:
  "cell (assign E col sets r) k =
     (case map_of r k of None \<Rightarrow> VNull
      | Some v \<Rightarrow> (case map_of sets k of None \<Rightarrow> v | Some w \<Rightarrow> eng_store E col k w))"
  by (auto simp: cell_def assign_def map_of_map_key split: option.splits)

lemma cell_new_row:
  "HasColumn col k \<Longrightarrow> cell (new_row E col rows bound) k = eng_cell E col rows k (map_of bound k)"
  using map_of_map_cols [of ColName "\<lambda>k. eng_cell E col rows k (map_of bound k)" "Columns col" k]
  by (auto simp: cell_def new_row_def HasColumn_def image_iff)

lemma map_of_strip_immutable:
  "map_of (strip_immutable col body) (PKColumn col) = None"
  "OwnerColumn col \<noteq> [] \<Longrightarrow> map_of (strip_immutable col body) (OwnerColumn col) = None"
  by (simp_all add: strip_immutable_def Let_def delete_conv)

lemma map_of_stamp:
  "OwnerColumn col \<noteq> [] \<Longrightarrow> subj \<noteq> [] \<or> OwnerColumn col \<noteq> PKColumn col \<Longrightarrow>
     map_of (stamp_key col uuid (stamp_owner col subj body)) (OwnerColumn col) = Some (VText subj)"
  by (auto simp: stamp_key_def stamp_owner_def update_conv' split: option.splits)

lemma set_rows_simps [simp]:
  "tables (set_rows n rows st) m = (if m = n then rows else tables st m)"
  "bus (set_rows n rows st) = bus st"
  by (simp_all add: set_rows_def)

lemma set_rows_same [simp]: "set_rows n (tables st n) st = st"
  by (simp add: set_rows_def)

lemma publish_tables [frame]: "tables (fst (publish col ev ow resp st)) = tables st"
  by (auto simp: publish_def split: option.splits)

lemma publish_resp: "snd (publish col ev ow resp st) \<in> {resp, Aborted}"
  by (auto simp: publish_def split: option.splits)

section \<open>The shape of a write\<close>

definition rejection :: "response \<Rightarrow> bool" where
  "rejection resp \<longleftrightarrow> (\<exists>c p. resp = Reply c p \<and> 400 \<le> c)"

definition done_write :: "response \<Rightarrow> bool" where
  "done_write resp \<longleftrightarrow> resp \<in> {internal_error, Aborted} \<or> (\<exists>c p. resp = Reply c p \<and> c < 300)"

lemma get_collection_cases:
  obtains e where "get_collection s r = Inl e" "rejection e"
  | col where "get_collection s r = Inr col" "Get (registry s) (coll_param r) = Some col"
  by (cases "Get (registry s) (coll_param r)") (auto simp: get_collection_def rejection_def)

lemma authorizeOp_Some: "authorizeOp rule = Some e \<Longrightarrow> rejection e \<and> rule = RuleDenied"
  by (auto simp: authorizeOp_def rejection_def split: if_splits)

lemma check_fields_Inl: "check_fields col kvs = Inl e \<Longrightarrow> rejection e"
  by (induction kvs arbitrary: e)
    (auto simp: rejection_def split: if_splits option.splits sum.splits)

lemma check_fields_columns: "check_fields col kvs = Inr cs \<Longrightarrow> \<forall>(k, v) \<in> set cs. HasColumn col k"
  by (induction kvs arbitrary: cs) (fastforce split: if_splits option.splits sum.splits)+

lemma decodeBody_Inl: "decodeBody fv s r col = Inl e \<Longrightarrow> rejection e"
  by (auto simp: decodeBody_def Let_def rejection_def
      split: decoded.splits if_splits option.splits dest!: check_fields_Inl [unfolded rejection_def])

lemma decodeBody_columns: "decodeBody fv s r col = Inr cs \<Longrightarrow> \<forall>(k, v) \<in> set cs. HasColumn col k"
  by (auto simp: decodeBody_def Let_def split: decoded.splits if_splits option.splits dest!: check_fields_columns)

lemma writeWriteError_rejection: "rejection (writeWriteError msg)"
  by (simp add: writeWriteError_def rejection_def)

lemma done_publish:
  "c < 300 \<Longrightarrow> done_write (snd (publish col ev ow (Reply c p) st))"
  by (auto simp: publish_def done_write_def split: option.splits)

lemma sql_update_none:
  "sql_update E col rows sets cs = Inr (rows', 0) \<Longrightarrow> rows' = rows"
  by (auto simp: sql_update_def Let_def filter_empty_conv split: if_splits option.splits intro!: map_idI)

lemma handleCreate_cases:
  assumes "handleCreate E fv uuid s r st = (st', resp)"
  obtains (refused) "st' = st" "rejection resp"
  | (inserted) col body0 body rows rowid where
      "Get (registry s) (coll_param r) = Some col" "decodeBody fv s r col = Inr body0"
      "body = stamp_key col uuid (stamp_owner col (subject r) body0)"
      "sql_insert E col (tables st (CollName col)) body = Inr (rows, rowid)"
      "tables st' = (tables st)(CollName col := rows)" "done_write resp"
      "st' = set_rows (CollName col) rows st \<or>
       (\<exists>record. fetchByPK E (set_rows (CollName col) rows st) col
           (if PKIsInteger col then VInt rowid else cell body (PKColumn col)) False [] = Inr record \<and>
         (st', resp) = publish col (record_event ''created'' col record) (ownerGateValue E col record)
           (Reply 201 (Rec record)) (set_rows (CollName col) rows st))"
proof (cases rule: get_collection_cases [of s r])
  case (1 e)
  with assms that(1) show ?thesis by (simp add: handleCreate_def)
next
  case (2 col)
  show ?thesis
  proof (cases "authorizeOp (CreateRule col)")
    case (Some e)
    with 2 assms that(1) authorizeOp_Some [OF Some] show ?thesis by (simp add: handleCreate_def)
  next
    case None
    show ?thesis
    proof (cases "decodeBody fv s r col")
      case (Inl e)
      with 2 None assms that(1) decodeBody_Inl [OF Inl] show ?thesis by (simp add: handleCreate_def)
    next
      case (Inr body0)
      define body where "body = stamp_key col uuid (stamp_owner col (subject r) body0)"
      show ?thesis
      proof (cases "sql_insert E col (tables st (CollName col)) body")
        case (Inl msg)
        with 2 None Inr assms that(1) writeWriteError_rejection [of msg] show ?thesis
          by (simp add: handleCreate_def body_def Let_def)
      next
        case ins: (Inr rr)
        obtain rows rowid where rr: "rr = (rows, rowid)" by (cases rr)
        let ?st = "set_rows (CollName col) rows st"
        let ?pk = "if PKIsInteger col then VInt rowid else cell body (PKColumn col)"
        let ?pub = "\<lambda>record. publish col (record_event ''created'' col record) (ownerGateValue E col record)
           (Reply 201 (Rec record)) ?st"
        consider "st' = ?st" "resp = internal_error"
          | rec where "fetchByPK E ?st col ?pk False [] = Inr rec" "(st', resp) = ?pub rec"
          using 2 None Inr ins rr assms
          by (auto simp: handleCreate_def body_def Let_def split: if_splits sum.splits)
        then show ?thesis
        proof cases
          case 1
          with 2 Inr ins rr body_def show ?thesis
            by (intro that(2) [of col body0 body rows rowid]) (auto simp: done_write_def set_rows_def)
        next
          case pub: (2 rec)
          have eq: "st' = fst (?pub rec)" "resp = snd (?pub rec)"
            using pub(2) by (metis fst_conv, metis snd_conv)
          have "tables st' = tables ?st" unfolding eq by (rule publish_tables)
          moreover have "done_write resp" unfolding eq by (rule done_publish) simp
          ultimately
          show ?thesis using 2 Inr ins rr body_def pub
            by (intro that(2) [of col body0 body rows rowid]) (auto simp: set_rows_def)
        qed
      qed
    qed
  qed
qed

lemma handleUpdate_cases:
  assumes "handleUpdate E fv s r st = (st', resp)"
  obtains (refused) "st' = st" "rejection resp"
  | (echoed) col p where "Get (registry s) (coll_param r) = Some col" "st' = st" "resp = Reply 200 (Rec p)"
      "fetchByPK E st col (VText (id_param r)) (UpdateRule col = RuleOwner) (subject r) = Inr p"
  | (updated) col body0 rows n where
      "Get (registry s) (coll_param r) = Some col" "decodeBody fv s r col = Inr body0"
      "sql_update E col (tables st (CollName col)) (strip_immutable col body0)
         ((PKColumn col, VText (id_param r)) # owner_cond (UpdateRule col = RuleOwner) col (subject r)) = Inr (rows, n)"
      "n \<noteq> 0" "tables st' = (tables st)(CollName col := rows)" "done_write resp"
      "st' = set_rows (CollName col) rows st \<or>
       (\<exists>rec. fetchByPK E (set_rows (CollName col) rows st) col (VText (id_param r)) False [] = Inr rec \<and>
         (st', resp) = publish col (record_event ''updated'' col rec) (ownerGateValue E col rec)
           (Reply 200 (Rec rec)) (set_rows (CollName col) rows st))"
proof (cases rule: get_collection_cases [of s r])
  case (1 e)
  with assms that(1) show ?thesis by (simp add: handleUpdate_def)
next
  case (2 col)
  show ?thesis
  proof (cases "authorizeOp (UpdateRule col)")
    case (Some e)
    with 2 assms that(1) authorizeOp_Some [OF Some] show ?thesis by (simp add: handleUpdate_def)
  next
    case None
    show ?thesis
    proof (cases "decodeBody fv s r col")
      case (Inl e)
      with 2 None assms that(1) decodeBody_Inl [OF Inl] show ?thesis by (simp add: handleUpdate_def)
    next
      case (Inr body0)
      let ?body = "strip_immutable col body0"
      note H = assms [unfolded handleUpdate_def Let_def, simplified 2(1) None Inr sum.case option.case]
      show ?thesis
      proof (cases "?body = []")
        case True
        with H that(1) that(2) [OF 2(2)] show ?thesis
          by (auto simp: rejection_def split: if_splits sum.splits fetch_error.splits)
      next
        case False
        note H' = H [simplified False if_False]
        show ?thesis
        proof (cases "sql_update E col (tables st (CollName col)) ?body
             ((PKColumn col, VText (id_param r)) # owner_cond (UpdateRule col = RuleOwner) col (subject r))")
          case (Inl msg)
          with H' that(1) writeWriteError_rejection [of msg] show ?thesis by simp
        next
          case upd: (Inr rr)
          obtain rows n where rr: "rr = (rows, n)" by (cases rr)
          let ?st = "set_rows (CollName col) rows st"
          let ?pub = "\<lambda>rec. publish col (record_event ''updated'' col rec) (ownerGateValue E col rec)
             (Reply 200 (Rec rec)) ?st"
          show ?thesis
          proof (cases "n = 0")
            case True
            with upd rr have "rows = tables st (CollName col)" by (intro sql_update_none) simp
            then have "?st = st" by simp
            with True H' upd rr that(1) show ?thesis by (auto simp: rejection_def)
          next
            case nz: False
            consider "st' = ?st" "resp = internal_error"
              | rec where "fetchByPK E ?st col (VText (id_param r)) False [] = Inr rec" "(st', resp) = ?pub rec"
              using H' upd rr nz by (auto split: sum.splits)
            then show ?thesis
            proof cases
              case 1
              with 2 Inr upd rr nz show ?thesis
                by (intro that(3) [of col body0 rows n]) (auto simp: done_write_def set_rows_def)
            next
              case pub: (2 rec)
              have eq: "st' = fst (?pub rec)" "resp = snd (?pub rec)"
                using pub(2) by (metis fst_conv, metis snd_conv)
              have "tables st' = tables ?st" unfolding eq by (rule publish_tables)
              moreover have "done_write resp" unfolding eq by (rule done_publish) simp
              ultimately show ?thesis using 2 Inr upd rr nz pub
                by (intro that(3) [of col body0 rows n]) (auto simp: set_rows_def)
            qed
          qed
        qed
      qed
    qed
  qed
qed

lemma handleDelete_cases:
  assumes "handleDelete E s r st = (st', resp)"
  obtains (refused) "st' = st" "rejection resp"
  | (deleted) col cs where
      "Get (registry s) (coll_param r) = Some col" "\<not> eng_fail E (Delete (CollName col))"
      "cs = (PKColumn col, VText (id_param r)) # owner_cond (DeleteRule col = RuleOwner) col (subject r)"
      "filter (matches E col cs) (tables st (CollName col)) \<noteq> []"
      "tables st' = (tables st)(CollName col := filter (\<lambda>x. \<not> matches E col cs x) (tables st (CollName col)))"
      "done_write resp"
      "(st', resp) = publish col (deleted_event col (id_param r))
         (gate_before_delete E st col (VText (id_param r))) (Reply 204 NoBody)
         (set_rows (CollName col) (filter (\<lambda>x. \<not> matches E col cs x) (tables st (CollName col))) st)"
proof (cases rule: get_collection_cases [of s r])
  case (1 e)
  with assms that(1) show ?thesis by (simp add: handleDelete_def)
next
  case (2 col)
  show ?thesis
  proof (cases "authorizeOp (DeleteRule col)")
    case (Some e)
    with 2 assms that(1) authorizeOp_Some [OF Some] show ?thesis by (simp add: handleDelete_def)
  next
    case None
    let ?cs = "(PKColumn col, VText (id_param r)) # owner_cond (DeleteRule col = RuleOwner) col (subject r)"
    let ?st = "set_rows (CollName col) (filter (\<lambda>x. \<not> matches E col ?cs x) (tables st (CollName col))) st"
    let ?pub = "publish col (deleted_event col (id_param r)) (gate_before_delete E st col (VText (id_param r)))
       (Reply 204 NoBody) ?st"
    note H = assms [unfolded handleDelete_def Let_def sql_delete_def, simplified 2(1) None sum.case option.case prod.case]
    show ?thesis
    proof (cases "eng_fail E (Delete (CollName col)) \<or> filter (matches E col ?cs) (tables st (CollName col)) = []")
      case True
      moreover have "?st = st" if "filter (matches E col ?cs) (tables st (CollName col)) = []"
        using that by (simp add: filter_empty_conv filter_id_conv [THEN iffD2])
      ultimately show ?thesis using H that(1) by (auto simp: rejection_def split: if_splits)
    next
      case False
      then have eq: "(st', resp) = ?pub" using H by simp
      then have eqs: "st' = fst ?pub" "resp = snd ?pub" by (metis fst_conv, metis snd_conv)
      have "tables st' = tables ?st" unfolding eqs by (rule publish_tables)
      moreover have "done_write resp" unfolding eqs by (rule done_publish) simp
      ultimately show ?thesis
        using False 2 eq by (intro that(2) [of col ?cs]) (auto simp: set_rows_def)
    qed
  qed
qed

section \<open>A small engine and a small deployment\<close>

text \<open>An executable engine with SQLite's behaviour on texts and integers, used in the examples.\<close>

definition col_affinity :: "Collection \<Rightarrow> string \<Rightarrow> affinity" where
  "col_affinity col k =
     (case find (\<lambda>c. ColName c = k) (Columns col) of None \<Rightarrow> BLOB | Some c \<Rightarrow> columnAffinity (DeclType c))"

definition rowid_alias :: "Collection \<Rightarrow> string \<Rightarrow> bool" where
  "rowid_alias col k = (\<exists>c \<in> set (Columns col). ColName c = k \<and> IsPK c \<and> DeclType c = ''INTEGER'')"

definition lite_conv :: "Collection \<Rightarrow> string \<Rightarrow> val \<Rightarrow> val" where
  "lite_conv col k v =
     (case v of
        VText t \<Rightarrow> (if col_affinity col k = INTEGER then (case Atoi t of Some i \<Rightarrow> VInt i | None \<Rightarrow> v) else v)
      | VInt i \<Rightarrow> (if col_affinity col k = TEXT then VText (Itoa i) else v)
      | _ \<Rightarrow> v)"

definition lite_rowid :: "Collection \<Rightarrow> row list \<Rightarrow> row \<Rightarrow> int" where
  "lite_rowid col rows r =
     (if rowid_alias col (PKColumn col)
      then (case cell r (PKColumn col) of VInt i \<Rightarrow> i | _ \<Rightarrow> 0) else int (length rows) + 1)"

definition lite :: "(stmt \<Rightarrow> bool) \<Rightarrow> engine" where
  "lite fails =
     \<lparr>eng_eq = (\<lambda>col k v w. v \<noteq> VNull \<and> w \<noteq> VNull \<and> v = lite_conv col k w),
      eng_cell = (\<lambda>col rows k bound. case bound of
          None \<Rightarrow> if rowid_alias col k then VInt (int (length rows) + 1) else VNull
        | Some v \<Rightarrow> if v = VNull \<and> rowid_alias col k then VInt (int (length rows) + 1) else lite_conv col k v),
      eng_store = lite_conv,
      eng_check = (\<lambda>col rows. if distinct (map (\<lambda>r. cell r (PKColumn col)) rows) then None
                             else Some ''UNIQUE constraint failed''),
      eng_rowid = lite_rowid, eng_fail = fails, eng_ftoa = (\<lambda>_. ''0'')\<rparr>"

lemma text_column_affinity: "text_column col k \<Longrightarrow> col_affinity col k = TEXT"
  by (auto simp: text_column_def col_affinity_def HasColumn_def find_None_iff split: option.splits
      dest: find_Some_mem)

lemma lite_ok: "engine_ok (lite fails)"
  by (auto simp: engine_ok_def lite_def lite_conv_def dest: text_column_affinity)

abbreviation note_row :: "string \<Rightarrow> string \<Rightarrow> string \<Rightarrow> row" where
  "note_row i who text \<equiv> [(''id'', VText i), (''owner_id'', VText who), (''body'', VText text)]"

abbreviation journal_schema :: schema where
  "journal_schema \<equiv>
     \<lparr>sqlite_master = [''users'', ''journal''],
      info_of = (\<lambda>t. [(''id'', ''TEXT'', 0, 1), (''owner_id'', ''TEXT'', 1, 0), (''body'', ''TEXT'', 0, 0)]),
      policies = [], query_fails = (\<lambda>_. False)\<rparr>"

definition journal :: Collection where
  "journal =
     \<lparr>CollName = ''journal'',
      Columns = [\<lparr>ColName = ''id'', DeclType = ''TEXT'', NotNull = False, IsPK = True\<rparr>,
                 \<lparr>ColName = ''owner_id'', DeclType = ''TEXT'', NotNull = True, IsPK = False\<rparr>,
                 \<lparr>ColName = ''body'', DeclType = ''TEXT'', NotNull = False, IsPK = False\<rparr>],
      PKColumn = ''id'', PKIsInteger = False, OwnerColumn = ''owner_id'',
      ReadRule = ''owner'', CreateRule = ''owner'', UpdateRule = ''owner'', DeleteRule = ''owner''\<rparr>"

abbreviation journal_server :: server where
  "journal_server \<equiv> \<lparr>registry = [(''journal'', journal)], maxBodyBytes = 100, devMode = False\<rparr>"

lemma Discover_journal: "Discover journal_schema = Inr [(''journal'', journal)]"
  by (simp add: Discover_def isReserved_def reservedTables_def describeTable_def columnAffinity_def
      blank_collection_def ToUpper_def upper_char_def is_lower_def less_eq_char_nat Contains_def
      applyPolicies_def Let_def default_rules_def journal_def)

lemma served_journal: "served journal_server"
  unfolding served_def using Discover_journal by auto

lemma Get_journal [simp]: "Get [(''journal'', journal)] ''journal'' = Some journal"
  by (simp add: Get_def)

lemma journal_simps [simp]:
  "CollName journal = ''journal''" "PKColumn journal = ''id''" "OwnerColumn journal = ''owner_id''"
  "ReadRule journal = ''owner''" "CreateRule journal = ''owner''" "UpdateRule journal = ''owner''"
  "DeleteRule journal = ''owner''" "PKIsInteger journal = False"
  by (simp_all add: journal_def)

lemma journal_affinity [simp]:
  "col_affinity journal ''id'' = TEXT" "col_affinity journal ''owner_id'' = TEXT" "col_affinity journal ''body'' = TEXT"
  by (simp_all add: col_affinity_def journal_def columnAffinity_def ToUpper_def upper_char_def is_lower_def
      less_eq_char_nat Contains_def Let_def)

abbreviation journal_state :: "broker option \<Rightarrow> api" where
  "journal_state b \<equiv>
     \<lparr>tables = (\<lambda>t. if t = ''journal'' then [note_row ''1'' ''ann'' ''hi'', note_row ''2'' ''bob'' ''yo''] else []),
      bus = b\<rparr>"

abbreviation get_request :: "string \<Rightarrow> string \<Rightarrow> request" where
  "get_request who i \<equiv> \<lparr>subject = who, coll_param = ''journal'', id_param = i, limit_param = [],
     offset_param = [], req_body = []\<rparr>"


section \<open>Isolation of the owners\<close>

text \<open>
  C1. On a collection whose reads are restricted to the owner, what a caller is told, by a
  list or by a lookup of any id, depends on nothing but the caller's own rows: two databases
  that agree on those give the same responses. In particular the answer for another owner's
  row is the answer for a row that does not exist.
\<close>

theorem read_noninterference:
  assumes "served s" and "engine_ok E" and "Get (registry s) (coll_param r) = Some col"
    and "ReadRule col = RuleOwner"
    and "filter (owned_by col (subject r)) (tables st (CollName col)) =
         filter (owned_by col (subject r)) (tables st' (CollName col))"
  shows "handleList E s r st = handleList E s r st' \<and> handleGet E s r st = handleGet E s r st'"
proof -
  have tc: "text_column col (OwnerColumn col)"
    using served_Get [OF assms(1,3)] assms(4) by simp
  have m: "matches E col (owner_cond True col (subject r)) = owned_by col (subject r)"
    "matches E col (c # owner_cond True col (subject r)) =
       (\<lambda>x. matches E col [c] x \<and> owned_by col (subject r) x)" for c
    using matches_owner_cond [OF assms(2) tc] matches_scoped [OF assms(2) tc] by blast+
  have "filter (\<lambda>x. matches E col [c] x \<and> owned_by col (subject r) x) (tables st (CollName col)) =
        filter (\<lambda>x. matches E col [c] x \<and> owned_by col (subject r) x) (tables st' (CollName col))" for c
    using arg_cong [OF assms(5), of "filter (matches E col [c])"] by (simp add: conj_commute)
  then show ?thesis
    using assms(3-5) by (simp add: handleList_def handleGet_def get_collection_def fetchByPK_def authorizeOp_def m Let_def split: sum.splits)
qed

theorem read_noninterference_witness:
  "handleGet (lite (\<lambda>_. False)) journal_server (get_request ''ann'' ''2'') (journal_state None) =
   handleGet (lite (\<lambda>_. False)) journal_server (get_request ''ann'' ''2'')
     ((journal_state None)\<lparr>tables := (\<lambda>_. [note_row ''1'' ''ann'' ''hi''])\<rparr>)"
  using read_noninterference [OF served_journal lite_ok [of "\<lambda>_. False"], where r = "get_request ''ann'' ''2''" and col = journal
      and st = "journal_state None"
      and st' = "(journal_state None)\<lparr>tables := (\<lambda>_. [note_row ''1'' ''ann'' ''hi''])\<rparr>"]
  by (simp add: owned_by_def cell_def)

text \<open>A stream of writes, each with its caller and, for a create, the fresh identifier.\<close>

datatype write_op = WCreate string | WUpdate | WDelete

definition write_step :: "engine \<Rightarrow> (string \<Rightarrow> decoded) \<Rightarrow> server \<Rightarrow> write_op \<times> request \<Rightarrow> api \<Rightarrow> api" where
  "write_step E fv s w st =
     (case w of
        (WCreate uuid, r) \<Rightarrow> fst (handleCreate E fv uuid s r st)
      | (WUpdate, r) \<Rightarrow> fst (handleUpdate E fv s r st)
      | (WDelete, r) \<Rightarrow> fst (handleDelete E s r st))"

lemma sql_insert_Inr:
  "sql_insert E col rows body = Inr (rows', i) \<Longrightarrow> rows' = rows @ [new_row E col rows body]"
  by (auto simp: sql_insert_def Let_def split: if_splits option.splits)

lemma sql_update_Inr:
  "sql_update E col rows sets cs = Inr (rows', n) \<Longrightarrow>
     rows' = map (\<lambda>r. if matches E col cs r then assign E col sets r else r) rows"
  by (auto simp: sql_update_def Let_def split: if_splits option.splits)

lemma new_row_owner:
  assumes "engine_ok E" and "text_column col (OwnerColumn col)" and "OwnerColumn col \<noteq> []"
    and "subj \<noteq> [] \<or> OwnerColumn col \<noteq> PKColumn col"
  shows "cell (new_row E col rows (stamp_key col uuid (stamp_owner col subj body))) (OwnerColumn col) = VText subj"
  using assms by (simp add: cell_new_row text_column_def map_of_stamp engine_ok_def)

lemma cell_assign_immutable:
  "cell (assign E col (strip_immutable col body) r) (PKColumn col) = cell r (PKColumn col)"
  "OwnerColumn col \<noteq> [] \<Longrightarrow>
     cell (assign E col (strip_immutable col body) r) (OwnerColumn col) = cell r (OwnerColumn col)"
  by (simp_all add: cell_assign map_of_strip_immutable cell_def [of r] split: option.splits)

lemma filter_map_other:
  assumes "\<And>x. x \<in> set xs \<Longrightarrow> P (f x) = P x" and "\<And>x. x \<in> set xs \<Longrightarrow> P x \<Longrightarrow> f x = x"
  shows "filter P (map f xs) = filter P xs"
  using assms by (induction xs) auto

definition guarded :: "Collection \<Rightarrow> bool" where
  "guarded col \<longleftrightarrow> UpdateRule col = RuleOwner \<and> DeleteRule col = RuleOwner"

lemma write_step_others:
  assumes "served s" "engine_ok E" "Get (registry s) n = Some col" "guarded col"
    and "subject (snd w) \<noteq> []" "subject (snd w) \<noteq> victim"
  shows "filter (owned_by col victim) (tables (write_step E fv s w st) n) = filter (owned_by col victim) (tables st n)"
proof -
  note g = served_Get [OF assms(1,3)]
  have oc: "OwnerColumn col \<noteq> []" using g(4) assms(4) by (simp add: guarded_def)
  note tc = g(3) [OF oc]
  have other: "\<not> owned_by col victim x" if "owned_by col (subject (snd w)) x" for x
    using that assms(6) by (simp add: owned_by_def)
  obtain k r where w: "w = (k, r)" by (cases w)
  have elsewhere: "CollName c = n \<Longrightarrow> c = col" if "Get (registry s) (coll_param r) = Some c" for c
    using that served_Get(1) [OF assms(1) that] assms(3) by simp
  let ?st' = "write_step E fv s w st"
  show ?thesis
  proof (cases k)
    case (WCreate u)
    then have "handleCreate E fv u s r st = (?st', snd (handleCreate E fv u s r st))" by (simp add: write_step_def w)
    then show ?thesis
    proof (cases rule: handleCreate_cases)
      case (inserted c body0 body rows i)
      show ?thesis
      proof (cases "CollName c = n")
        case True
        with elsewhere inserted(1) have "c = col" by blast
        with inserted(3-5) new_row_owner [OF assms(2) tc oc] assms(5,6) w True sql_insert_Inr [OF inserted(4)]
        show ?thesis by (simp add: owned_by_def)
      qed (use inserted in simp)
    qed simp
  next
    case WUpdate
    then have "handleUpdate E fv s r st = (?st', snd (handleUpdate E fv s r st))" by (simp add: write_step_def w)
    then show ?thesis
    proof (cases rule: handleUpdate_cases)
      case (updated c body0 rows m)
      show ?thesis
      proof (cases "CollName c = n")
        case True
        with elsewhere updated(1) have c: "c = col" by blast
        have "filter (owned_by col victim) rows = filter (owned_by col victim) (tables st n)"
          unfolding sql_update_Inr [OF updated(3)] c True [unfolded c, symmetric]
          by (rule filter_map_other)
            (use assms(4) other w cell_assign_immutable(2) [OF oc] in
              \<open>auto simp: guarded_def matches_scoped [OF assms(2) tc] owned_by_def\<close>)
        with updated(5) True show ?thesis by simp
      qed (use updated in simp)
    qed simp_all
  next
    case WDelete
    then have "handleDelete E s r st = (?st', snd (handleDelete E s r st))" by (simp add: write_step_def w)
    then show ?thesis
    proof (cases rule: handleDelete_cases)
      case (deleted c cs)
      show ?thesis
      proof (cases "CollName c = n")
        case True
        with elsewhere deleted(1) have c: "c = col" by blast
        have "matches E col cs x \<Longrightarrow> \<not> owned_by col victim x" for x
          using deleted(3) c assms(4) other w by (auto simp: guarded_def matches_scoped [OF assms(2) tc])
        then have "filter (owned_by col victim) (filter (\<lambda>x. \<not> matches E col cs x) (tables st n)) =
            filter (owned_by col victim) (tables st n)"
          by (auto intro: filter_cong)
        with deleted(5) True c show ?thesis by simp
      qed (use deleted in simp)
    qed simp
  qed
qed

text \<open>
  C2. On a collection whose updates and deletes are restricted to the owner, no sequence of
  creates, updates and deletes by other callers, on any collections and with any bodies,
  changes, removes or adds a row that belongs to \<open>victim\<close>.
\<close>

theorem write_noninterference:
  assumes "served s" and "engine_ok E" and "Get (registry s) n = Some col"
    and "UpdateRule col = RuleOwner" and "DeleteRule col = RuleOwner"
    and "\<forall>w \<in> set ws. subject (snd w) \<noteq> [] \<and> subject (snd w) \<noteq> victim"
  shows "filter (owned_by col victim) (tables (fold (write_step E fv s) ws st) n) =
         filter (owned_by col victim) (tables st n)"
  using assms(6)
proof (induction ws arbitrary: st)
  case (Cons w ws)
  have "guarded col" using assms(4,5) by (simp add: guarded_def)
  with Cons write_step_others [OF assms(1-3)] show ?case by simp
qed simp

theorem write_noninterference_witness:
  "filter (owned_by journal ''ann'')
     (tables (fold (write_step (lite (\<lambda>_. False)) (\<lambda>_. DDone (JObj [(''body'', JStr ''x'')])) journal_server)
        [(WUpdate, get_request ''bob'' ''1''), (WDelete, get_request ''bob'' ''1''), (WCreate ''u'', get_request ''bob'' [])]
        (journal_state None)) ''journal'') =
   filter (owned_by journal ''ann'') (tables (journal_state None) ''journal'')"
  by (rule write_noninterference [OF served_journal lite_ok]) simp_all

text \<open>
  C6. A create either is refused and changes nothing, or adds exactly one row, to the named
  collection, whose owner is the caller, whatever owner the body named.
\<close>

theorem create_stamps_owner:
  assumes "served s" and "engine_ok E" and "Get (registry s) (coll_param r) = Some col"
    and "OwnerColumn col \<noteq> []" and "subject r \<noteq> []"
    and "handleCreate E fv uuid s r st = (st', resp)"
  shows "(st' = st \<and> rejection resp) \<or>
    (\<exists>row. tables st' = (tables st)(coll_param r := tables st (coll_param r) @ [row]) \<and>
       owned_by col (subject r) row \<and> done_write resp)"
  using assms(6)
proof (cases rule: handleCreate_cases)
  case (inserted c body0 body rows i)
  note g = served_Get [OF assms(1,3)]
  have c: "c = col" using inserted(1) assms(3) by simp
  have "cell (new_row E col (tables st (CollName col)) body) (OwnerColumn col) = VText (subject r)"
    using new_row_owner [OF assms(2) g(3) assms(4)] assms(4,5) inserted(3) c by simp
  with inserted(5,6) sql_insert_Inr [OF inserted(4)] c g(1) show ?thesis by (auto simp: owned_by_def)
qed simp

lemma decode_journal:
  "decodeBody (\<lambda>_. DDone (JObj [(''owner_id'', JStr ''bob''), (''body'', JStr ''x'')])) journal_server (get_request who i) journal =
     Inr [(''owner_id'', VText ''bob''), (''body'', VText ''x'')]"
  by (simp add: decodeBody_def body_of_json_def HasColumn_def journal_def Let_def)

theorem create_stamps_owner_witness:
  "\<exists>st' resp. handleCreate (lite (\<lambda>_. False)) (\<lambda>_. DDone (JObj [(''owner_id'', JStr ''bob''), (''body'', JStr ''x'')]))
       ''u1'' journal_server (get_request ''ann'' []) (journal_state None) = (st', resp) \<and>
     ((st' = journal_state None \<and> rejection resp) \<or>
      (\<exists>row. tables st' = (tables (journal_state None))(''journal'' := tables (journal_state None) ''journal'' @ [row]) \<and>
         owned_by journal ''ann'' row \<and> done_write resp))"
proof -
  obtain st' resp where run: "handleCreate (lite (\<lambda>_. False)) (\<lambda>_. DDone (JObj [(''owner_id'', JStr ''bob''), (''body'', JStr ''x'')]))
       ''u1'' journal_server (get_request ''ann'' []) (journal_state None) = (st', resp)"
    by (metis surj_pair)
  from create_stamps_owner [OF served_journal lite_ok _ _ _ run, where col = journal] run
  show ?thesis by simp
qed



lemma done_write_not_4xx: "done_write (Reply c p) \<Longrightarrow> \<not> (400 \<le> c \<and> c < 500)"
  by (auto simp: done_write_def)

text \<open>
  C8. A refusal has no effect: when a create, an update or a delete answers with a 4xx status
  (unknown collection, disabled operation, bad body, constraint violation, no such row or not
  yours), the database and every subscriber's queue are exactly as before.
\<close>

theorem refusals_have_no_effect:
  assumes "(st', Reply c p) \<in> {handleCreate E fv uuid s r st, handleUpdate E fv s r st, handleDelete E s r st}"
    and "400 \<le> c" and "c < 500"
  shows "st' = st"
proof -
  consider "handleCreate E fv uuid s r st = (st', Reply c p)" | "handleUpdate E fv s r st = (st', Reply c p)"
    | "handleDelete E s r st = (st', Reply c p)" using assms(1) by auto
  then show ?thesis
  proof cases
    case 1
    then show ?thesis using done_write_not_4xx assms(2,3) by (cases rule: handleCreate_cases) blast+
  next
    case 2
    then show ?thesis using done_write_not_4xx assms(2,3) by (cases rule: handleUpdate_cases) (simp, simp, blast)
  next
    case 3
    then show ?thesis using done_write_not_4xx assms(2,3) by (cases rule: handleDelete_cases) blast+
  qed
qed

lemma delete_other: "handleDelete (lite (\<lambda>_. False)) journal_server (get_request ''ann'' ''2'') (journal_state None) =
    (journal_state None, not_found)"
  by (simp add: handleDelete_def get_collection_def authorizeOp_def sql_delete_def matches_def owner_cond_def
      lite_def lite_conv_def cell_def Let_def set_rows_def gate_before_delete_def ownerValueForPK_def
      fun_upd_def cong: if_cong)

theorem refusals_have_no_effect_witness:
  "(journal_state None, not_found) =
      handleDelete (lite (\<lambda>_. False)) journal_server (get_request ''ann'' ''2'') (journal_state None) \<and>
   fst (handleDelete (lite (\<lambda>_. False)) journal_server (get_request ''ann'' ''2'') (journal_state None)) = journal_state None"
  using refusals_have_no_effect [where c = 404 and p = "ErrorBody (Msg ''not found'')"
      and st' = "fst (handleDelete (lite (\<lambda>_. False)) journal_server (get_request ''ann'' ''2'') (journal_state None))"
      and E = "lite (\<lambda>_. False)" and s = journal_server and r = "get_request ''ann'' ''2''" and st = "journal_state None"]
    delete_other by simp

section \<open>Who hears of a write\<close>

lemma publish_inbox:
  assumes "broker_ok b" and "bus st = Some b" and "(st', resp) = publish col ev0 ow resp0 st"
    and "bus st' = Some b'" and "ev \<in> set (inbox b' c)"
  shows "ev \<in> set (inbox b c) \<or> (ev = ev0 \<and> (ow = [] \<or> subject_of b c = Some ow))"
proof (cases "ReadRule col = RuleDenied \<or> Publish ev0 ow b = None")
  case True
  with assms(2,3) have "st' = st" by (auto simp: publish_def split: if_splits)
  with assms(2,4,5) show ?thesis by simp
next
  case False
  with assms(2-4) have "Publish ev0 ow b = Some b'" by (auto simp: publish_def split: option.splits)
  from rt.publish_box [OF this assms(1), of c] assms(5) show ?thesis by auto
qed

lemma ownerGateValue_text:
  "ReadRule col = RuleOwner \<Longrightarrow> OwnerColumn col \<noteq> [] \<Longrightarrow> map_of rec (OwnerColumn col) = Some (VText o') \<Longrightarrow>
     ownerGateValue E col rec = o'"
  by (simp add: ownerGateValue_def)


abbreviation two_listeners :: broker where
  "two_listeners \<equiv>
     \<lparr>subs = [''journal'' \<mapsto> {7, 8}],
      conns = [7 \<mapsto> \<lparr>Subject = ''ann'', events = [], closed = False\<rparr>,
               8 \<mapsto> \<lparr>Subject = ''bob'', events = [], closed = False\<rparr>],
      relay = False, outbox = []\<rparr>"

lemma two_listeners_ok: "broker_ok two_listeners"
  by (auto simp: broker_ok_def)

lemma two_listeners_inbox: "inbox two_listeners c = []"
  by (simp add: inbox_def)

abbreviation created_note :: row where
  "created_note \<equiv> note_row ''u1'' ''ann'' ''x''"

lemma Publish_to_ann:
  "Publish ev ''ann'' two_listeners =
     Some (if ev_collection ev = ''journal''
           then two_listeners\<lparr>conns := (conns two_listeners)(7 \<mapsto> \<lparr>Subject = ''ann'', events = [ev], closed = False\<rparr>)\<rparr>
           else two_listeners)"
  by (auto simp: Publish_def publishLocal_def recipients_def try_send_def Let_def fun_eq_iff split: option.splits)

lemma journal_columns:
  "Columns journal =
     [\<lparr>ColName = ''id'', DeclType = ''TEXT'', NotNull = False, IsPK = True\<rparr>,
      \<lparr>ColName = ''owner_id'', DeclType = ''TEXT'', NotNull = True, IsPK = False\<rparr>,
      \<lparr>ColName = ''body'', DeclType = ''TEXT'', NotNull = False, IsPK = False\<rparr>]"
  by (simp add: journal_def)

lemma create_note:
  "handleCreate (lite (\<lambda>_. False)) (\<lambda>_. DDone (JObj [(''owner_id'', JStr ''bob''), (''body'', JStr ''x'')]))
     ''u1'' journal_server (get_request ''ann'' []) (journal_state (Some two_listeners)) =
   ((set_rows ''journal'' [note_row ''1'' ''ann'' ''hi'', note_row ''2'' ''bob'' ''yo'', created_note]
      (journal_state (Some two_listeners)))\<lparr>bus := Some (two_listeners\<lparr>conns := (conns two_listeners)
        (7 \<mapsto> \<lparr>Subject = ''ann'', events = [record_event ''created'' journal created_note], closed = False\<rparr>)\<rparr>)\<rparr>,
    Reply 201 (Rec created_note))"
  by (simp add: handleCreate_def get_collection_def authorizeOp_def decode_journal stamp_owner_def stamp_key_def
      sql_insert_def new_row_def lite_def lite_conv_def rowid_alias_def cell_def Let_def fetchByPK_def scanRows_def
      matches_def ownerGateValue_def publish_def Publish_to_ann journal_columns)


text \<open>
  The gate of a delete: when the lookup of the row's owner fails, the event of the deleted
  row is not kept from everybody but handed to every subscriber of the collection, although
  its reads are restricted to the owner. Here \<open>bob\<close> hears of the deletion of \<open>ann\<close>'s row.
\<close>

theorem delete_event_reaches_everyone_on_lookup_failure:
  "\<exists>b'. bus (fst (handleDelete (lite (\<lambda>q. q = SelectOwner ''journal'')) journal_server (get_request ''ann'' ''1'')
        (journal_state (Some two_listeners)))) = Some b' \<and>
     snd (handleDelete (lite (\<lambda>q. q = SelectOwner ''journal'')) journal_server (get_request ''ann'' ''1'')
        (journal_state (Some two_listeners))) = Reply 204 NoBody \<and>
     subject_of b' 8 = Some ''bob'' \<and> inbox b' 8 = [deleted_event journal ''1'']"
proof -
  have "Publish (deleted_event journal ''1'') [] two_listeners =
      Some (two_listeners\<lparr>conns :=
        [7 \<mapsto> \<lparr>Subject = ''ann'', events = [deleted_event journal ''1''], closed = False\<rparr>,
         8 \<mapsto> \<lparr>Subject = ''bob'', events = [deleted_event journal ''1''], closed = False\<rparr>]\<rparr>)"
    by (auto simp: Publish_def publishLocal_def recipients_def try_send_def Let_def fun_eq_iff split: option.splits)
  then show ?thesis
    by (simp add: handleDelete_def get_collection_def authorizeOp_def sql_delete_def matches_def owner_cond_def
      lite_def lite_conv_def cell_def Let_def gate_before_delete_def ownerValueForPK_def publish_def
      inbox_def subject_of_def)
qed


section \<open>Integer keys that are not the row id\<close>

abbreviation ledger_schema :: schema where
  "ledger_schema \<equiv>
     \<lparr>sqlite_master = [''ledger''],
      info_of = (\<lambda>t. [(''id'', ''BIGINT'', 0, 1), (''owner_id'', ''TEXT'', 1, 0)]),
      policies = [], query_fails = (\<lambda>_. False)\<rparr>"

definition ledger :: Collection where
  "ledger =
     \<lparr>CollName = ''ledger'',
      Columns = [\<lparr>ColName = ''id'', DeclType = ''BIGINT'', NotNull = False, IsPK = True\<rparr>,
                 \<lparr>ColName = ''owner_id'', DeclType = ''TEXT'', NotNull = True, IsPK = False\<rparr>],
      PKColumn = ''id'', PKIsInteger = True, OwnerColumn = ''owner_id'',
      ReadRule = ''owner'', CreateRule = ''owner'', UpdateRule = ''owner'', DeleteRule = ''owner''\<rparr>"

lemma Discover_ledger: "Discover ledger_schema = Inr [(''ledger'', ledger)]"
  by (simp add: Discover_def isReserved_def reservedTables_def describeTable_def columnAffinity_def
      blank_collection_def ToUpper_def upper_char_def is_lower_def less_eq_char_nat Contains_def
      applyPolicies_def Let_def default_rules_def ledger_def)

lemma ledger_affinity:
  "col_affinity ledger ''id'' = INTEGER" "col_affinity ledger ''owner_id'' = TEXT"
  by (simp_all add: col_affinity_def ledger_def columnAffinity_def ToUpper_def upper_char_def is_lower_def
      less_eq_char_nat Contains_def Let_def)

lemma ledger_simps:
  "CollName ledger = ''ledger''" "PKColumn ledger = ''id''" "OwnerColumn ledger = ''owner_id''"
  "ReadRule ledger = ''owner''" "CreateRule ledger = ''owner''" "PKIsInteger ledger"
  "Columns ledger = [\<lparr>ColName = ''id'', DeclType = ''BIGINT'', NotNull = False, IsPK = True\<rparr>,
                 \<lparr>ColName = ''owner_id'', DeclType = ''TEXT'', NotNull = True, IsPK = False\<rparr>]"
  by (simp_all add: ledger_def)

text \<open>
  The key of a collection counts as an integer key whenever its declared type contains
  \<^verbatim>\<open>INT\<close>, but SQLite makes only \<^verbatim>\<open>INTEGER PRIMARY KEY\<close> an alias of the row id. On a table keyed
  by a \<^verbatim>\<open>BIGINT\<close>, a create answers with the row whose key happens to equal the new row id: here
  \<open>bob\<close> creates his row and is given \<open>ann\<close>'s record, on a collection whose reads are restricted
  to the owner.
\<close>

theorem create_answers_with_another_owners_row:
  "\<exists>E s r st. engine_ok E \<and> served s \<and> subject r = ''bob'' \<and>
     (\<exists>col. Get (registry s) (coll_param r) = Some col \<and> ReadRule col = RuleOwner) \<and>
     (\<exists>rec. snd (handleCreate E (\<lambda>_. DDone (JObj [])) ''u'' s r st) = Reply 201 (Rec rec) \<and>
        map_of rec ''owner_id'' = Some (VText ''ann''))"
proof -
  let ?s = "\<lparr>registry = [(''ledger'', ledger)], maxBodyBytes = 100, devMode = False\<rparr>"
  let ?r = "\<lparr>subject = ''bob'', coll_param = ''ledger'', id_param = [], limit_param = [], offset_param = [], req_body = []\<rparr>"
  let ?st = "\<lparr>tables = (\<lambda>_. [[(''id'', VInt 2), (''owner_id'', VText ''ann'')]]), bus = None\<rparr>"
  have "served ?s" unfolding served_def using Discover_ledger by auto
  moreover have "snd (handleCreate (lite (\<lambda>_. False)) (\<lambda>_. DDone (JObj [])) ''u'' ?s ?r ?st) =
      Reply 201 (Rec [(''id'', VInt 2), (''owner_id'', VText ''ann'')])"
    by (simp add: handleCreate_def get_collection_def Get_def authorizeOp_def decodeBody_def body_of_json_def
        stamp_owner_def stamp_key_def sql_insert_def new_row_def lite_def lite_conv_def rowid_alias_def lite_rowid_def
        cell_def Let_def fetchByPK_def scanRows_def matches_def publish_def ledger_simps ledger_affinity normalizeValue_def)
  ultimately show ?thesis
    by (intro exI [of _ "lite (\<lambda>_. False)"] exI [of _ ?s] exI [of _ ?r] exI [of _ ?st])
      (simp add: lite_ok Get_def ledger_simps)
qed

section \<open>Export and erasure of an account\<close>

lemma ownedCollections_iff:
  assumes "served s"
  shows "col \<in> set (ownedCollections (registry s)) \<longleftrightarrow>
    OwnerColumn col \<noteq> [] \<and> Get (registry s) (CollName col) = Some col"
proof -
  obtain sch where "Discover sch = Inr (registry s)" using assms by (auto simp: served_def)
  from Discover_ok [OF this] have ok: "registry_ok sch (registry s)" .
  then have "distinct (map fst (registry s))" "\<forall>(n, c) \<in> set (registry s). CollName c = n"
    by (auto simp: registry_ok_def described_def)
  then show ?thesis by (force simp: ownedCollections_def Get_def)
qed

lemma owned_text:
  assumes "served s" and "col \<in> set (ownedCollections (registry s))"
  shows "text_column col (OwnerColumn col)"
  using assms(2) served_Get(3) [OF assms(1)] ownedCollections_iff [OF assms(1)] by blast

lemma publish_deleted_tables:
  "publish_deleted col subj ids st = Some st' \<Longrightarrow> tables st' = tables st"
proof (induction ids arbitrary: st)
  case (Cons i ids)
  then show ?case
    using publish_tables [of col "deleted_event col i" subj "Reply 0 NoBody" st]
    by (auto split: prod.splits response.splits)
qed simp

definition bus_ok :: "api \<Rightarrow> bool" where
  "bus_ok st \<longleftrightarrow> (\<forall>b. bus st = Some b \<longrightarrow> broker_ok b)"

lemma publish_ok:
  assumes "bus_ok st"
  shows "snd (publish col ev ow resp st) = resp \<and> bus_ok (fst (publish col ev ow resp st))"
proof (cases "bus st")
  case None
  with assms show ?thesis by (simp add: publish_def)
next
  case (Some b)
  with assms obtain b' where "Publish ev ow b = Some b'" "broker_ok b'"
    using rt.publish_total rt.publish_invar by (metis bus_ok_def)
  with Some assms show ?thesis by (simp add: publish_def bus_ok_def)
qed

lemma publish_deleted_total:
  "bus_ok st \<Longrightarrow> \<exists>st'. publish_deleted col subj ids st = Some st' \<and> bus_ok st'"
proof (induction ids arbitrary: st)
  case (Cons i ids)
  let ?p = "publish col (deleted_event col i) subj (Reply 0 NoBody) st"
  have "?p = (fst ?p, Reply 0 NoBody)" "bus_ok (fst ?p)"
    using publish_ok [OF Cons.prems] by (metis prod.collapse, blast)
  then have "publish_deleted col subj (i # ids) st = publish_deleted col subj ids (fst ?p)"
    by (simp only: publish_deleted.simps prod.case response.case) (metis (no_types, lifting) prod.case response.case(1))
  with Cons.IH [OF \<open>bus_ok (fst ?p)\<close>] show ?case by simp
qed simp

definition erase_rows :: "Collection list \<Rightarrow> string \<Rightarrow> string \<Rightarrow> row list \<Rightarrow> row list" where
  "erase_rows cols subj n rows =
     filter (\<lambda>r. \<forall>c \<in> set cols. CollName c = n \<longrightarrow> \<not> owned_by c subj r) rows"

lemma erase_rows_Cons:
  "erase_rows (col # cols) subj n rows =
     erase_rows cols subj n (if CollName col = n then filter (\<lambda>r. \<not> owned_by col subj r) rows else rows)"
  by (auto simp: erase_rows_def intro: filter_cong)

text \<open>
  Each step of the erasure, also a failed one, has removed the subject's rows from some of the
  collections and nothing else.
\<close>

lemma delete_collections_tables:
  assumes "engine_ok E" and "\<forall>c \<in> set cols. text_column c (OwnerColumn c)"
    and "delete_collections E subj cols st = (st', res)"
  shows "\<exists>k. tables st' n = erase_rows (take k cols) subj n (tables st n) \<and> (res = Erased \<longrightarrow> k = length cols)"
  using assms(2,3)
proof (induction cols arbitrary: st)
  case Nil
  then show ?case by (simp add: erase_rows_def)
next
  case (Cons col cols)
  let ?rows = "filter (\<lambda>r. \<not> owned_by col subj r) (tables st (CollName col))"
  let ?st1 = "set_rows (CollName col) ?rows st"
  have del: "fst (sql_delete E col (tables st (CollName col)) [(OwnerColumn col, VText subj)]) = ?rows"
    using matches_owner [OF assms(1)] Cons.prems(1) by (simp add: sql_delete_def)
  show ?case
  proof (cases "st' = st \<and> res \<noteq> Erased")
    case True
    then show ?thesis by (intro exI [of _ 0]) (simp add: erase_rows_def)
  next
    case False
    with Cons.prems(2) obtain ids where ids: "\<not> eng_fail E (DeleteOwnedRows (CollName col))"
      "(if bus st = None then Inr [] else pkValuesForOwner E st col subj) = Inr ids"
      by (cases "if bus st = None then Inr [] else pkValuesForOwner E st col subj") (auto split: if_splits)
    then have step: "(case publish_deleted col subj ids ?st1 of None \<Rightarrow> (?st1, ErasePanicked)
        | Some st2 \<Rightarrow> delete_collections E subj cols st2) = (st', res)"
      using Cons.prems(2) by (simp only: delete_collections.simps ids sum.case if_False del Let_def)
    show ?thesis
    proof (cases "publish_deleted col subj ids ?st1")
      case None
      with step show ?thesis by (intro exI [of _ 1]) (auto simp: erase_rows_def)
    next
      case (Some st2)
      with step Cons.IH [of st2] Cons.prems(1) obtain k where
        k: "tables st' n = erase_rows (take k cols) subj n (tables st2 n)" "res = Erased \<longrightarrow> k = length cols" by auto
      with publish_deleted_tables [OF Some] show ?thesis
        by (intro exI [of _ "Suc k"]) (simp add: erase_rows_Cons)
    qed
  qed
qed

lemma delete_collections_total:
  assumes "\<forall>q. \<not> eng_fail E q" and "bus_ok st"
  shows "snd (delete_collections E subj cols st) = Erased"
  using assms(2)
proof (induction cols arbitrary: st)
  case (Cons col cols)
  let ?st1 = "set_rows (CollName col) (fst (sql_delete E col (tables st (CollName col)) [(OwnerColumn col, VText subj)])) st"
  have "bus_ok ?st1" using Cons.prems by (simp add: bus_ok_def)
  moreover obtain ids where
    ids: "(if bus st = None then Inr [] else pkValuesForOwner E st col subj) = Inr ids"
    using assms(1) by (cases "bus st = None") (simp_all add: pkValuesForOwner_def)
  ultimately obtain st2 where "publish_deleted col subj ids ?st1 = Some st2" "bus_ok st2"
    using publish_deleted_total by blast
  then have "delete_collections E subj (col # cols) st = delete_collections E subj cols st2"
    by (simp only: delete_collections.simps ids sum.case assms(1) [THEN spec] if_False Let_def option.case)
  with Cons.IH [OF \<open>bus_ok st2\<close>] show ?case by simp
qed simp

lemma erase_rows_owned:
  assumes "served s"
  shows "erase_rows (ownedCollections (registry s)) subj n rows =
    (case Get (registry s) n of
       None \<Rightarrow> rows
     | Some col \<Rightarrow> if OwnerColumn col = [] then rows else filter (\<lambda>r. \<not> owned_by col subj r) rows)"
proof (cases "Get (registry s) n")
  case None
  then show ?thesis by (auto simp: erase_rows_def ownedCollections_iff [OF assms] filter_id_conv)
next
  case (Some col)
  with served_Get(1) [OF assms Some] have
    "(\<forall>c \<in> set (ownedCollections (registry s)). CollName c = n \<longrightarrow> \<not> owned_by c subj r) \<longleftrightarrow>
       OwnerColumn col = [] \<or> \<not> owned_by col subj r" for r
    by (auto simp: ownedCollections_iff [OF assms])
  with Some show ?thesis by (simp add: erase_rows_def)
qed

lemma erase_rows_sub:
  "set cs \<subseteq> set cols \<Longrightarrow> erase_rows cols subj n (erase_rows cs subj n rows) = erase_rows cols subj n rows"
  by (auto simp: erase_rows_def intro!: filter_cong)

text \<open>
  Erasing an account with no failing statement succeeds and is exact: in every collection
  with an owner column precisely the subject's rows are gone, and every other collection and
  every other row is as before. A run that failed part way, for whatever reason, is completed by
  running it again: the outcome is the one of a single successful run.
\<close>

theorem erasure_exact_and_resumable:
  assumes "served s" and "engine_ok E" and "engine_ok E0" and "\<forall>q. \<not> eng_fail E0 q" and "bus_ok st"
    and "fst (DeleteOwned E s subj st) = st1" and "bus_ok st1"
  shows "snd (DeleteOwned E0 s subj st) = Erased \<and>
    tables (fst (DeleteOwned E0 s subj st)) n =
      (case Get (registry s) n of
         None \<Rightarrow> tables st n
       | Some col \<Rightarrow> if OwnerColumn col = [] then tables st n
                     else filter (\<lambda>r. \<not> owned_by col subj r) (tables st n)) \<and>
    snd (DeleteOwned E0 s subj st1) = Erased \<and>
    tables (fst (DeleteOwned E0 s subj st1)) n = tables (fst (DeleteOwned E0 s subj st)) n"
proof -
  let ?cols = "ownedCollections (registry s)"
  have tc: "\<forall>c \<in> set ?cols. text_column c (OwnerColumn c)" using owned_text [OF assms(1)] by blast
  have full: "snd (DeleteOwned E0 s subj x) = Erased \<and>
      tables (fst (DeleteOwned E0 s subj x)) n = erase_rows ?cols subj n (tables x n)" if "bus_ok x" for x
  proof -
    have "snd (DeleteOwned E0 s subj x) = Erased"
      unfolding DeleteOwned_def by (rule delete_collections_total [OF assms(4) that])
    moreover from this delete_collections_tables [OF assms(3) tc, of subj x "fst (DeleteOwned E0 s subj x)" Erased n]
    have "tables (fst (DeleteOwned E0 s subj x)) n = erase_rows ?cols subj n (tables x n)"
      by (auto simp: DeleteOwned_def) (metis prod.collapse order_refl take_all)
    ultimately show ?thesis by simp
  qed
  obtain k where "tables st1 n = erase_rows (take k ?cols) subj n (tables st n)"
    using delete_collections_tables [OF assms(2) tc, of subj st st1 _ n] assms(6)
    by (metis DeleteOwned_def prod.collapse)
  with full [OF assms(5)] full [OF assms(7)] erase_rows_sub [OF set_take_subset [of k ?cols]]
    erase_rows_owned [OF assms(1)]
  show ?thesis by simp
qed

theorem erasure_exact_and_resumable_witness:
  "let E = lite (\<lambda>q. q = DeleteOwnedRows ''journal''); E0 = lite (\<lambda>_. False); st = journal_state None;
       st1 = fst (DeleteOwned E journal_server ''ann'' st)
   in snd (DeleteOwned E journal_server ''ann'' st) = EraseFailed \<and>
      tables (fst (DeleteOwned E0 journal_server ''ann'' st1)) ''journal'' = [note_row ''2'' ''bob'' ''yo'']"
proof -
  let ?E = "lite (\<lambda>q. q = DeleteOwnedRows ''journal'')"
  have run: "DeleteOwned ?E journal_server ''ann'' (journal_state None) = (journal_state None, EraseFailed)"
    by (simp add: DeleteOwned_def ownedCollections_def lite_def)
  have nofail: "\<forall>q. \<not> eng_fail (lite (\<lambda>_. False)) q" by (simp add: lite_def)
  have b: "bus_ok (journal_state None)" by (simp add: bus_ok_def)
  from erasure_exact_and_resumable [OF served_journal lite_ok lite_ok nofail b refl, of "\<lambda>q. q = DeleteOwnedRows ''journal''" "''ann''" "''journal''"]
  show ?thesis by (simp add: run b owned_by_def cell_def)
qed

lemma export_collections_map:
  assumes "engine_ok E" and "\<forall>c \<in> set cols. text_column c (OwnerColumn c)"
    and "\<forall>c \<in> set cols. \<forall>d \<in> set cols. CollName c = CollName d \<longrightarrow> c = d"
    and "export_collections E subj st cols out = Inr out'"
  shows "map_of out' n =
    (if \<exists>c \<in> set cols. CollName c = n \<and> ReadRule c \<noteq> RuleDenied
     then Some (scanRows (filter (\<lambda>r. \<exists>c \<in> set cols. CollName c = n \<and> owned_by c subj r) (tables st n)))
     else map_of out n)"
  using assms(2-4)
proof (induction cols arbitrary: out)
  case (Cons col cols)
  show ?case
  proof (cases "ReadRule col = RuleDenied")
    case True
    with Cons have IH: "map_of out' n =
      (if \<exists>c \<in> set cols. CollName c = n \<and> ReadRule c \<noteq> RuleDenied
       then Some (scanRows (filter (\<lambda>r. \<exists>c \<in> set cols. CollName c = n \<and> owned_by c subj r) (tables st n)))
       else map_of out n)" by simp
    show ?thesis
    proof (cases "\<exists>c \<in> set cols. CollName c = n \<and> ReadRule c \<noteq> RuleDenied")
      case some: True
      then have "CollName col \<noteq> n" using True Cons.prems(2) by force
      with IH some show ?thesis by auto
    next
      case False
      with IH True show ?thesis by auto
    qed
  next
    case False
    let ?recs = "scanRows (filter (owned_by col subj) (tables st (CollName col)))"
    have sel: "filter (matches E col [(OwnerColumn col, VText subj)]) rows = filter (owned_by col subj) rows" for rows
      using matches_owner [OF assms(1)] Cons.prems(1) by (auto intro: filter_cong)
    have step: "export_collections E subj st cols (AList.update (CollName col) ?recs out) = Inr out'"
      using Cons.prems(3) False by (simp add: sel split: if_splits)
    have IH: "map_of out' n =
      (if \<exists>c \<in> set cols. CollName c = n \<and> ReadRule c \<noteq> RuleDenied
       then Some (scanRows (filter (\<lambda>r. \<exists>c \<in> set cols. CollName c = n \<and> owned_by c subj r) (tables st n)))
       else if n = CollName col then Some ?recs else map_of out n)"
      using Cons.IH [OF _ _ step] Cons.prems(1,2) by (auto simp: update_conv')
    show ?thesis
    proof (cases "CollName col = n")
      case True
      have one: "c = col" if "c \<in> set cols" "CollName c = n" for c using that True Cons.prems(2) by auto
      then have "(\<exists>c \<in> set (col # cols). CollName c = n \<and> owned_by c subj r) \<longleftrightarrow> owned_by col subj r" for r
        using True by auto
      moreover have "(\<exists>c \<in> set cols. CollName c = n \<and> owned_by c subj r) \<longleftrightarrow> owned_by col subj r"
        if "\<exists>c \<in> set cols. CollName c = n \<and> ReadRule c \<noteq> RuleDenied" for r
        using that one by blast
      ultimately show ?thesis using IH True False by auto
    next
      case other: False
      with IH show ?thesis by (auto split: if_splits)
    qed
  qed
qed simp

text \<open>
  C10. An export that succeeds is complete and exact: it has an entry for precisely the
  collections with an owner column whose reads are not disabled, and the entry is all rows of
  the subject there and no others.
\<close>

theorem export_exact:
  assumes "served s" and "engine_ok E" and "ExportOwned E s subj st = Inr out"
  shows "map_of out n =
    (case Get (registry s) n of
       None \<Rightarrow> None
     | Some col \<Rightarrow> if OwnerColumn col = [] \<or> ReadRule col = RuleDenied then None
                   else Some (scanRows (filter (owned_by col subj) (tables st n))))"
proof -
  let ?cols = "ownedCollections (registry s)"
  have tc: "\<forall>c \<in> set ?cols. text_column c (OwnerColumn c)" using owned_text [OF assms(1)] by blast
  have inj: "\<forall>c \<in> set ?cols. \<forall>d \<in> set ?cols. CollName c = CollName d \<longrightarrow> c = d"
    by (auto simp: ownedCollections_iff [OF assms(1)])
  have out: "map_of out n =
    (if \<exists>c \<in> set ?cols. CollName c = n \<and> ReadRule c \<noteq> RuleDenied
     then Some (scanRows (filter (\<lambda>r. \<exists>c \<in> set ?cols. CollName c = n \<and> owned_by c subj r) (tables st n)))
     else None)"
    using export_collections_map [OF assms(2) tc inj assms(3) [unfolded ExportOwned_def]] by simp
  show ?thesis
  proof (cases "Get (registry s) n")
    case None
    then have "\<not> (\<exists>c \<in> set ?cols. CollName c = n)" by (auto simp: ownedCollections_iff [OF assms(1)])
    with None out show ?thesis by auto
  next
    case (Some col)
    have "(c \<in> set ?cols \<and> CollName c = n) \<longleftrightarrow> (c = col \<and> OwnerColumn col \<noteq> [])" for c
      using Some served_Get(1) [OF assms(1) Some] by (auto simp: ownedCollections_iff [OF assms(1)])
    then have
      "(\<exists>c \<in> set ?cols. CollName c = n \<and> P c) \<longleftrightarrow> OwnerColumn col \<noteq> [] \<and> P col" for P
      unfolding Bex_def by (metis (no_types, lifting))
    with out Some show ?thesis by auto
  qed
qed

theorem export_exact_witness:
  "\<exists>out. ExportOwned (lite (\<lambda>_. False)) journal_server ''ann'' (journal_state None) = Inr out \<and>
     map_of out ''journal'' = Some [note_row ''1'' ''ann'' ''hi'']"
proof -
  obtain out where run: "ExportOwned (lite (\<lambda>_. False)) journal_server ''ann'' (journal_state None) = Inr out"
    by (simp add: ExportOwned_def ownedCollections_def lite_def)
  from export_exact [OF served_journal lite_ok run, of "''journal''"] run show ?thesis
    by (simp add: owned_by_def cell_def scanRows_def)
qed

section \<open>Listing in pages\<close>

definition page :: "response \<Rightarrow> row list" where
  "page resp = (case resp of Reply _ (Recs rs _ _) \<Rightarrow> rs | _ \<Rightarrow> [])"

definition visible :: "engine \<Rightarrow> Collection \<Rightarrow> string \<Rightarrow> api \<Rightarrow> row list" where
  "visible E col subj st =
     filter (matches E col (owner_cond (ReadRule col = RuleOwner) col subj)) (tables st (CollName col))"

lemma parsePagination_bounds:
  "parsePagination r = Inr (limit, offset) \<Longrightarrow> 1 \<le> limit \<and> limit \<le> maxLimit \<and> 0 \<le> offset"
  by (auto simp: parsePagination_def Let_def split: if_splits option.splits sum.splits)

lemma parsePagination_Itoa:
  "1 \<le> k \<Longrightarrow> k \<le> maxLimit \<Longrightarrow> 0 \<le> off \<Longrightarrow> off < 2 ^ 63 \<Longrightarrow>
     parsePagination (r\<lparr>limit_param := Itoa k, offset_param := Itoa off\<rparr>) = Inr (k, off)"
  by (simp add: parsePagination_def Atoi_Itoa)

lemma concat_pages: "concat (map (\<lambda>i. take k (drop (i * k) xs)) [0..<m]) = take (m * k) xs"
proof (induction m)
  case (Suc m)
  have "take (Suc m * k) xs = take (m * k) xs @ take k (drop (m * k) xs)"
    by (metis mult_Suc add.commute take_add)
  with Suc show ?case by simp
qed simp

lemma scanRows_concat: "concat (map (\<lambda>i. scanRows (f i)) is) = scanRows (concat (map f is))"
  by (induction "is") (simp_all add: scanRows_def)

text \<open>
  A list never returns more than the largest page, whatever the client asks for, and
  asking for pages of \<open>k\<close> rows at the offsets \<open>0\<close>, \<open>k\<close>, \<open>2 k\<close>, \<open>\<dots>\<close> yields every visible row exactly
  once and in order: the first \<open>m\<close> pages together are the first \<open>m * k\<close> rows.
\<close>

theorem list_pages:
  assumes "Get (registry s) (coll_param r) = Some col" and "ReadRule col \<noteq> RuleDenied"
    and "\<not> eng_fail E (SelectList (CollName col))"
    and "1 \<le> k" and "int k \<le> maxLimit" and "int m * int k \<le> 2 ^ 63"
  shows "length (page (handleList E s r st)) \<le> 200 \<and>
    concat (map (\<lambda>i. page (handleList E s (r\<lparr>limit_param := Itoa (int k), offset_param := Itoa (int (i * k))\<rparr>) st)) [0..<m]) =
      scanRows (take (m * k) (visible E col (subject r) st))"
proof
  show "length (page (handleList E s r st)) \<le> 200"
    using assms(1-3) parsePagination_bounds [of r]
    by (fastforce simp: handleList_def get_collection_def authorizeOp_def page_def scanRows_def Let_def min_def
        split: sum.splits)
  have one: "page (handleList E s (r\<lparr>limit_param := Itoa (int k), offset_param := Itoa (int (i * k))\<rparr>) st) =
      scanRows (take k (drop (i * k) (visible E col (subject r) st)))" if "i < m" for i
  proof -
    have "int (i * k) < int m * int k" using that assms(4) by simp
    with assms(6) have "int (i * k) < 2 ^ 63" by linarith
    with parsePagination_Itoa [of "int k" "int (i * k)" r] assms(4,5)
    have "parsePagination (r\<lparr>limit_param := Itoa (int k), offset_param := Itoa (int (i * k))\<rparr>) = Inr (int k, int (i * k))"
      by simp
    moreover have "get_collection s (r\<lparr>limit_param := Itoa (int k), offset_param := Itoa (int (i * k))\<rparr>) = Inr col"
      using assms(1) by (simp add: get_collection_def)
    ultimately show ?thesis
      using assms(2,3) unfolding handleList_def by (simp add: authorizeOp_def page_def visible_def nat_mult_distrib)
  qed
  have "concat (map (\<lambda>i. page (handleList E s (r\<lparr>limit_param := Itoa (int k), offset_param := Itoa (int (i * k))\<rparr>) st)) [0..<m])
      = concat (map (\<lambda>i. scanRows (take k (drop (i * k) (visible E col (subject r) st)))) [0..<m])"
    by (intro arg_cong [of _ _ concat] map_cong refl) (rule one, simp)
  also have "\<dots> = scanRows (take (m * k) (visible E col (subject r) st))"
    by (simp add: scanRows_concat concat_pages)
  finally show "concat (map (\<lambda>i. page (handleList E s (r\<lparr>limit_param := Itoa (int k), offset_param := Itoa (int (i * k))\<rparr>) st)) [0..<m]) =
      scanRows (take (m * k) (visible E col (subject r) st))" .
qed

theorem list_pages_witness:
  "concat (map (\<lambda>i. page (handleList (lite (\<lambda>_. False)) journal_server
      ((get_request ''ann'' [])\<lparr>limit_param := Itoa (int 1), offset_param := Itoa (int (i * 1))\<rparr>) (journal_state None))) [0..<3]) =
   scanRows (take (3 * 1) (visible (lite (\<lambda>_. False)) journal ''ann'' (journal_state None)))"
  using list_pages [where s = journal_server and r = "get_request ''ann'' []" and col = journal
      and E = "lite (\<lambda>_. False)" and k = 1 and m = 3 and st = "journal_state None"]
  by (simp add: lite_def)

end
