(* ===== verification/Admin_Data.thy ===== *)
theory Admin_Data
  imports Data_API "HOL-Library.Product_Lexorder" "HOL-Library.Multiset"
begin

text \<open>
  The data browser's side of the data API: \<^verbatim>\<open>internal/restapi/admin.go\<close>. Rows are listed, read
  and written without regard to owners and policies; writes are published like the customer's.
  \<open>AdminCreateTable\<close> validates its input, issues the \<^verbatim>\<open>CREATE TABLE\<close> and re-runs discovery; the
  database's reaction to the statement is a parameter.
\<close>

section \<open>Listing in order\<close>

fun insert_by :: "('a \<Rightarrow> 'a \<Rightarrow> bool) \<Rightarrow> 'a \<Rightarrow> 'a list \<Rightarrow> 'a list" where
  "insert_by R x [] = [x]"
| "insert_by R x (y # ys) = (if R x y then x # y # ys else y # insert_by R x ys)"

definition sort_by :: "('a \<Rightarrow> 'a \<Rightarrow> bool) \<Rightarrow> 'a list \<Rightarrow> 'a list" where
  "sort_by R xs = foldr (insert_by R) xs []"

definition order_column :: "Collection \<Rightarrow> string \<Rightarrow> string" where
  "order_column col sortCol = (if HasColumn col sortCol then sortCol else PKColumn col)"

definition EqualFold :: "string \<Rightarrow> string \<Rightarrow> bool" where
  "EqualFold s t \<longleftrightarrow> ToLower s = ToLower t"

text \<open>The \<^verbatim>\<open>ORDER BY\<close> clause as a relation on rows; \<open>le\<close> is the engine's order of values.\<close>

definition order_rel :: "(val \<Rightarrow> val \<Rightarrow> bool) \<Rightarrow> Collection \<Rightarrow> string \<Rightarrow> string \<Rightarrow> row \<Rightarrow> row \<Rightarrow> bool" where
  "order_rel le col sortCol sortDir a b =
     (let k = order_column col sortCol;
          x = cell a k; y = cell b k;
          before = (if EqualFold sortDir ''desc'' then le y x else le x y)
      in if k = PKColumn col then before
         else if x = y then le (cell a (PKColumn col)) (cell b (PKColumn col)) else before)"

definition AdminListRows :: "engine \<Rightarrow> (val \<Rightarrow> val \<Rightarrow> bool) \<Rightarrow> Collection \<Rightarrow> nat \<Rightarrow> nat \<Rightarrow> string \<Rightarrow> string \<Rightarrow> api
    \<Rightarrow> string + row list" where
  "AdminListRows E le col limit offset sortCol sortDir st =
     (if eng_fail E (SelectOrdered (CollName col)) then Inl ''list rows''
      else Inr (scanRows (take limit (drop offset
             (sort_by (order_rel le col sortCol sortDir) (tables st (CollName col)))))))"

definition AdminCountRows :: "engine \<Rightarrow> Collection \<Rightarrow> api \<Rightarrow> string + nat" where
  "AdminCountRows E col st =
     (if eng_fail E (SelectCount (CollName col)) then Inl ''count rows''
      else Inr (length (tables st (CollName col))))"


section \<open>Rows\<close>

datatype admin_error = AdminNoRows | AdminQuery | InsertRow string | ReadInsertedId | UpdateRow string | DeleteRowFailed | AdminPanic

definition AdminCollections :: "server \<Rightarrow> Collection list" where
  "AdminCollections s = All (registry s)"

definition AdminCollection :: "server \<Rightarrow> string \<Rightarrow> Collection option" where
  "AdminCollection s name = Get (registry s) name"

definition AdminGetRow :: "engine \<Rightarrow> Collection \<Rightarrow> val \<Rightarrow> api \<Rightarrow> admin_error + row" where
  "AdminGetRow E col pkValue st =
     (case fetchByPK E st col pkValue False [] of
        Inl ErrNoRows \<Rightarrow> Inl AdminNoRows | Inl QueryFailed \<Rightarrow> Inl AdminQuery | Inr r \<Rightarrow> Inr r)"

definition admin_publish :: "Collection \<Rightarrow> event \<Rightarrow> string \<Rightarrow> 'a \<Rightarrow> api \<Rightarrow> api \<times> (admin_error + 'a)" where
  "admin_publish col ev ow x st =
     (case publish col ev ow (Reply 0 NoBody) st of
        (st', Aborted) \<Rightarrow> (st', Inl AdminPanic) | (st', Reply _ _) \<Rightarrow> (st', Inr x))"

definition AdminCreateRow :: "engine \<Rightarrow> string \<Rightarrow> Collection \<Rightarrow> cells \<Rightarrow> api \<Rightarrow> api \<times> (admin_error + row)" where
  "AdminCreateRow E uuid col body0 st =
     (let body = stamp_key col uuid body0
      in case sql_insert E col (tables st (CollName col)) body of
           Inl msg \<Rightarrow> (st, Inl (InsertRow msg))
         | Inr (rows, rowid) \<Rightarrow>
             (let st' = set_rows (CollName col) rows st
              in if PKIsInteger col \<and> eng_fail E (LastInsertId (CollName col)) then (st', Inl ReadInsertedId)
                 else (case AdminGetRow E col (if PKIsInteger col then VInt rowid else cell body (PKColumn col)) st' of
                         Inl e \<Rightarrow> (st', Inl e)
                       | Inr record \<Rightarrow>
                           admin_publish col (record_event ''created'' col record) (ownerGateValue E col record) record st')))"

definition AdminUpdateRow :: "engine \<Rightarrow> Collection \<Rightarrow> val \<Rightarrow> cells \<Rightarrow> api \<Rightarrow> api \<times> (admin_error + row)" where
  "AdminUpdateRow E col pkValue body0 st =
     (let body = AList.delete (PKColumn col) body0
      in if body = [] then (st, AdminGetRow E col pkValue st)
         else (case sql_update E col (tables st (CollName col)) body [(PKColumn col, pkValue)] of
                 Inl msg \<Rightarrow> (st, Inl (UpdateRow msg))
               | Inr (rows, n) \<Rightarrow>
                   (let st' = set_rows (CollName col) rows st
                    in case AdminGetRow E col pkValue st' of
                         Inl e \<Rightarrow> (st', Inl e)
                       | Inr record \<Rightarrow>
                           admin_publish col (record_event ''updated'' col record) (ownerGateValue E col record) record st')))"

definition AdminDeleteRow :: "engine \<Rightarrow> Collection \<Rightarrow> val \<Rightarrow> api \<Rightarrow> api \<times> (admin_error + unit)" where
  "AdminDeleteRow E col pkValue st =
     (let gateVal = gate_before_delete E st col pkValue
      in if eng_fail E (Delete (CollName col)) then (st, Inl DeleteRowFailed)
         else (case sql_delete E col (tables st (CollName col)) [(PKColumn col, pkValue)] of
                 (rows, n) \<Rightarrow>
                   (let st' = set_rows (CollName col) rows st
                    in if n = 0 then (st', Inl AdminNoRows)
                       else admin_publish col (deleted_event col (Sprint (eng_ftoa E) pkValue)) gateVal () st')))"


section \<open>Creating a table\<close>

definition identifierRe :: "string \<Rightarrow> bool" where
  "identifierRe s \<longleftrightarrow> (case s of [] \<Rightarrow> False
     | c # t \<Rightarrow> is_lower c \<and> list_all (\<lambda>d. is_lower d \<or> is_digit d \<or> d = CHR ''_'') t)"

definition AdminAllowedColumnTypes :: "string list" where
  "AdminAllowedColumnTypes = [''TEXT'', ''INTEGER'', ''REAL'']"

definition isAllowedColumnType :: "string \<Rightarrow> bool" where
  "isAllowedColumnType t = list_ex (\<lambda>a. a = t) AdminAllowedColumnTypes"

record AdminColumnDef =
  DefName :: string
  DefType :: string
  Required :: bool

datatype table_error =
    BadTableName string | ReservedName string | BadColumnName string | DuplicateColumn string
  | UnsupportedType string string | CreateFailed string | ReloadFailed reg_error

text \<open>One column of the \<^verbatim>\<open>CREATE TABLE\<close> statement: its name, its type, and what follows the type.\<close>

type_synonym coldef = "string \<times> string \<times> string"

fun column_defs :: "AdminColumnDef list \<Rightarrow> string list \<Rightarrow> coldef list \<Rightarrow> table_error + coldef list" where
  "column_defs [] seen defs = Inr defs"
| "column_defs (c # cs) seen defs =
     (if DefName c = [] then column_defs cs seen defs
      else if \<not> identifierRe (DefName c) then Inl (BadColumnName (DefName c))
      else if DefName c \<in> set seen then Inl (DuplicateColumn (DefName c))
      else if \<not> isAllowedColumnType (DefType c) then Inl (UnsupportedType (DefName c) (DefType c))
      else column_defs cs (DefName c # seen)
             (defs @ [(DefName c, DefType c, if Required c then '' NOT NULL'' else [])]))"

definition base_defs :: "bool \<Rightarrow> coldef list" where
  "base_defs ownerScoped =
     (''id'', ''TEXT'', '' PRIMARY KEY'') # (if ownerScoped then [(OwnerColumnName, ''TEXT'', '' NOT NULL'')] else [])"

definition ReloadSchema :: "schema \<Rightarrow> server \<Rightarrow> reg_error + server" where
  "ReloadSchema sch s = (case Discover sch of Inl e \<Rightarrow> Inl e | Inr reg \<Rightarrow> Inr (s\<lparr>registry := reg\<rparr>))"

definition AdminCreateTable :: "(string \<Rightarrow> coldef list \<Rightarrow> schema \<Rightarrow> string + schema) \<Rightarrow> string \<Rightarrow> bool \<Rightarrow> AdminColumnDef list
    \<Rightarrow> schema \<times> server \<Rightarrow> (schema \<times> server) \<times> (table_error + unit)" where
  "AdminCreateTable exec name ownerScoped columns st =
     (if \<not> identifierRe name then (st, Inl (BadTableName name))
      else if isReserved name then (st, Inl (ReservedName name))
      else (case column_defs columns (''id'' # (if ownerScoped then [OwnerColumnName] else [])) (base_defs ownerScoped) of
              Inl e \<Rightarrow> (st, Inl e)
            | Inr defs \<Rightarrow>
                (case exec name defs (fst st) of
                   Inl msg \<Rightarrow> (st, Inl (CreateFailed msg))
                 | Inr sch \<Rightarrow>
                     (case ReloadSchema sch (snd st) of
                        Inl e \<Rightarrow> ((sch, snd st), Inl (ReloadFailed e))
                      | Inr s \<Rightarrow> ((sch, s), Inr ())))))"


section \<open>A page of the browser is well defined\<close>

definition value_order :: "(val \<Rightarrow> val \<Rightarrow> bool) \<Rightarrow> bool" where
  "value_order le \<longleftrightarrow> (\<forall>a b. le a b \<or> le b a) \<and> (\<forall>a b c. le a b \<longrightarrow> le b c \<longrightarrow> le a c) \<and>
     (\<forall>a b. le a b \<longrightarrow> le b a \<longrightarrow> a = b)"

lemma mset_insert_by [simp]: "mset (insert_by R x ys) = add_mset x (mset ys)"
  by (induction ys) auto

lemma mset_sort_by [simp]: "mset (sort_by R xs) = mset xs"
  by (induction xs) (simp_all add: sort_by_def)

lemma set_insert_by [simp]: "set (insert_by R x ys) = insert x (set ys)"
  by (induction ys) auto

lemma sorted_insert_by:
  assumes "\<And>a b. R a b \<or> R b a" and "\<And>a b c. R a b \<Longrightarrow> R b c \<Longrightarrow> R a c" and "sorted_wrt R ys"
  shows "sorted_wrt R (insert_by R x ys)"
  using assms(3)
proof (induction ys)
  case (Cons y ys)
  then show ?case using assms(1) [of x y] assms(2) by auto
qed simp

lemma sorted_sort_by:
  assumes "\<And>a b. R a b \<or> R b a" and "\<And>a b c. R a b \<Longrightarrow> R b c \<Longrightarrow> R a c"
  shows "sorted_wrt R (sort_by R xs)"
  using sorted_insert_by [of R, OF assms] by (induction xs) (simp_all add: sort_by_def)

lemma sorted_unique:
  assumes "sorted_wrt R xs" and "sorted_wrt R ys" and "mset xs = mset ys"
    and "\<And>a b. a \<in> set xs \<Longrightarrow> b \<in> set xs \<Longrightarrow> R a b \<Longrightarrow> R b a \<Longrightarrow> a = b"
  shows "xs = ys"
  using assms
proof (induction xs arbitrary: ys)
  case (Cons x xs)
  then obtain y zs where ys: "ys = y # zs" by (cases ys) auto
  have sets: "set (x # xs) = set (y # zs)" using Cons.prems(3) ys by (metis mset_eq_setD)
  have "x = y"
  proof (rule ccontr)
    assume ne: "x \<noteq> y"
    then have "y \<in> set xs" "x \<in> set zs" using sets by auto
    then have "R x y" "R y x" using Cons.prems(1,2) ys by auto
    with Cons.prems(4) [of x y] \<open>y \<in> set xs\<close> ne show False by simp
  qed
  with Cons ys show ?case by auto
qed simp

lemma value_order_converse: "value_order le \<Longrightarrow> value_order (\<lambda>a b. le b a)"
  unfolding value_order_def by blast

lemma order_rel_lex:
  assumes "value_order le"
  obtains L k where "value_order L"
    and "\<And>a b. order_rel le col sc sd a b \<longleftrightarrow>
      (if k = PKColumn col then L (cell a k) (cell b k)
       else if cell a k = cell b k then le (cell a (PKColumn col)) (cell b (PKColumn col)) else L (cell a k) (cell b k))"
proof (cases "EqualFold sd ''desc''")
  case True
  then show ?thesis
    by (intro that [of "\<lambda>a b. le b a" "order_column col sc"] value_order_converse [OF assms])
      (simp add: order_rel_def Let_def)
next
  case False
  then show ?thesis
    by (intro that [of le "order_column col sc"] assms) (simp add: order_rel_def Let_def)
qed

lemma order_rel_order:
  assumes "value_order le"
  shows "order_rel le col sc sd a b \<or> order_rel le col sc sd b a"
    and "order_rel le col sc sd a b \<Longrightarrow> order_rel le col sc sd b c \<Longrightarrow> order_rel le col sc sd a c"
    and "order_rel le col sc sd a b \<Longrightarrow> order_rel le col sc sd b a \<Longrightarrow> cell a (PKColumn col) = cell b (PKColumn col)"
proof -
  obtain L k where L: "value_order L" and rel: "\<And>a b. order_rel le col sc sd a b \<longleftrightarrow>
      (if k = PKColumn col then L (cell a k) (cell b k)
       else if cell a k = cell b k then le (cell a (PKColumn col)) (cell b (PKColumn col)) else L (cell a k) (cell b k))"
    using order_rel_lex [OF assms] by blast
  have tot: "L x y \<or> L y x" "le x y \<or> le y x" and anti: "L x y \<Longrightarrow> L y x \<Longrightarrow> x = y" "le x y \<Longrightarrow> le y x \<Longrightarrow> x = y"
    and tr: "L x y \<Longrightarrow> L y z \<Longrightarrow> L x z" "le x y \<Longrightarrow> le y z \<Longrightarrow> le x z" for x y z
    using L assms unfolding value_order_def by blast+
  show "order_rel le col sc sd a b \<or> order_rel le col sc sd b a"
    unfolding rel using tot by auto
  show "order_rel le col sc sd a c" if "order_rel le col sc sd a b" "order_rel le col sc sd b c"
  proof (cases "k = PKColumn col")
    case True
    with that tr(1) show ?thesis unfolding rel by simp
  next
    case False
    show ?thesis
    proof (cases "cell a k = cell b k \<or> cell b k = cell c k")
      case True
      with False that tr(2) show ?thesis unfolding rel by auto
    next
      case ne: False
      with False that have "L (cell a k) (cell b k)" "L (cell b k) (cell c k)" unfolding rel by simp_all
      moreover from this have "cell a k \<noteq> cell c k" using anti(1) ne by metis
      ultimately show ?thesis using False tr(1) unfolding rel by simp
    qed
  qed
  show "cell a (PKColumn col) = cell b (PKColumn col)" if "order_rel le col sc sd a b" "order_rel le col sc sd b a"
    using that unfolding rel by (auto split: if_splits dest: anti)
qed

text \<open>
  The primary key as the last sort key makes every page of the data browser well defined:
  for any sort column and direction, two databases that hold the same rows in whatever scan
  order, no two with the same key, give the same page.
\<close>

theorem admin_pages_well_defined:
  assumes "value_order le" and "mset (tables st (CollName col)) = mset (tables st' (CollName col))"
    and "distinct (map (\<lambda>r. cell r (PKColumn col)) (tables st (CollName col)))"
  shows "AdminListRows E le col limit offset sortCol sortDir st = AdminListRows E le col limit offset sortCol sortDir st'"
proof -
  let ?R = "order_rel le col sortCol sortDir"
  have anti: "a = b" if "a \<in> set (tables st (CollName col))" "b \<in> set (tables st (CollName col))" "?R a b" "?R b a" for a b
    using that order_rel_order(3) [OF assms(1)] assms(3) by (metis (no_types, lifting) distinct_map inj_onD)
  have "sort_by ?R (tables st (CollName col)) = sort_by ?R (tables st' (CollName col))"
  proof (rule sorted_unique [of ?R])
    show "sorted_wrt ?R (sort_by ?R (tables st (CollName col)))" "sorted_wrt ?R (sort_by ?R (tables st' (CollName col)))"
      using sorted_sort_by [of ?R] order_rel_order(1,2) [OF assms(1)] by blast+
    show "mset (sort_by ?R (tables st (CollName col))) = mset (sort_by ?R (tables st' (CollName col)))"
      using assms(2) by simp
    show "a = b" if "a \<in> set (sort_by ?R (tables st (CollName col)))" "b \<in> set (sort_by ?R (tables st (CollName col)))"
      "?R a b" "?R b a" for a b
      using that anti by (metis mset_eq_setD mset_sort_by)
  qed
  then show ?thesis by (simp add: AdminListRows_def)
qed

fun val_key :: "val \<Rightarrow> nat \<times> int \<times> string" where
  "val_key VNull = (0, 0, [])"
| "val_key (VBool b) = (1, of_bool b, [])"
| "val_key (VInt i) = (2, i, [])"
| "val_key (VFloat f) = (3, uint f, [])"
| "val_key (VText s) = (4, 0, s)"
| "val_key (VBytes s) = (5, 0, s)"

lemma val_key_inj: "val_key a = val_key b \<Longrightarrow> a = b"
  by (cases a; cases b) (auto simp: word_uint_eq_iff)

lemma val_key_order: "value_order (\<lambda>a b. val_key a \<le> val_key b)"
  unfolding value_order_def using val_key_inj by (meson linear order_trans antisym)

theorem admin_pages_well_defined_witness:
  "AdminListRows (lite (\<lambda>_. False)) (\<lambda>a b. val_key a \<le> val_key b) journal 1 0 ''body'' ''DESC'' (journal_state None) =
   AdminListRows (lite (\<lambda>_. False)) (\<lambda>a b. val_key a \<le> val_key b) journal 1 0 ''body'' ''DESC''
     ((journal_state None)\<lparr>tables := (\<lambda>_. [note_row ''2'' ''bob'' ''yo'', note_row ''1'' ''ann'' ''hi''])\<rparr>)"
  by (rule admin_pages_well_defined [OF val_key_order]) (simp_all add: cell_def add_mset_commute)

section \<open>Tables created from the browser\<close>

text \<open>What SQLite does with the \<^verbatim>\<open>CREATE TABLE\<close> statements this code issues.\<close>

definition info_row :: "coldef \<Rightarrow> string \<times> string \<times> int \<times> int" where
  "info_row d = (case d of (n, ty, suffix) \<Rightarrow>
     (n, ty, if suffix = '' NOT NULL'' then 1 else 0, if suffix = '' PRIMARY KEY'' then 1 else 0))"

definition add_table :: "string \<Rightarrow> coldef list \<Rightarrow> schema \<Rightarrow> schema" where
  "add_table name defs sch =
     sch\<lparr>sqlite_master := sqlite_master sch @ [name], info_of := (info_of sch)(name := map info_row defs)\<rparr>"

definition creates :: "(string \<Rightarrow> coldef list \<Rightarrow> schema \<Rightarrow> string + schema) \<Rightarrow> bool" where
  "creates exec \<longleftrightarrow> (\<forall>name defs sch sch'. exec name defs sch = Inr sch' \<longrightarrow>
     name \<notin> set (sqlite_master sch) \<and> sch' = add_table name defs sch)"

lemma column_defs_Inr:
  "column_defs cs seen defs = Inr defs' \<Longrightarrow>
     \<exists>more. defs' = defs @ more \<and> fst ` set more = {n. n \<noteq> [] \<and> (\<exists>c \<in> set cs. DefName c = n)} \<and>
       (\<forall>(n, ty, suf) \<in> set more. n \<notin> set seen \<and> ty \<in> set AdminAllowedColumnTypes \<and> suf \<noteq> '' PRIMARY KEY'')"
proof (induction cs arbitrary: seen defs)
  case (Cons c cs)
  show ?case
  proof (cases "DefName c = []")
    case True
    with Cons.IH [of seen defs] Cons.prems show ?thesis by fastforce
  next
    case False
    let ?d = "(DefName c, DefType c, if Required c then '' NOT NULL'' else [])"
    have step: "DefName c \<notin> set seen" "DefType c \<in> set AdminAllowedColumnTypes"
      "column_defs cs (DefName c # seen) (defs @ [?d]) = Inr defs'"
      using Cons.prems False by (auto simp: isAllowedColumnType_def list_ex_iff split: if_splits)
    from Cons.IH [OF step(3)] obtain more where more: "defs' = (defs @ [?d]) @ more"
      "fst ` set more = {n. n \<noteq> [] \<and> (\<exists>c \<in> set cs. DefName c = n)}"
      "\<forall>(n, ty, suf) \<in> set more. n \<notin> set (DefName c # seen) \<and> ty \<in> set AdminAllowedColumnTypes \<and> suf \<noteq> '' PRIMARY KEY''"
      by blast
    with step(1,2) False show ?thesis by (intro exI [of _ "?d # more"]) (auto split: if_splits)
  qed
qed simp

lemma Discover_exposes_new:
  assumes "Discover (add_table name defs sch) = Inr reg" and "\<not> isReserved name"
    and "filter IsPK (map (mk_column \<circ> info_row) defs) = [p]" and "ColName p \<noteq> []"
  shows "\<exists>col. Get reg name = Some col \<and> described (add_table name defs sch) name col"
proof -
  have "single_pk (add_table name defs sch) name"
    using assms(3,4) by (simp add: single_pk_def table_columns_def add_table_def)
  then have "Get reg name \<noteq> None"
    using assms(1,2) Discover_Get_iff [of "add_table name defs sch" reg name] by (simp add: add_table_def)
  then show ?thesis using registry_okD(1) [OF Discover_ok [OF assms(1)]] by blast
qed

text \<open>
  When creating a table from the browser reports success, the table is live at once: the
  registry in force has a collection of that name, keyed by the text column \<^verbatim>\<open>id\<close>, which has an
  owner column just when it was asked for or one was named among the columns.
\<close>

theorem created_table_is_live:
  assumes "creates exec" and "AdminCreateTable exec name ownerScoped columns (sch, s) = ((sch', s'), Inr ())"
  shows "\<exists>col. Get (registry s') name = Some col \<and> PKColumn col = ''id'' \<and> \<not> PKIsInteger col \<and>
     (OwnerColumn col = OwnerColumnName \<longleftrightarrow> ownerScoped \<or> (\<exists>c \<in> set columns. DefName c = OwnerColumnName))"
proof -
  let ?seen = "''id'' # (if ownerScoped then [OwnerColumnName] else [])"
  obtain defs reg where d: "\<not> isReserved name" "column_defs columns ?seen (base_defs ownerScoped) = Inr defs"
    "exec name defs sch = Inr sch'" "Discover sch' = Inr reg" "registry s' = reg"
    using assms(2) by (auto simp: AdminCreateTable_def ReloadSchema_def split: if_splits sum.splits)
  have sch': "sch' = add_table name defs sch" using assms(1) d(3) by (auto simp: creates_def)
  obtain more where more: "defs = base_defs ownerScoped @ more"
    "fst ` set more = {n. n \<noteq> [] \<and> (\<exists>c \<in> set columns. DefName c = n)}"
    "\<forall>(n, ty, suf) \<in> set more. n \<notin> set ?seen \<and> ty \<in> set AdminAllowedColumnTypes \<and> suf \<noteq> '' PRIMARY KEY''"
    using column_defs_Inr [OF d(2)] by blast
  let ?p = "\<lparr>ColName = ''id'', DeclType = ''TEXT'', NotNull = False, IsPK = True\<rparr>"
  have "filter IsPK (map (mk_column \<circ> info_row) more) = []"
    using more(3) by (auto simp: filter_empty_conv mk_column_def info_row_def)
  then have pk: "filter IsPK (map (mk_column \<circ> info_row) defs) = [?p]"
    by (simp add: more(1) base_defs_def mk_column_def info_row_def)
  from Discover_exposes_new [OF d(4) [unfolded sch'] d(1) pk] obtain col where
    col: "Get reg name = Some col" "described (add_table name defs sch) name col" by auto
  have cols: "Columns col = map (mk_column \<circ> info_row) defs"
    using col(2) by (simp add: described_def table_columns_def add_table_def)
  have names: "ColName ` set (Columns col) = fst ` set defs"
    by (auto simp: cols mk_column_def info_row_def image_iff split: prod.splits) force+
  have "OwnerColumnName \<in> fst ` set defs \<longleftrightarrow> ownerScoped \<or> (\<exists>c \<in> set columns. DefName c = OwnerColumnName)"
    using more(2) by (auto simp: more(1) base_defs_def image_Un)
  moreover have "OwnerColumn col = OwnerColumnName \<longleftrightarrow> OwnerColumnName \<in> ColName ` set (Columns col)"
  proof -
    have "OwnerColumn col = owner_column_of (Columns col)" using col(2) by (simp add: described_def)
    then show ?thesis by (auto simp: owner_column_of_def intro: rev_image_eqI)
  qed
  moreover have "PKColumn col = ''id''" "\<not> PKIsInteger col"
    using col(2) pk registry_okD(2) [OF Discover_ok [OF d(4)] col(1)]
    by (auto simp: described_def cols ToUpper_def upper_char_def is_lower_def less_eq_char_nat Contains_def)
  ultimately show ?thesis using col(1) d(5) names by auto
qed

abbreviation sqlite_create :: "string \<Rightarrow> coldef list \<Rightarrow> schema \<Rightarrow> string + schema" where
  "sqlite_create name defs sch \<equiv>
     (if name \<in> set (sqlite_master sch) then Inl ''table already exists'' else Inr (add_table name defs sch))"

lemma sqlite_creates: "creates sqlite_create"
  by (auto simp: creates_def split: if_splits)

abbreviation empty_schema :: schema where
  "empty_schema \<equiv> \<lparr>sqlite_master = [], info_of = (\<lambda>_. []), policies = [], query_fails = (\<lambda>_. False)\<rparr>"

lemmas create_eval = AdminCreateTable_def ReloadSchema_def identifierRe_def is_lower_def is_digit_def less_eq_char_nat
  isReserved_def reservedTables_def base_defs_def isAllowedColumnType_def AdminAllowedColumnTypes_def
  add_table_def info_row_def Discover_def describeTable_def columnAffinity_def blank_collection_def
  ToUpper_def upper_char_def Contains_def applyPolicies_def default_rules_def Let_def

theorem created_table_is_live_witness:
  "\<exists>sch' s'. AdminCreateTable sqlite_create ''todos'' True [\<lparr>DefName = ''title'', DefType = ''TEXT'', Required = True\<rparr>]
       (empty_schema, journal_server) = ((sch', s'), Inr ()) \<and>
     (\<exists>col. Get (registry s') ''todos'' = Some col \<and> OwnerColumn col = OwnerColumnName)"
proof -
  obtain sch' s' where run: "AdminCreateTable sqlite_create ''todos'' True [\<lparr>DefName = ''title'', DefType = ''TEXT'', Required = True\<rparr>]
       (empty_schema, journal_server) = ((sch', s'), Inr ())"
    by (simp add: create_eval)
  from created_table_is_live [OF sqlite_creates run] run show ?thesis by auto
qed

text \<open>
  A column called \<^verbatim>\<open>owner_id\<close> of a type other than text passes the validation of the create
  form, the table is created, and only then does the discovery reject it: the call reports an
  error, but from then on every discovery fails, the one of the next start included.
\<close>

theorem create_table_can_break_discovery:
  "\<exists>columns sch'. (\<exists>reg. Discover empty_schema = Inr reg) \<and>
     AdminCreateTable sqlite_create ''todos'' False columns (empty_schema, journal_server) =
       ((sch', journal_server), Inl (ReloadFailed (OwnerAffinity ''todos'' ''INTEGER'' INTEGER))) \<and>
     Discover sch' = Inl (OwnerAffinity ''todos'' ''INTEGER'' INTEGER)"
  by (rule exI [of _ "[\<lparr>DefName = ''owner_id'', DefType = ''INTEGER'', Required = True\<rparr>]"])
    (simp add: create_eval)

end
