(* ===== verification/Session_Store.thy ===== *)
theory Session_Store
  imports Maubase_Prelude
begin

text \<open>
  What the two identity planes share: e-mail validation, the parameters that stand for bcrypt,
  SHA-256 and a failing database, the table of sessions, and the contract of a session service
  (the locale \<open>session_service\<close>), which \<^verbatim>\<open>internal/auth\<close> and \<^verbatim>\<open>internal/ownerauth\<close> both meet.
\<close>

section \<open>E-mail addresses\<close>

definition normalizeEmail :: "string \<Rightarrow> string" where
  "normalizeEmail email = ToLower (TrimSpace email)"

text \<open>The class \<^verbatim>\<open>[^\s@]\<close>: RE2's \<^verbatim>\<open>\s\<close> is tab, newline, form feed, return and blank.\<close>

definition addr_char :: "char \<Rightarrow> bool" where
  "addr_char c \<longleftrightarrow> c \<notin> {CHR 0x09, CHR 0x0A, CHR 0x0C, CHR 0x0D, CHR '' '', CHR ''@''}"

definition emailRe :: "string \<Rightarrow> bool" where
  "emailRe s \<longleftrightarrow>
     (let a = takeWhile (\<lambda>c. c \<noteq> CHR ''@'') s;
          b = drop (Suc (length a)) s
      in a \<noteq> [] \<and> length a < length s \<and> list_all addr_char a \<and> list_all addr_char b \<and>
         CHR ''.'' \<in> set (butlast (tl b)))"

lemma middle_mem: "x \<in> set (butlast (tl b)) \<longleftrightarrow> (\<exists>u v. b = u @ x # v \<and> u \<noteq> [] \<and> v \<noteq> [])"
proof
  assume x: "x \<in> set (butlast (tl b))"
  then obtain c t where b: "b = c # t" by (cases b) auto
  from x b obtain u v where uv: "butlast t = u @ x # v" using split_list [of x "butlast t"] by auto
  from x b have "t \<noteq> []" by auto
  then have "t = butlast t @ [last t]" by simp
  with uv b show "\<exists>u v. b = u @ x # v \<and> u \<noteq> [] \<and> v \<noteq> []"
    by (intro exI [of _ "c # u"] exI [of _ "v @ [last t]"]) simp
next
  assume "\<exists>u v. b = u @ x # v \<and> u \<noteq> [] \<and> v \<noteq> []"
  then obtain u v where "b = u @ x # v" "u \<noteq> []" "v \<noteq> []" by blast
  then show "x \<in> set (butlast (tl b))" by (cases u) (simp_all add: butlast_append)
qed

text \<open>The matcher decides the language of the regular expression.\<close>

lemma emailRe_iff:
  "emailRe s \<longleftrightarrow>
     (\<exists>a x y. s = a @ CHR ''@'' # x @ CHR ''.'' # y \<and> a \<noteq> [] \<and> x \<noteq> [] \<and> y \<noteq> [] \<and>
        list_all addr_char a \<and> list_all addr_char x \<and> list_all addr_char y)"
proof
  assume s: "emailRe s"
  let ?a = "takeWhile (\<lambda>c. c \<noteq> CHR ''@'') s" and ?b = "drop (Suc (length (takeWhile (\<lambda>c. c \<noteq> CHR ''@'') s))) s"
  from s have len: "length ?a < length s" by (simp add: emailRe_def Let_def)
  then have "s ! length ?a = CHR ''@''" using nth_length_takeWhile [OF len] by simp
  then have split: "s = ?a @ CHR ''@'' # ?b"
    using id_take_nth_drop [OF len] takeWhile_eq_take [of _ s] by metis
  from s have mid: "CHR ''.'' \<in> set (butlast (tl ?b))" and ne: "?a \<noteq> []"
    and ok: "list_all addr_char ?a" "list_all addr_char ?b"
    by (simp_all add: emailRe_def Let_def)
  from mid obtain x y where b: "?b = x @ CHR ''.'' # y" "x \<noteq> []" "y \<noteq> []"
    unfolding middle_mem by blast
  have xy: "list_all addr_char x" "list_all addr_char y" using ok(2) unfolding b(1) by simp_all
  have "s = ?a @ CHR ''@'' # x @ CHR ''.'' # y" using split unfolding b(1) .
  with ne b(2,3) ok(1) xy
  show "\<exists>a x y. s = a @ CHR ''@'' # x @ CHR ''.'' # y \<and> a \<noteq> [] \<and> x \<noteq> [] \<and> y \<noteq> [] \<and>
        list_all addr_char a \<and> list_all addr_char x \<and> list_all addr_char y"
    by (intro exI [of _ ?a] exI [of _ x] exI [of _ y] conjI)
next
  assume "\<exists>a x y. s = a @ CHR ''@'' # x @ CHR ''.'' # y \<and> a \<noteq> [] \<and> x \<noteq> [] \<and> y \<noteq> [] \<and>
        list_all addr_char a \<and> list_all addr_char x \<and> list_all addr_char y"
  then obtain a x y where s: "s = a @ CHR ''@'' # x @ CHR ''.'' # y" "a \<noteq> []" "x \<noteq> []" "y \<noteq> []"
    and ok: "list_all addr_char a" "list_all addr_char x" "list_all addr_char y" by blast
  have "\<forall>c \<in> set a. c \<noteq> CHR ''@''" using ok(1) by (auto simp: list_all_iff addr_char_def)
  then have a: "takeWhile (\<lambda>c. c \<noteq> CHR ''@'') s = a" using s(1) by (simp add: takeWhile_append)
  have "CHR ''.'' \<in> set (butlast (tl (x @ CHR ''.'' # y)))"
    unfolding middle_mem using s(3,4) by (intro exI [of _ x] exI [of _ y] conjI refl)
  with s ok show "emailRe s" unfolding emailRe_def a by (simp add: addr_char_def)
qed

lemma normalizeEmail_idem [simp]: "normalizeEmail (normalizeEmail e) = normalizeEmail e"
  by (simp add: normalizeEmail_def TrimSpace_ToLower)

lemma ToLower_normalizeEmail [simp]: "ToLower (normalizeEmail e) = normalizeEmail e"
  by (simp add: normalizeEmail_def)


section \<open>Cryptography and faults\<close>

text \<open>
  \<open>hashToken\<close> stands for the hex SHA-256 of a token, \<open>hashPassword\<close> and \<open>verifyPassword\<close> for bcrypt
  with a fresh salt, which refuses a password of more than 72 bytes.
\<close>

record crypto =
  hashToken :: "string \<Rightarrow> string"
  hashPassword :: "string \<Rightarrow> string option"
  verifyPassword :: "string \<Rightarrow> string \<Rightarrow> bool"

definition bcrypt_ok :: "crypto \<Rightarrow> bool" where
  "bcrypt_ok C \<longleftrightarrow>
     (\<forall>p h. hashPassword C p = Some h \<longrightarrow> (\<forall>q. length q \<le> 72 \<longrightarrow> (verifyPassword C h q \<longleftrightarrow> q = p)))"

definition plain_crypto :: crypto where
  "plain_crypto = \<lparr>hashToken = id, hashPassword = (\<lambda>p. if length p \<le> 72 then Some p else None), verifyPassword = (=)\<rparr>"

lemma plain_crypto_ok: "bcrypt_ok plain_crypto"
  by (auto simp: bcrypt_ok_def plain_crypto_def split: if_splits)


section \<open>The table of sessions\<close>

record session_row =
  sess_id :: string
  sess_user :: string
  sess_hash :: string
  sess_expires :: time

type_synonym session_table = "session_row list"

text \<open>An insert violates the primary key, the unique hash or the reference to the account, or succeeds.\<close>

definition insert_session :: "string list \<Rightarrow> session_row \<Rightarrow> session_table \<Rightarrow> session_table option" where
  "insert_session accounts r t =
     (if sess_user r \<notin> set accounts \<or> sess_id r \<in> sess_id ` set t \<or> sess_hash r \<in> sess_hash ` set t
      then None else Some (t @ [r]))"

definition sessions_ok :: "string list \<Rightarrow> session_table \<Rightarrow> bool" where
  "sessions_ok accounts t \<longleftrightarrow>
     distinct (map sess_id t) \<and> distinct (map sess_hash t) \<and> (\<forall>r \<in> set t. sess_user r \<in> set accounts)"

definition session_for :: "string \<Rightarrow> session_table \<Rightarrow> session_row option" where
  "session_for h t = find (\<lambda>r. sess_hash r = h) t"

lemma sessions_ok_filter [keeps]: "sessions_ok accounts t \<Longrightarrow> sessions_ok accounts (filter P t)"
  by (auto simp: sessions_ok_def distinct_map_filter)

lemma sessions_ok_insert [keeps]:
  "sessions_ok accounts t \<Longrightarrow> insert_session accounts r t = Some t' \<Longrightarrow> sessions_ok accounts t'"
  by (auto simp: sessions_ok_def insert_session_def split: if_splits)

lemma sessions_ok_accounts [keeps]:
  "sessions_ok accounts t \<Longrightarrow> set accounts \<subseteq> set accounts' \<Longrightarrow> sessions_ok accounts' t"
  by (auto simp: sessions_ok_def)

lemma session_for_insert:
  "insert_session accounts r t = Some t' \<Longrightarrow>
     session_for h t' = (if h = sess_hash r then Some r else session_for h t)"
  by (auto simp: insert_session_def session_for_def find_insert_key split: if_splits)

lemma session_for_filter:
  "distinct (map sess_hash t) \<Longrightarrow> session_for h (filter P t) =
    (case session_for h t of None \<Rightarrow> None | Some r \<Rightarrow> if P r then Some r else None)"
  unfolding session_for_def by (rule find_filter_key)


section \<open>The contract of a session service\<close>

locale session_service =
  fixes validate :: "'st \<Rightarrow> string \<Rightarrow> time \<Rightarrow> string option"
    and issue :: "'st \<Rightarrow> string \<Rightarrow> string \<Rightarrow> string \<Rightarrow> time \<Rightarrow> 'st option"
    and revoke :: "'st \<Rightarrow> string \<Rightarrow> 'st"
    and purge :: "'st \<Rightarrow> time \<Rightarrow> 'st"
    and same :: "string \<Rightarrow> string \<Rightarrow> bool"
    and ttl :: duration
    and invar :: "'st \<Rightarrow> bool"
  assumes issue_invar: "invar st \<Longrightarrow> issue st i u tok now = Some st' \<Longrightarrow> invar st'"
    and revoke_invar: "invar st \<Longrightarrow> invar (revoke st tok)"
    and purge_invar: "invar st \<Longrightarrow> invar (purge st now)"
    and issue_validate: "invar st \<Longrightarrow> issue st i u tok now = Some st' \<Longrightarrow>
        validate st' tok' t = (if same tok' tok then (if t \<le> now + ttl then Some u else None) else validate st tok' t)"
    and revoke_validate: "invar st \<Longrightarrow>
        validate (revoke st tok) tok' t = (if same tok' tok then None else validate st tok' t)"
    and purge_validate: "invar st \<Longrightarrow> now < t \<Longrightarrow> validate (purge st now) tok' t = validate st tok' t"
begin

text \<open>What happens to a token while others come and go: another login, a logout, a purge.\<close>

fun run :: "'st \<Rightarrow> (string \<times> string \<times> string \<times> time + string + time) list \<Rightarrow> 'st" where
  "run st [] = st"
| "run st (Inl (i, u, tok, now) # ops) = run (case issue st i u tok now of None \<Rightarrow> st | Some st' \<Rightarrow> st') ops"
| "run st (Inr (Inl tok) # ops) = run (revoke st tok) ops"
| "run st (Inr (Inr now) # ops) = run (purge st now) ops"

fun leaves_alone :: "string \<Rightarrow> time \<Rightarrow> (string \<times> string \<times> string \<times> time + string + time) list \<Rightarrow> bool" where
  "leaves_alone tok t [] = True"
| "leaves_alone tok t (Inl (i, u, tok', now) # ops) = (\<not> same tok tok' \<and> leaves_alone tok t ops)"
| "leaves_alone tok t (Inr (Inl tok') # ops) = (\<not> same tok tok' \<and> leaves_alone tok t ops)"
| "leaves_alone tok t (Inr (Inr now) # ops) = (now < t \<and> leaves_alone tok t ops)"

lemma run_validate:
  "invar st \<Longrightarrow> leaves_alone tok t ops \<Longrightarrow> validate (run st ops) tok t = validate st tok t"
proof (induction st ops rule: run.induct)
  case (2 st i u tok' now ops)
  show ?case
  proof (cases "issue st i u tok' now")
    case None
    with 2 show ?thesis by simp
  next
    case (Some st')
    with 2 issue_invar [OF 2(2) Some] issue_validate [OF 2(2) Some] show ?thesis by simp
  qed
qed (auto simp: revoke_validate purge_validate revoke_invar purge_invar)

lemma session_lifetime:
  assumes "invar st" and "issue st i u tok now = Some st'" and "same tok tok" and "leaves_alone tok t ops"
  shows "validate (run st' ops) tok t = (if t \<le> now + ttl then Some u else None)"
  using assms run_validate [OF issue_invar [OF assms(1,2)] assms(4)] by (simp add: issue_validate)

lemma revoked_stays_revoked:
  assumes "invar st" and "same tok tok" and "leaves_alone tok t ops"
  shows "validate (run (revoke st tok) ops) tok t = None"
  using assms run_validate [OF revoke_invar [OF assms(1)] assms(3)] by (simp add: revoke_validate)

end

end
