(* ===== verification/Auth_Service.thy ===== *)
theory Auth_Service
  imports Session_Store
begin

text \<open>
  The customers' identity layer: \<^verbatim>\<open>internal/auth/service.go\<close> on the tables of migrations 0001,
  0007, 0008 and 0010. Every statement is one step on the tables: it may fail (the argument
  \<open>fails\<close>), violate a unique constraint or a reference, or succeed. Deleting an account cascades
  to its sessions, reset tokens and social identities. Fresh identifiers, fresh random tokens
  (\<^term>\<open>None\<close> when the random source fails) and the time are arguments.
\<close>

section \<open>Tables\<close>

record user_row =
  user_id :: string
  user_email :: string
  user_hash :: string
  user_created :: time
  user_updated :: time

record reset_row =
  reset_id :: string
  reset_user :: string
  reset_hash :: string
  reset_expires :: time
  reset_used :: "time option"

record social_row =
  soc_id :: string
  soc_user :: string
  soc_provider :: string
  soc_subject :: string
  soc_email :: string
  soc_created :: time

record auth =
  users :: "user_row list"
  sessions :: session_table
  resets :: "reset_row list"
  socials :: "social_row list"

datatype auth_error =
    ErrEmailTaken | ErrInvalidCredentials | ErrSessionNotFound | ErrWeakPassword | ErrInvalidEmail
  | ErrResetTokenInvalid | ErrSocialIdentityLinkedElsewhere | Internal string

datatype auth_stmt =
    InsertUser | SelectUserById | SelectUserByEmail | SelectSession | DeleteSession | DeleteUserRow
  | InsertSession | PurgeSessions | PurgeResets | InsertReset | BeginTx | SelectReset | UpdatePassword
  | MarkResetsUsed | DeleteUserSessions | Commit | SelectSocial | InsertSocial | SelectEmailAfterRace
  | CountSessions | CountResets | CountUsersStmt | ListUsersStmt | ListSocials

record env =
  cr :: crypto
  fails :: "auth_stmt \<Rightarrow> bool"

abbreviation SessionTTL :: duration where "SessionTTL \<equiv> 30 * 24 * hour"

abbreviation ResetTokenTTL :: duration where "ResetTokenTTL \<equiv> hour"

record session =
  ses_id :: string
  ses_user :: string
  ses_token :: string
  ses_expires :: time

definition account_ids :: "auth \<Rightarrow> string list" where
  "account_ids st = map user_id (users st)"

definition user_by_email :: "string \<Rightarrow> auth \<Rightarrow> user_row option" where
  "user_by_email e st = find (\<lambda>u. user_email u = e) (users st)"

definition user_by_id :: "string \<Rightarrow> auth \<Rightarrow> user_row option" where
  "user_by_id i st = find (\<lambda>u. user_id u = i) (users st)"


section \<open>Statements\<close>

datatype ins_error = UniqueViolation | StatementFailed

text \<open>Migration 0010's index makes addresses unique up to case.\<close>

definition insert_user :: "env \<Rightarrow> time \<Rightarrow> string \<Rightarrow> string \<Rightarrow> string \<Rightarrow> auth \<Rightarrow> ins_error + auth" where
  "insert_user V now i e h st =
     (if fails V InsertUser then Inl StatementFailed
      else if list_ex (\<lambda>u. user_id u = i \<or> ToLower (user_email u) = ToLower e) (users st) then Inl UniqueViolation
      else Inr (st\<lparr>users := users st @
             [\<lparr>user_id = i, user_email = e, user_hash = h, user_created = now, user_updated = now\<rparr>]\<rparr>))"

definition getUserByID :: "env \<Rightarrow> string \<Rightarrow> auth \<Rightarrow> auth_error + user_row" where
  "getUserByID V i st =
     (if fails V SelectUserById then Inl (Internal ''lookup user'')
      else (case user_by_id i st of None \<Rightarrow> Inl (Internal ''lookup user'') | Some u \<Rightarrow> Inr u))"

definition createSession :: "env \<Rightarrow> time \<Rightarrow> string option \<Rightarrow> string \<Rightarrow> string \<Rightarrow> auth \<Rightarrow> auth \<times> (auth_error + session)" where
  "createSession V now raw i uid st =
     (case raw of
        None \<Rightarrow> (st, Inl (Internal ''generate token''))
      | Some tok \<Rightarrow>
          (let expiresAt = now + SessionTTL
           in if fails V InsertSession then (st, Inl (Internal ''insert session''))
              else (case insert_session (account_ids st)
                       \<lparr>sess_id = i, sess_user = uid, sess_hash = hashToken (cr V) tok, sess_expires = expiresAt\<rparr> (sessions st) of
                      None \<Rightarrow> (st, Inl (Internal ''insert session''))
                    | Some t \<Rightarrow> (st\<lparr>sessions := t\<rparr>,
                        Inr \<lparr>ses_id = i, ses_user = uid, ses_token = tok, ses_expires = expiresAt\<rparr>))))"


section \<open>Accounts and sessions\<close>

definition SignUp :: "env \<Rightarrow> time \<Rightarrow> string \<Rightarrow> string \<Rightarrow> string \<Rightarrow> auth \<Rightarrow> auth \<times> (auth_error + user_row)" where
  "SignUp V now i email0 password st =
     (let email = normalizeEmail email0
      in if \<not> emailRe email then (st, Inl ErrInvalidEmail)
         else if length password < 8 then (st, Inl ErrWeakPassword)
         else (case hashPassword (cr V) password of
                 None \<Rightarrow> (st, Inl (Internal ''hash password''))
               | Some h \<Rightarrow>
                   (case insert_user V now i email h st of
                      Inl UniqueViolation \<Rightarrow> (st, Inl ErrEmailTaken)
                    | Inl StatementFailed \<Rightarrow> (st, Inl (Internal ''insert user''))
                    | Inr st' \<Rightarrow> (st', getUserByID V i st'))))"

definition Login :: "env \<Rightarrow> time \<Rightarrow> string option \<Rightarrow> string \<Rightarrow> string \<Rightarrow> string \<Rightarrow> auth \<Rightarrow> auth \<times> (auth_error + session)" where
  "Login V now raw i email0 password st =
     (if fails V SelectUserByEmail then (st, Inl (Internal ''lookup user''))
      else (case user_by_email (normalizeEmail email0) st of
              None \<Rightarrow> (st, Inl ErrInvalidCredentials)
            | Some u \<Rightarrow>
                if \<not> verifyPassword (cr V) (user_hash u) password then (st, Inl ErrInvalidCredentials)
                else createSession V now raw i (user_id u) st))"

definition ValidateSession :: "env \<Rightarrow> time \<Rightarrow> string \<Rightarrow> auth \<Rightarrow> auth_error + user_row" where
  "ValidateSession V now rawToken st =
     (if fails V SelectSession then Inl (Internal ''lookup session'')
      else (case session_for (hashToken (cr V) rawToken) (sessions st) of
              None \<Rightarrow> Inl ErrSessionNotFound
            | Some r \<Rightarrow>
                (case user_by_id (sess_user r) st of
                   None \<Rightarrow> Inl ErrSessionNotFound
                 | Some u \<Rightarrow> if now > sess_expires r then Inl ErrSessionNotFound else Inr u)))"

definition Logout :: "env \<Rightarrow> string \<Rightarrow> auth \<Rightarrow> auth \<times> (auth_error + unit)" where
  "Logout V rawToken st =
     (if fails V DeleteSession then (st, Inl (Internal ''delete session''))
      else (st\<lparr>sessions := filter (\<lambda>r. sess_hash r \<noteq> hashToken (cr V) rawToken) (sessions st)\<rparr>, Inr ()))"

definition DeleteUser :: "env \<Rightarrow> string \<Rightarrow> auth \<Rightarrow> auth \<times> (auth_error + unit)" where
  "DeleteUser V i st =
     (if fails V DeleteUserRow then (st, Inl (Internal ''delete user''))
      else (st\<lparr>users := filter (\<lambda>u. user_id u \<noteq> i) (users st),
               sessions := filter (\<lambda>r. sess_user r \<noteq> i) (sessions st),
               resets := filter (\<lambda>r. reset_user r \<noteq> i) (resets st),
               socials := filter (\<lambda>r. soc_user r \<noteq> i) (socials st)\<rparr>, Inr ()))"

definition ListUsers :: "env \<Rightarrow> nat \<Rightarrow> nat \<Rightarrow> auth \<Rightarrow> auth_error + user_row list" where
  "ListUsers V limit offset st =
     (if fails V ListUsersStmt then Inl (Internal ''list users'')
      else Inr (take limit (drop offset
             (rev (sort_key user_created (sort_key user_id (users st)))))))"

definition CountUsers :: "env \<Rightarrow> auth \<Rightarrow> auth_error + nat" where
  "CountUsers V st = (if fails V CountUsersStmt then Inl (Internal ''count users'') else Inr (length (users st)))"

definition CountActiveSessions :: "env \<Rightarrow> time \<Rightarrow> string \<Rightarrow> auth \<Rightarrow> auth_error + nat" where
  "CountActiveSessions V now uid st =
     (if fails V CountSessions then Inl (Internal ''count active sessions'')
      else Inr (length (filter (\<lambda>r. sess_user r = uid \<and> sess_expires r > now) (sessions st))))"

definition ListSocialIdentities :: "env \<Rightarrow> string \<Rightarrow> auth \<Rightarrow> auth_error + (string \<times> string \<times> time) list" where
  "ListSocialIdentities V uid st =
     (if fails V ListSocials then Inl (Internal ''list social identities'')
      else Inr (map (\<lambda>r. (soc_provider r, soc_email r, soc_created r))
             (rev (sort_key soc_created (filter (\<lambda>r. soc_user r = uid) (socials st))))))"

definition CountPendingResetTokens :: "env \<Rightarrow> time \<Rightarrow> string \<Rightarrow> auth \<Rightarrow> auth_error + nat" where
  "CountPendingResetTokens V now uid st =
     (if fails V CountResets then Inl (Internal ''count pending reset tokens'')
      else Inr (length (filter (\<lambda>r. reset_user r = uid \<and> reset_used r = None \<and> reset_expires r > now) (resets st))))"

definition RevokeAllSessions :: "env \<Rightarrow> string \<Rightarrow> auth \<Rightarrow> auth \<times> (auth_error + nat)" where
  "RevokeAllSessions V uid st =
     (if fails V DeleteUserSessions then (st, Inl (Internal ''revoke sessions''))
      else (st\<lparr>sessions := filter (\<lambda>r. sess_user r \<noteq> uid) (sessions st)\<rparr>,
            Inr (length (filter (\<lambda>r. sess_user r = uid) (sessions st)))))"

definition PurgeExpiredSessions :: "env \<Rightarrow> time \<Rightarrow> auth \<Rightarrow> auth \<times> (auth_error + nat)" where
  "PurgeExpiredSessions V now st =
     (if fails V PurgeSessions then (st, Inl (Internal ''purge expired sessions''))
      else (st\<lparr>sessions := filter (\<lambda>r. \<not> sess_expires r \<le> now) (sessions st)\<rparr>,
            Inr (length (filter (\<lambda>r. sess_expires r \<le> now) (sessions st)))))"

definition PurgeExpiredResetTokens :: "env \<Rightarrow> time \<Rightarrow> auth \<Rightarrow> auth \<times> (auth_error + nat)" where
  "PurgeExpiredResetTokens V now st =
     (if fails V PurgeResets then (st, Inl (Internal ''purge expired reset tokens''))
      else (st\<lparr>resets := filter (\<lambda>r. \<not> (reset_expires r \<le> now \<or> reset_used r \<noteq> None)) (resets st)\<rparr>,
            Inr (length (filter (\<lambda>r. reset_expires r \<le> now \<or> reset_used r \<noteq> None) (resets st)))))"


section \<open>Password reset\<close>

definition CreateResetToken :: "env \<Rightarrow> time \<Rightarrow> string option \<Rightarrow> string \<Rightarrow> string \<Rightarrow> auth
    \<Rightarrow> auth \<times> (auth_error + (string \<times> string) option)" where
  "CreateResetToken V now raw i email0 st =
     (if fails V SelectUserByEmail then (st, Inl (Internal ''lookup user''))
      else (case user_by_email (normalizeEmail email0) st of
              None \<Rightarrow> (st, Inr None)
            | Some u \<Rightarrow>
                (case raw of
                   None \<Rightarrow> (st, Inl (Internal ''generate token''))
                 | Some tok \<Rightarrow>
                     (let h = hashToken (cr V) tok
                      in if fails V InsertReset \<or> list_ex (\<lambda>r. reset_id r = i \<or> reset_hash r = h) (resets st)
                         then (st, Inl (Internal ''insert reset token''))
                         else (st\<lparr>resets := resets st @ [\<lparr>reset_id = i, reset_user = user_id u, reset_hash = h,
                                   reset_expires = now + ResetTokenTTL, reset_used = None\<rparr>]\<rparr>,
                               Inr (Some (tok, user_id u)))))))"

text \<open>The three writes of a redemption, made in one transaction.\<close>

definition set_password :: "time \<Rightarrow> string \<Rightarrow> string \<Rightarrow> auth \<Rightarrow> auth" where
  "set_password now uid h st =
     st\<lparr>users := map (\<lambda>u. if user_id u = uid then u\<lparr>user_hash := h, user_updated := now\<rparr> else u) (users st)\<rparr>"

definition mark_used :: "time \<Rightarrow> string \<Rightarrow> auth \<Rightarrow> auth" where
  "mark_used now uid st =
     st\<lparr>resets := map (\<lambda>r. if reset_user r = uid \<and> reset_used r = None then r\<lparr>reset_used := Some now\<rparr> else r) (resets st)\<rparr>"

definition drop_sessions :: "string \<Rightarrow> auth \<Rightarrow> auth" where
  "drop_sessions uid st = st\<lparr>sessions := filter (\<lambda>r. sess_user r \<noteq> uid) (sessions st)\<rparr>"

definition ResetPassword :: "env \<Rightarrow> time \<Rightarrow> string \<Rightarrow> string \<Rightarrow> auth \<Rightarrow> auth \<times> (auth_error + string)" where
  "ResetPassword V now rawToken newPassword st =
     (if length newPassword < 8 then (st, Inl ErrWeakPassword)
      else (case hashPassword (cr V) newPassword of
              None \<Rightarrow> (st, Inl (Internal ''hash password''))
            | Some h \<Rightarrow>
                if fails V BeginTx then (st, Inl (Internal ''begin tx''))
                else if fails V SelectReset then (st, Inl (Internal ''lookup reset token''))
                else (case find (\<lambda>r. reset_hash r = hashToken (cr V) rawToken) (resets st) of
                        None \<Rightarrow> (st, Inl ErrResetTokenInvalid)
                      | Some r \<Rightarrow>
                          if reset_used r \<noteq> None \<or> now > reset_expires r then (st, Inl ErrResetTokenInvalid)
                          else if fails V UpdatePassword then (st, Inl (Internal ''update password''))
                          else if fails V MarkResetsUsed then (st, Inl (Internal ''mark reset tokens used''))
                          else if fails V DeleteUserSessions then (st, Inl (Internal ''revoke sessions''))
                          else if fails V Commit then (st, Inl (Internal ''commit''))
                          else (drop_sessions (reset_user r) (mark_used now (reset_user r)
                                  (set_password now (reset_user r) h st)), Inr (reset_user r)))))"


section \<open>Social sign-in\<close>

text \<open>The fresh values one social sign-in may draw.\<close>

record draws =
  d_user :: string
  d_password :: "string option"
  d_link :: string
  d_session :: string
  d_token :: "string option"

definition placeholder_email :: "string \<Rightarrow> string \<Rightarrow> string" where
  "placeholder_email provider pid = provider @ ''-'' @ pid @ ''@users.noreply.'' @ provider @ ''.invalid''"

definition createUserForSocialSignIn :: "env \<Rightarrow> time \<Rightarrow> draws \<Rightarrow> string \<Rightarrow> string \<Rightarrow> string \<Rightarrow> auth
    \<Rightarrow> auth \<times> (auth_error + (string \<times> string))" where
  "createUserForSocialSignIn V now D provider pid email0 st =
     (let email = (if email0 = [] then placeholder_email provider pid else email0)
      in case d_password D of
           None \<Rightarrow> (st, Inl (Internal ''generate placeholder password''))
         | Some p \<Rightarrow>
             (case hashPassword (cr V) p of
                None \<Rightarrow> (st, Inl (Internal ''hash placeholder password''))
              | Some h \<Rightarrow>
                  (case insert_user V now (d_user D) email h st of
                     Inr st' \<Rightarrow> (st', Inr (d_user D, email))
                   | Inl StatementFailed \<Rightarrow> (st, Inl (Internal ''insert user''))
                   | Inl UniqueViolation \<Rightarrow>
                       if fails V SelectEmailAfterRace then (st, Inl (Internal ''lookup user after insert race''))
                       else (case user_by_email email st of
                               None \<Rightarrow> (st, Inl (Internal ''lookup user after insert race''))
                             | Some u \<Rightarrow> (st, Inr (user_id u, email))))))"

definition insert_social :: "env \<Rightarrow> time \<Rightarrow> string \<Rightarrow> string \<Rightarrow> string \<Rightarrow> string \<Rightarrow> string \<Rightarrow> auth \<Rightarrow> auth option" where
  "insert_social V now i uid provider pid email st =
     (if fails V InsertSocial \<or> uid \<notin> set (account_ids st) \<or>
         list_ex (\<lambda>r. soc_id r = i \<or> (soc_provider r = provider \<and> soc_subject r = pid)) (socials st)
      then None
      else Some (st\<lparr>socials := socials st @ [\<lparr>soc_id = i, soc_user = uid, soc_provider = provider,
              soc_subject = pid, soc_email = email, soc_created = now\<rparr>]\<rparr>))"

text \<open>Whose account an unlinked identity goes to, whether it is new, and the address to record.\<close>

definition resolve_unlinked :: "env \<Rightarrow> time \<Rightarrow> draws \<Rightarrow> string \<Rightarrow> string \<Rightarrow> string \<Rightarrow> string \<Rightarrow> auth
    \<Rightarrow> auth \<times> (auth_error + (string \<times> string \<times> bool))" where
  "resolve_unlinked V now D provider pid email currentUserID st =
     (if currentUserID \<noteq> [] then (st, Inr (currentUserID, email, False))
      else (let create = (case createUserForSocialSignIn V now D provider pid email st of
                            (st', Inl e) \<Rightarrow> (st', Inl e)
                          | (st', Inr (uid, em)) \<Rightarrow> (st', Inr (uid, em, True)))
            in if email = [] then create
               else if fails V SelectUserByEmail then (st, Inl (Internal ''lookup user by email''))
               else (case user_by_email email st of
                       None \<Rightarrow> create
                     | Some u \<Rightarrow> (st, Inr (user_id u, email, False)))))"

definition LoginOrCreateViaSocial :: "env \<Rightarrow> time \<Rightarrow> draws \<Rightarrow> string \<Rightarrow> string \<Rightarrow> string \<Rightarrow> string \<Rightarrow> auth
    \<Rightarrow> auth \<times> (auth_error + (session \<times> bool))" where
  "LoginOrCreateViaSocial V now D provider pid email0 currentUserID st =
     (if fails V SelectSocial then (st, Inl (Internal ''lookup social identity''))
      else (case find (\<lambda>r. soc_provider r = provider \<and> soc_subject r = pid) (socials st) of
              Some link \<Rightarrow>
                if currentUserID \<noteq> [] \<and> soc_user link \<noteq> currentUserID then (st, Inl ErrSocialIdentityLinkedElsewhere)
                else (case createSession V now (d_token D) (d_session D) (soc_user link) st of
                        (st', Inl e) \<Rightarrow> (st', Inl e)
                      | (st', Inr ses) \<Rightarrow> (st', Inr (ses, False)))
            | None \<Rightarrow>
                (case resolve_unlinked V now D provider pid (normalizeEmail email0) currentUserID st of
                   (st1, Inl e) \<Rightarrow> (st1, Inl e)
                 | (st1, Inr (uid, email, newAccount)) \<Rightarrow>
                     (case insert_social V now (d_link D) uid provider pid email st1 of
                        None \<Rightarrow> (st1, Inl (Internal ''link social identity''))
                      | Some st2 \<Rightarrow>
                          (case createSession V now (d_token D) (d_session D) uid st2 of
                             (st3, Inl e) \<Rightarrow> (st3, Inl e)
                           | (st3, Inr ses) \<Rightarrow> (st3, Inr (ses, newAccount)))))))"

section \<open>The invariant of the tables\<close>

definition auth_ok :: "auth \<Rightarrow> bool" where
  "auth_ok st \<longleftrightarrow>
     distinct (account_ids st) \<and> distinct (map (\<lambda>u. ToLower (user_email u)) (users st)) \<and>
     sessions_ok (account_ids st) (sessions st) \<and>
     distinct (map reset_hash (resets st)) \<and> (\<forall>r \<in> set (resets st). reset_user r \<in> set (account_ids st)) \<and>
     distinct (map (\<lambda>r. (soc_provider r, soc_subject r)) (socials st)) \<and>
     (\<forall>r \<in> set (socials st). soc_user r \<in> set (account_ids st))"

definition empty_auth :: auth where
  "empty_auth = \<lparr>users = [], sessions = [], resets = [], socials = []\<rparr>"

lemma auth_ok_empty [keeps]: "auth_ok empty_auth"
  by (simp add: auth_ok_def empty_auth_def account_ids_def sessions_ok_def)

lemma auth_ok_insert_user [keeps]:
  assumes "auth_ok st" and "insert_user V now i e h st = Inr st'"
  shows "auth_ok st'"
proof -
  let ?u = "\<lparr>user_id = i, user_email = e, user_hash = h, user_created = now, user_updated = now\<rparr>"
  have new: "i \<notin> set (account_ids st)" "ToLower e \<notin> (\<lambda>u. ToLower (user_email u)) ` set (users st)"
    and st': "st' = st\<lparr>users := users st @ [?u]\<rparr>"
    using assms(2) by (auto simp: insert_user_def list_ex_iff account_ids_def split: if_splits)
  have ids: "account_ids st' = account_ids st @ [i]" by (simp add: st' account_ids_def)
  have "sessions_ok (account_ids st @ [i]) (sessions st)"
    using assms(1) by (auto simp: auth_ok_def sessions_ok_def)
  with assms(1) new show ?thesis unfolding auth_ok_def ids by (auto simp: st')
qed

lemma createSession_cases:
  obtains e where "createSession V now raw i uid st = (st, Inl e)"
  | tok t where "raw = Some tok" "insert_session (account_ids st)
        \<lparr>sess_id = i, sess_user = uid, sess_hash = hashToken (cr V) tok, sess_expires = now + SessionTTL\<rparr> (sessions st) = Some t"
      "createSession V now raw i uid st =
         (st\<lparr>sessions := t\<rparr>, Inr \<lparr>ses_id = i, ses_user = uid, ses_token = tok, ses_expires = now + SessionTTL\<rparr>)"
proof (cases raw)
  case None
  with that(1) show ?thesis by (simp add: createSession_def)
next
  case (Some tok)
  show ?thesis
  proof (cases "insert_session (account_ids st)
      \<lparr>sess_id = i, sess_user = uid, sess_hash = hashToken (cr V) tok, sess_expires = now + SessionTTL\<rparr> (sessions st)")
    case None
    with Some that(1) show ?thesis by (simp add: createSession_def Let_def split: if_splits)
  next
    case ins: (Some t)
    with Some that(1) that(2) [OF Some ins] show ?thesis
      by (cases "fails V InsertSession") (simp_all add: createSession_def Let_def)
  qed
qed

lemma auth_ok_sessions [keeps]:
  "auth_ok st \<Longrightarrow> sessions_ok (account_ids st) t \<Longrightarrow> auth_ok (st\<lparr>sessions := t\<rparr>)"
  by (simp add: auth_ok_def account_ids_def)

lemma auth_ok_filter_sessions [keeps]: "auth_ok st \<Longrightarrow> auth_ok (st\<lparr>sessions := filter P (sessions st)\<rparr>)"
  by (intro auth_ok_sessions sessions_ok_filter) (simp_all add: auth_ok_def)

lemma auth_ok_createSession [keeps]: "auth_ok st \<Longrightarrow> auth_ok (fst (createSession V now raw i uid st))"
proof (cases rule: createSession_cases [of V now raw i uid st])
  case (2 tok t)
  assume ok: "auth_ok st"
  then have "sessions_ok (account_ids st) (sessions st)" by (simp add: auth_ok_def)
  from sessions_ok_insert [OF this 2(2)] ok 2(3) show ?thesis by (simp add: auth_ok_sessions)
qed simp

lemma auth_ok_SignUp [keeps]: "auth_ok st \<Longrightarrow> auth_ok (fst (SignUp V now i e p st))"
  by (auto simp: SignUp_def Let_def split: option.splits sum.splits ins_error.splits dest: auth_ok_insert_user)

lemma auth_ok_Login [keeps]: "auth_ok st \<Longrightarrow> auth_ok (fst (Login V now raw i e p st))"
  by (auto simp: Login_def auth_ok_createSession split: option.splits)

lemma auth_ok_Logout [keeps]: "auth_ok st \<Longrightarrow> auth_ok (fst (Logout V tok st))"
  by (simp add: Logout_def auth_ok_filter_sessions)

lemma auth_ok_DeleteUser [keeps]: "auth_ok st \<Longrightarrow> auth_ok (fst (DeleteUser V i st))"
  by (auto simp: DeleteUser_def auth_ok_def account_ids_def sessions_ok_def distinct_map_filter)

lemma auth_ok_Revoke [keeps]: "auth_ok st \<Longrightarrow> auth_ok (fst (RevokeAllSessions V i st))"
  by (simp add: RevokeAllSessions_def auth_ok_filter_sessions)

lemma auth_ok_Purge [keeps]: "auth_ok st \<Longrightarrow> auth_ok (fst (PurgeExpiredSessions V now st))"
  by (simp add: PurgeExpiredSessions_def auth_ok_filter_sessions)

lemma auth_ok_PurgeResets [keeps]: "auth_ok st \<Longrightarrow> auth_ok (fst (PurgeExpiredResetTokens V now st))"
  by (auto simp: PurgeExpiredResetTokens_def auth_ok_def account_ids_def distinct_map_filter)

lemma auth_ok_CreateReset [keeps]: "auth_ok st \<Longrightarrow> auth_ok (fst (CreateResetToken V now raw i e st))"
  by (auto simp: CreateResetToken_def auth_ok_def account_ids_def user_by_email_def list_ex_iff Let_def
      split: option.splits dest: find_Some_mem)

lemma account_ids_ops [simp]:
  "account_ids (set_password now uid h st) = account_ids st"
  "account_ids (mark_used now uid st) = account_ids st"
  "account_ids (drop_sessions uid st) = account_ids st"
  by (auto simp: account_ids_def set_password_def mark_used_def drop_sessions_def)

lemma reset_ops_frame [simp]:
  "sessions (set_password now uid h st) = sessions st" "resets (set_password now uid h st) = resets st"
  "socials (set_password now uid h st) = socials st"
  "users (mark_used now uid st) = users st" "sessions (mark_used now uid st) = sessions st"
  "socials (mark_used now uid st) = socials st"
  "users (drop_sessions uid st) = users st" "resets (drop_sessions uid st) = resets st"
  "socials (drop_sessions uid st) = socials st"
  by (simp_all add: set_password_def mark_used_def drop_sessions_def)

lemma set_password_emails [simp]:
  "map (\<lambda>u. f (user_email u)) (users (set_password now uid h st)) = map (\<lambda>u. f (user_email u)) (users st)"
  by (simp add: set_password_def)

lemma mark_used_keys [simp]:
  "map reset_hash (resets (mark_used now uid st)) = map reset_hash (resets st)"
  "map reset_user (resets (mark_used now uid st)) = map reset_user (resets st)"
  by (simp_all add: mark_used_def)

lemma all_reset_users: "(\<forall>r \<in> set t. reset_user r \<in> A) \<longleftrightarrow> set (map reset_user t) \<subseteq> A"
  by auto

lemma auth_ok_set_password [keeps]: "auth_ok st \<Longrightarrow> auth_ok (set_password now uid h st)"
  unfolding auth_ok_def by simp

lemma auth_ok_mark_used [keeps]: "auth_ok st \<Longrightarrow> auth_ok (mark_used now uid st)"
  unfolding auth_ok_def all_reset_users by (simp only: mark_used_keys reset_ops_frame account_ids_ops) blast

lemma auth_ok_drop_sessions [keeps]: "auth_ok st \<Longrightarrow> auth_ok (drop_sessions uid st)"
  unfolding drop_sessions_def by (rule auth_ok_filter_sessions)

lemma auth_ok_ResetPassword [keeps]: "auth_ok st \<Longrightarrow> auth_ok (fst (ResetPassword V now tok p st))"
  by (auto simp: ResetPassword_def intro!: auth_ok_drop_sessions auth_ok_mark_used auth_ok_set_password split: option.splits)

lemma auth_ok_insert_social [keeps]:
  "auth_ok st \<Longrightarrow> insert_social V now i uid pr pid e st = Some st' \<Longrightarrow> auth_ok st'"
  by (auto simp: insert_social_def auth_ok_def account_ids_def list_ex_iff split: if_splits)

lemma auth_ok_createUserForSocial [keeps]:
  "auth_ok st \<Longrightarrow> auth_ok (fst (createUserForSocialSignIn V now D pr pid e st))"
  by (auto simp: createUserForSocialSignIn_def Let_def split: option.splits sum.splits ins_error.splits
      dest: auth_ok_insert_user)

lemma auth_ok_resolve [keeps]: "auth_ok st \<Longrightarrow> auth_ok (fst (resolve_unlinked V now D pr pid e cur st))"
  using auth_ok_createUserForSocial [of st V now D pr pid e]
  by (auto simp: resolve_unlinked_def Let_def split: option.splits prod.splits sum.splits)

lemma auth_ok_Social [keeps]: "auth_ok st \<Longrightarrow> auth_ok (fst (LoginOrCreateViaSocial V now D pr pid e cur st))"
proof -
  assume ok: "auth_ok st"
  let ?find = "find (\<lambda>r. soc_provider r = pr \<and> soc_subject r = pid) (socials st)"
  show ?thesis
  proof (cases "fails V SelectSocial")
    case True
    with ok show ?thesis by (simp add: LoginOrCreateViaSocial_def)
  next
    case sel: False
    show ?thesis
    proof (cases ?find)
      case (Some link)
      obtain st1 res where r: "createSession V now (d_token D) (d_session D) (soc_user link) st = (st1, res)" by fastforce
      with auth_ok_createSession [OF ok] have "auth_ok st1" by (metis fst_conv)
      with ok sel Some r show ?thesis by (cases res) (simp_all add: LoginOrCreateViaSocial_def)
    next
      case None
      obtain st1 res where r: "resolve_unlinked V now D pr pid (normalizeEmail e) cur st = (st1, res)" by fastforce
      with auth_ok_resolve [OF ok] have st1: "auth_ok st1" by (metis fst_conv)
      have ses: "auth_ok (fst (createSession V now (d_token D) (d_session D) uid st2))"
        if "insert_social V now (d_link D) uid pr pid em st1 = Some st2" for uid em st2
        using that st1 auth_ok_insert_social auth_ok_createSession by blast
      show ?thesis
      proof (cases res)
        case (Inr v)
        obtain uid em new where v: "v = (uid, em, new)" by (cases v)
        show ?thesis
        proof (cases "insert_social V now (d_link D) uid pr pid em st1")
          case (Some st2)
          obtain st3 res3 where "createSession V now (d_token D) (d_session D) uid st2 = (st3, res3)" by fastforce
          with ses [OF Some] sel None r Inr v Some show ?thesis
            by (cases res3) (simp_all add: LoginOrCreateViaSocial_def)
        qed (use sel None r Inr v st1 in \<open>simp add: LoginOrCreateViaSocial_def\<close>)
      qed (use sel None r st1 in \<open>simp add: LoginOrCreateViaSocial_def\<close>)
    qed
  qed
qed

text \<open>Everything the service does to its tables, as the steps of a system.\<close>

inductive auth_step :: "env \<Rightarrow> auth \<Rightarrow> auth \<Rightarrow> bool" for V where
  "auth_step V st (fst (SignUp V now i e p st))"
| "auth_step V st (fst (Login V now raw i e p st))"
| "auth_step V st (fst (Logout V tok st))"
| "auth_step V st (fst (DeleteUser V i st))"
| "auth_step V st (fst (RevokeAllSessions V i st))"
| "auth_step V st (fst (PurgeExpiredSessions V now st))"
| "auth_step V st (fst (PurgeExpiredResetTokens V now st))"
| "auth_step V st (fst (CreateResetToken V now raw i e st))"
| "auth_step V st (fst (ResetPassword V now tok p st))"
| "auth_step V st (fst (LoginOrCreateViaSocial V now D pr pid e cur st))"

inductive auth_reach :: "auth \<Rightarrow> bool" where
  init: "auth_reach empty_auth"
| step: "auth_reach st \<Longrightarrow> auth_step V st st' \<Longrightarrow> auth_reach st'"

lemma auth_step_ok [keeps]: "auth_step V st st' \<Longrightarrow> auth_ok st \<Longrightarrow> auth_ok st'"
  by (induction rule: auth_step.induct)
    (rule auth_ok_SignUp auth_ok_Login auth_ok_Logout auth_ok_DeleteUser auth_ok_Revoke auth_ok_Purge
      auth_ok_PurgeResets auth_ok_CreateReset auth_ok_ResetPassword auth_ok_Social; assumption)+

lemma auth_reach_ok: "auth_reach st \<Longrightarrow> auth_ok st"
  by (induction rule: auth_reach.induct) (auto intro: auth_ok_empty auth_step_ok)


text \<open>Which accounts there can be after an operation: the ones there were, and the one an identifier was drawn for.\<close>

lemma account_ids_insert_social: "insert_social V now i uid pr pid e st = Some st' \<Longrightarrow> account_ids st' = account_ids st"
  by (auto simp: insert_social_def account_ids_def split: if_splits)

lemma account_ids_insert_user: "insert_user V now i e h st = Inr st' \<Longrightarrow> account_ids st' = account_ids st @ [i]"
  by (auto simp: insert_user_def account_ids_def split: if_splits)

lemma account_ids_createSession: "account_ids (fst (createSession V now raw i uid st)) = account_ids st"
  by (auto simp: createSession_def account_ids_def Let_def split: option.split)

lemma account_ids_resolve: "set (account_ids (fst (resolve_unlinked V now D pr pid e cur st))) \<subseteq> insert (d_user D) (set (account_ids st))"
  by (auto simp: resolve_unlinked_def createUserForSocialSignIn_def Let_def dest!: account_ids_insert_user
      split: option.split sum.split ins_error.split if_split)

lemma account_ids_Social:
  "set (account_ids (fst (LoginOrCreateViaSocial V now D pr pid e cur st))) \<subseteq> insert (d_user D) (set (account_ids st))"
proof -
  obtain st1 res where r: "resolve_unlinked V now D pr pid (normalizeEmail e) cur st = (st1, res)" by fastforce
  have "account_ids st' = account_ids st0" if "createSession V now raw i uid st0 = (st', x)" for raw i uid st0 st' x
    using account_ids_createSession [of V now raw i uid st0] that by simp
  then show ?thesis
    using account_ids_resolve [of V now D pr pid "normalizeEmail e" cur st]
    by (auto simp: LoginOrCreateViaSocial_def r split: option.splits sum.splits prod.splits if_splits dest!: account_ids_insert_social)
qed

lemma account_ids_same:
  "account_ids (fst (Login V now raw i e p st)) = account_ids st"
  "account_ids (fst (Logout V tok st)) = account_ids st"
  "account_ids (fst (RevokeAllSessions V i st)) = account_ids st"
  "account_ids (fst (PurgeExpiredSessions V now st)) = account_ids st"
  "account_ids (fst (PurgeExpiredResetTokens V now st)) = account_ids st"
  "account_ids (fst (CreateResetToken V now raw i e st)) = account_ids st"
  "account_ids (fst (ResetPassword V now tok p st)) = account_ids st"
  by (simp_all add: Login_def account_ids_createSession ResetPassword_def split: option.split)
     (simp_all add: Logout_def RevokeAllSessions_def PurgeExpiredSessions_def PurgeExpiredResetTokens_def
      CreateResetToken_def Let_def account_ids_def split: option.split)

lemma account_ids_old:
  "set (account_ids (fst (Login V now raw i e p st))) \<subseteq> set (account_ids st) \<union> N"
  "set (account_ids (fst (Logout V tok st))) \<subseteq> set (account_ids st) \<union> N"
  "set (account_ids (fst (RevokeAllSessions V i st))) \<subseteq> set (account_ids st) \<union> N"
  "set (account_ids (fst (PurgeExpiredSessions V now st))) \<subseteq> set (account_ids st) \<union> N"
  "set (account_ids (fst (PurgeExpiredResetTokens V now st))) \<subseteq> set (account_ids st) \<union> N"
  "set (account_ids (fst (CreateResetToken V now raw i e st))) \<subseteq> set (account_ids st) \<union> N"
  "set (account_ids (fst (ResetPassword V now tok p st))) \<subseteq> set (account_ids st) \<union> N"
  "set (account_ids (fst (DeleteUser V i st))) \<subseteq> set (account_ids st) \<union> N"
  by (simp_all add: account_ids_same) (auto simp: DeleteUser_def account_ids_def)

lemma account_ids_new:
  "i \<in> N \<Longrightarrow> set (account_ids (fst (SignUp V now i e p st))) \<subseteq> set (account_ids st) \<union> N"
  "d_user D \<in> N \<Longrightarrow> set (account_ids (fst (LoginOrCreateViaSocial V now D pr pid e cur st))) \<subseteq> set (account_ids st) \<union> N"
  using account_ids_Social [of V now D pr pid e cur st]
  by (auto simp: SignUp_def Let_def split: option.split sum.split ins_error.split dest!: account_ids_insert_user)


section \<open>Sessions of the customers\<close>

lemma auth_ok_parts:
  assumes "auth_ok st"
  shows "distinct (map user_id (users st))" "distinct (map (\<lambda>u. ToLower (user_email u)) (users st))"
    "distinct (map sess_hash (sessions st))" "distinct (map reset_hash (resets st))"
    "\<And>r. r \<in> set (sessions st) \<Longrightarrow> sess_user r \<in> set (account_ids st)"
    "\<And>r. r \<in> set (resets st) \<Longrightarrow> reset_user r \<in> set (account_ids st)"
    "\<And>r. r \<in> set (socials st) \<Longrightarrow> soc_user r \<in> set (account_ids st)"
  using assms by (auto simp: auth_ok_def sessions_ok_def account_ids_def)

lemma user_by_id_mem: "i \<in> set (account_ids st) \<longleftrightarrow> (\<exists>u. user_by_id i st = Some u)"
  unfolding user_by_id_def account_ids_def
  by (cases "find (\<lambda>u. user_id u = i) (users st)") (auto simp: find_None_all dest: find_Some_mem)

lemma user_by_id_id: "user_by_id i st = Some u \<Longrightarrow> user_id u = i \<and> u \<in> set (users st)"
  by (auto simp: user_by_id_def dest: find_Some_mem)

definition calm :: "crypto \<Rightarrow> env" where
  "calm C = \<lparr>cr = C, fails = (\<lambda>_. False)\<rparr>"

lemma calm_simps [simp]: "cr (calm C) = C" "fails (calm C) q = False"
  by (simp_all add: calm_def)

definition auth_whoami :: "crypto \<Rightarrow> auth \<Rightarrow> string \<Rightarrow> time \<Rightarrow> string option" where
  "auth_whoami C st tok t = (case ValidateSession (calm C) t tok st of Inl _ \<Rightarrow> None | Inr u \<Rightarrow> Some (user_id u))"

definition auth_issue :: "crypto \<Rightarrow> auth \<Rightarrow> string \<Rightarrow> string \<Rightarrow> string \<Rightarrow> time \<Rightarrow> auth option" where
  "auth_issue C st i uid tok now =
     (case createSession (calm C) now (Some tok) i uid st of (st', Inr _) \<Rightarrow> Some st' | _ \<Rightarrow> None)"

definition auth_logout :: "crypto \<Rightarrow> auth \<Rightarrow> string \<Rightarrow> auth" where
  "auth_logout C st tok = fst (Logout (calm C) tok st)"

definition auth_purge :: "crypto \<Rightarrow> auth \<Rightarrow> time \<Rightarrow> auth" where
  "auth_purge C st now = fst (PurgeExpiredSessions (calm C) now st)"

lemma auth_whoami_eq:
  assumes "auth_ok st"
  shows "auth_whoami C st tok t =
    (case session_for (hashToken C tok) (sessions st) of
       None \<Rightarrow> None | Some r \<Rightarrow> if t \<le> sess_expires r then Some (sess_user r) else None)"
proof (cases "session_for (hashToken C tok) (sessions st)")
  case (Some r)
  then have "r \<in> set (sessions st)" by (auto simp: session_for_def dest: find_Some_mem)
  with auth_ok_parts(5) [OF assms] obtain u where "user_by_id (sess_user r) st = Some u"
    using user_by_id_mem by blast
  with Some show ?thesis by (auto simp: auth_whoami_def ValidateSession_def dest: user_by_id_id)
qed (simp add: auth_whoami_def ValidateSession_def)

lemma auth_issue_SomeE:
  assumes "auth_issue C st i uid tok now = Some st'"
  obtains t where "st' = st\<lparr>sessions := t\<rparr>" "insert_session (account_ids st)
      \<lparr>sess_id = i, sess_user = uid, sess_hash = hashToken C tok, sess_expires = now + SessionTTL\<rparr> (sessions st) = Some t"
  using assms
  by (cases rule: createSession_cases [of "calm C" now "Some tok" i uid st]) (auto simp: auth_issue_def)

interpretation cust: session_service "auth_whoami C" "auth_issue C" "auth_logout C" "auth_purge C"
    "\<lambda>a b. hashToken C a = hashToken C b" SessionTTL auth_ok for C
proof unfold_locales
  fix st i u tok now st' assume ok: "auth_ok st" and iss: "auth_issue C st i u tok now = Some st'"
  show ok': "auth_ok st'"
    using auth_ok_createSession [OF ok, of "calm C" now "Some tok" i u] iss
    by (auto simp: auth_issue_def split: prod.splits sum.splits)
  fix tok' t
  show "auth_whoami C st' tok' t = (if hashToken C tok' = hashToken C tok then (if t \<le> now + SessionTTL then Some u else None)
      else auth_whoami C st tok' t)"
    using iss
  proof (rule auth_issue_SomeE)
    fix ts assume "st' = st\<lparr>sessions := ts\<rparr>" "insert_session (account_ids st)
      \<lparr>sess_id = i, sess_user = u, sess_hash = hashToken C tok, sess_expires = now + SessionTTL\<rparr> (sessions st) = Some ts"
    then show ?thesis
      unfolding auth_whoami_eq [OF ok'] auth_whoami_eq [OF ok] by (simp add: session_for_insert)
  qed
next
  fix st tok assume ok: "auth_ok st"
  show ok': "auth_ok (auth_logout C st tok)" using ok by (simp add: auth_logout_def auth_ok_Logout)
  fix tok' t
  have "session_for (hashToken C tok') (sessions (auth_logout C st tok)) =
      (if hashToken C tok' = hashToken C tok then None else session_for (hashToken C tok') (sessions st))"
    using auth_ok_parts(3) [OF ok]
    by (auto simp: auth_logout_def Logout_def session_for_filter split: option.splits)
      (auto simp: session_for_def dest: find_Some_mem)
  then show "auth_whoami C (auth_logout C st tok) tok' t =
      (if hashToken C tok' = hashToken C tok then None else auth_whoami C st tok' t)"
    by (simp add: auth_whoami_eq [OF ok'] auth_whoami_eq [OF ok])
next
  fix st now assume ok: "auth_ok st"
  show ok': "auth_ok (auth_purge C st now)" using ok by (simp add: auth_purge_def auth_ok_Purge)
  fix tok' t assume "now < (t :: time)"
  then show "auth_whoami C (auth_purge C st now) tok' t = auth_whoami C st tok' t"
    unfolding auth_whoami_eq [OF ok'] auth_whoami_eq [OF ok] using auth_ok_parts(3) [OF ok]
    by (auto simp: auth_purge_def PurgeExpiredSessions_def session_for_filter split: option.splits)
qed


section \<open>Properties\<close>

text \<open>
  Whatever is done to the accounts, in any order and with any statement failing at any
  time, the tables stay well formed: identifiers and session hashes are unique, addresses are
  unique up to case, and no session, reset token or social identity outlives its account.
\<close>

theorem auth_tables_well_formed:
  assumes "auth_reach st"
  shows "auth_ok st"
  by (rule auth_reach_ok [OF assms])

theorem auth_tables_well_formed_witness:
  "auth_ok (fst (SignUp (calm plain_crypto) 5 ''u1'' ''A@b.co'' ''secret12'' empty_auth)) \<and>
   users (fst (SignUp (calm plain_crypto) 5 ''u1'' ''A@b.co'' ''secret12'' empty_auth)) \<noteq> []"
proof -
  have "auth_reach (fst (SignUp (calm plain_crypto) 5 ''u1'' ''A@b.co'' ''secret12'' empty_auth))"
    by (rule auth_reach.step [OF auth_reach.init auth_step.intros(1)])
  note ok = auth_tables_well_formed [OF this]
  have "users (fst (SignUp (calm plain_crypto) 5 ''u1'' ''A@b.co'' ''secret12'' empty_auth)) \<noteq> []"
    by code_simp
  with ok show ?thesis by blast
qed

text \<open>
  The life of a session. A token handed out by a login identifies its account until it
  expires, whatever other logins, logouts of other tokens and purges of expired sessions happen
  meanwhile; after its expiry, and from its logout on, it identifies nobody.
\<close>

theorem customer_session_lifetime:
  assumes "auth_ok st" and "auth_issue C st i uid tok now = Some st'"
    and "session_service.leaves_alone (\<lambda>a b. hashToken C a = hashToken C b) tok t ops"
  shows "auth_whoami C (session_service.run (auth_issue C) (auth_logout C) (auth_purge C) st' ops) tok t =
      (if t \<le> now + SessionTTL then Some uid else None) \<and>
    auth_whoami C (session_service.run (auth_issue C) (auth_logout C) (auth_purge C) (auth_logout C st' tok) ops) tok t = None"
  using cust.session_lifetime [OF assms(1,2) refl assms(3)]
    cust.revoked_stays_revoked [OF cust.issue_invar [OF assms(1,2)] refl assms(3)] by simp

theorem customer_session_lifetime_witness:
  "\<exists>st'. auth_issue plain_crypto (fst (SignUp (calm plain_crypto) 5 ''u1'' ''A@b.co'' ''secret12'' empty_auth)) ''s1'' ''u1'' ''t1'' 10 = Some st' \<and>
     auth_whoami plain_crypto (session_service.run (auth_issue plain_crypto) (auth_logout plain_crypto) (auth_purge plain_crypto)
       st' [Inr (Inl ''t2''), Inr (Inr 11)]) ''t1'' 12 = Some ''u1''"
proof -
  let ?st = "fst (SignUp (calm plain_crypto) 5 ''u1'' ''A@b.co'' ''secret12'' empty_auth)"
  have ok: "auth_ok ?st" by (intro auth_ok_SignUp auth_ok_empty)
  have "\<exists>st'. auth_issue plain_crypto ?st ''s1'' ''u1'' ''t1'' 10 = Some st'"
    by (rule exI [of _ "the (auth_issue plain_crypto ?st ''s1'' ''u1'' ''t1'' 10)"]) code_simp
  then obtain st' where st': "auth_issue plain_crypto ?st ''s1'' ''u1'' ''t1'' 10 = Some st'" by blast
  have "session_service.leaves_alone (\<lambda>a b. hashToken plain_crypto a = hashToken plain_crypto b) ''t1'' 12 [Inr (Inl ''t2''), Inr (Inr 11)]"
    unfolding cust.leaves_alone.simps by (simp add: plain_crypto_def)
  from customer_session_lifetime [OF ok st' this] st' show ?thesis by simp
qed

lemma user_by_email_insert:
  assumes "auth_ok st" and "insert_user V now i e h st = Inr st'"
  shows "user_by_email e st' = Some \<lparr>user_id = i, user_email = e, user_hash = h, user_created = now, user_updated = now\<rparr>"
proof -
  let ?u = "\<lparr>user_id = i, user_email = e, user_hash = h, user_created = now, user_updated = now\<rparr>"
  have st': "st' = st\<lparr>users := users st @ [?u]\<rparr>" and new: "\<forall>u \<in> set (users st). user_email u \<noteq> e"
    using assms(2) by (auto simp: insert_user_def list_ex_iff split: if_splits)
  then have "find (\<lambda>u. user_email u = e) (users st) = None" by (simp add: find_None_all)
  then show ?thesis by (simp add: user_by_email_def st' find_append_last)
qed

lemma SignUp_Inr:
  assumes "SignUp V now i email p st = (st', Inr u)"
  obtains h where "hashPassword (cr V) p = Some h" "insert_user V now i (normalizeEmail email) h st = Inr st'"
    "emailRe (normalizeEmail email)" "8 \<le> length p" "user_by_id i st' = Some u"
  using assms
  by (auto simp: SignUp_def Let_def getUserByID_def split: if_splits option.splits sum.splits ins_error.splits)

lemma user_by_id_insert:
  assumes "insert_user V now i e h st = Inr st'"
  shows "user_by_id i st' = Some \<lparr>user_id = i, user_email = e, user_hash = h, user_created = now, user_updated = now\<rparr>"
proof -
  have "user_id u \<noteq> i" if "u \<in> set (users st)" for u
    using assms that by (auto simp: insert_user_def list_ex_iff split: if_splits)
  then have "find (\<lambda>u. user_id u = i) (users st) = None" by (simp add: find_None_all)
  with assms show ?thesis by (auto simp: insert_user_def user_by_id_def find_append_last split: if_splits)
qed

text \<open>
  C18. Signing up and logging in fit together: after a sign-up, the password it was given, and
  no other password that bcrypt accepts, opens a session for the new account, under any
  spelling of the address that differs in case or surrounding blanks; and that session then
  identifies the account.
\<close>

theorem signup_then_login:
  assumes "auth_ok st" and "bcrypt_ok C" and "SignUp (calm C) now i email p st = (st', Inr u)"
    and "normalizeEmail email' = normalizeEmail email" and "length q \<le> 72"
    and "sid \<notin> sess_id ` set (sessions st')" and "hashToken C tok \<notin> sess_hash ` set (sessions st')"
  shows "if q = p
    then \<exists>st'' ses. Login (calm C) now' (Some tok) sid email' q st' = (st'', Inr ses) \<and>
      ses_user ses = i \<and> (\<forall>t. t \<le> now' + SessionTTL \<longrightarrow> ValidateSession (calm C) t tok st'' = Inr u)
    else Login (calm C) now' (Some tok) sid email' q st' = (st', Inl ErrInvalidCredentials)"
proof -
  obtain h where h: "hashPassword C p = Some h" "insert_user (calm C) now i (normalizeEmail email) h st = Inr st'"
    and u: "user_by_id i st' = Some u"
    using SignUp_Inr [OF assms(3)] by auto
  have ok': "auth_ok st'" using auth_ok_insert_user [OF assms(1) h(2)] .
  have by_email: "user_by_email (normalizeEmail email') st' = Some u"
    using user_by_email_insert [OF assms(1) h(2)] user_by_id_insert [OF h(2)] u assms(4) by simp
  have uh: "user_hash u = h" "user_id u = i" using user_by_id_insert [OF h(2)] u by auto
  have ver: "verifyPassword C h q \<longleftrightarrow> q = p" using assms(2,5) h(1) by (auto simp: bcrypt_ok_def)
  show ?thesis
  proof (cases "q = p")
    case True
    have "i \<in> set (account_ids st')" using u user_by_id_mem by blast
    then obtain t where t: "insert_session (account_ids st')
        \<lparr>sess_id = sid, sess_user = i, sess_hash = hashToken C tok, sess_expires = now' + SessionTTL\<rparr> (sessions st') = Some t"
      using assms(6,7) by (simp add: insert_session_def)
    let ?ses = "\<lparr>ses_id = sid, ses_user = i, ses_token = tok, ses_expires = now' + SessionTTL\<rparr>"
    have "Login (calm C) now' (Some tok) sid email' q st' = (st'\<lparr>sessions := t\<rparr>, Inr ?ses)"
      using True by_email uh ver t by (simp add: Login_def createSession_def Let_def)
    moreover have "ValidateSession (calm C) x tok (st'\<lparr>sessions := t\<rparr>) = Inr u" if "x \<le> now' + SessionTTL" for x
      using that u t by (simp add: ValidateSession_def session_for_insert user_by_id_def)
    ultimately show ?thesis using True by auto
  next
    case False
    with by_email uh ver show ?thesis by (simp add: Login_def)
  qed
qed

theorem signup_then_login_witness:
  "\<exists>st' u. SignUp (calm plain_crypto) 5 ''u1'' '' Ann@B.co'' ''secret12'' empty_auth = (st', Inr u) \<and>
     (\<exists>st'' ses. Login (calm plain_crypto) 9 (Some ''t'') ''s'' ''ann@b.CO'' ''secret12'' st' = (st'', Inr ses) \<and>
       ses_user ses = ''u1'' \<and> (\<forall>t. t \<le> 9 + SessionTTL \<longrightarrow> ValidateSession (calm plain_crypto) t ''t'' st'' = Inr u)) \<and>
     Login (calm plain_crypto) 9 (Some ''t'') ''s'' ''ann@b.CO'' ''secret13'' st' = (st', Inl ErrInvalidCredentials)"
proof -
  define R where "R = SignUp (calm plain_crypto) 5 ''u1'' '' Ann@B.co'' ''secret12'' empty_auth"
  have "case snd R of Inr _ \<Rightarrow> True | _ \<Rightarrow> False" "sessions (fst R) = []" unfolding R_def by code_simp+
  then obtain st' u where "R = (st', Inr u)" and s: "sessions st' = []"
    by (cases R; cases "snd R") simp_all
  then have run: "SignUp (calm plain_crypto) 5 ''u1'' '' Ann@B.co'' ''secret12'' empty_auth = (st', Inr u)"
    unfolding R_def by blast
  have n: "normalizeEmail ''ann@b.CO'' = normalizeEmail '' Ann@B.co''" by code_simp
  note login = signup_then_login [OF auth_ok_empty plain_crypto_ok run n, where sid = "''s''" and tok = "''t''" and now' = 9]
  from login [of "''secret12''"] login [of "''secret13''"] run s show ?thesis by simp
qed

lemma ResetPassword_Inr:
  assumes "ResetPassword V now tok p st = (st', Inr uid)"
  obtains h r where "hashPassword (cr V) p = Some h" "find (\<lambda>r. reset_hash r = hashToken (cr V) tok) (resets st) = Some r"
    "reset_used r = None" "reset_user r = uid" "st' = drop_sessions uid (mark_used now uid (set_password now uid h st))"
  using assms by (auto simp: ResetPassword_def split: if_splits option.splits)

lemma find_set_password:
  "user_by_id i (set_password now uid h st) =
     map_option (\<lambda>u. if i = uid then u\<lparr>user_hash := h, user_updated := now\<rparr> else u) (user_by_id i st)"
proof -
  have "find (\<lambda>u. user_id u = i) (map (\<lambda>u. if user_id u = uid then u\<lparr>user_hash := h, user_updated := now\<rparr> else u) (users st)) =
      map_option (\<lambda>u. if user_id u = uid then u\<lparr>user_hash := h, user_updated := now\<rparr> else u) (find (\<lambda>u. user_id u = i) (users st))"
    by (rule find_map_key) simp
  then show ?thesis
    by (cases "find (\<lambda>u. user_id u = i) (users st)") (auto simp: user_by_id_def set_password_def dest: find_Some_mem)
qed

text \<open>
  C17. Redeeming a reset token secures the account: every session it had is gone, none of its
  outstanding reset tokens can be redeemed any more, this one included, and its password is the
  new one; every other account keeps its record, its password and its sessions.
\<close>

theorem reset_secures_account:
  assumes "auth_ok st" and "ResetPassword V now tok p st = (st', Inr uid)"
  shows "(\<forall>t tok' u. ValidateSession V t tok' st' = Inr u \<longrightarrow> user_id u \<noteq> uid) \<and>
    (\<forall>t tok' q st'' w. ResetPassword V t tok' q st' = (st'', Inr w) \<longrightarrow> w \<noteq> uid) \<and>
    (\<exists>u h. user_by_id uid st' = Some u \<and> user_hash u = h \<and> hashPassword (cr V) p = Some h) \<and>
    (\<forall>w. w \<noteq> uid \<longrightarrow> user_by_id w st' = user_by_id w st) \<and>
    (\<forall>t tok' u. ValidateSession V t tok' st = Inr u \<and> user_id u \<noteq> uid \<longrightarrow> ValidateSession V t tok' st' = Inr u)"
proof -
  obtain h r where r: "hashPassword (cr V) p = Some h"
    "find (\<lambda>r. reset_hash r = hashToken (cr V) tok) (resets st) = Some r" "reset_user r = uid"
    and st': "st' = drop_sessions uid (mark_used now uid (set_password now uid h st))"
    using ResetPassword_Inr [OF assms(2)] by metis
  have sess: "sessions st' = filter (\<lambda>r. sess_user r \<noteq> uid) (sessions st)" by (simp add: st' drop_sessions_def)
  have users': "user_by_id w st' = user_by_id w (set_password now uid h st)" for w
    by (simp add: st' user_by_id_def)
  have "reset_user r \<in> set (account_ids st)"
    using auth_ok_parts(6) [OF assms(1)] r(2) by (auto dest: find_Some_mem)
  then obtain u0 where u0: "user_by_id uid st = Some u0" using r(3) user_by_id_mem by blast
  note sf = session_for_filter [OF auth_ok_parts(3) [OF assms(1)]]
  have 1: "user_id u \<noteq> uid" if "ValidateSession V t tok' st' = Inr u" for t tok' u
    using that sf user_by_id_id
    by (fastforce simp: ValidateSession_def sess split: if_splits option.splits)
  have used: "reset_used x \<noteq> None" if "x \<in> set (resets st')" "reset_user x = uid" for x
  proof -
    have rs: "resets st' = map (\<lambda>r. if reset_user r = uid \<and> reset_used r = None then r\<lparr>reset_used := Some now\<rparr> else r) (resets st)"
      by (simp add: st' mark_used_def)
    from that(1) obtain y where y: "x = (if reset_user y = uid \<and> reset_used y = None then y\<lparr>reset_used := Some now\<rparr> else y)"
      unfolding rs set_map by (rule imageE)
    with that(2) show ?thesis by (cases "reset_user y = uid \<and> reset_used y = None") auto
  qed
  have 2: "w \<noteq> uid" if again: "ResetPassword V t tok' q st' = (st'', Inr w)" for t tok' q st'' w
  proof -
    obtain x where "find (\<lambda>r. reset_hash r = hashToken (cr V) tok') (resets st') = Some x" "reset_used x = None" "reset_user x = w"
      using ResetPassword_Inr [OF again] by blast
    with used [of x] show ?thesis by (auto dest: find_Some_mem)
  qed
  have 3: "\<exists>u h. user_by_id uid st' = Some u \<and> user_hash u = h \<and> hashPassword (cr V) p = Some h"
    using u0 r(1) by (simp add: users' find_set_password)
  have 4: "user_by_id w st' = user_by_id w st" if "w \<noteq> uid" for w
    using that by (cases "user_by_id w st") (simp_all add: users' find_set_password)
  have 5: "ValidateSession V t tok' st' = Inr u" if "ValidateSession V t tok' st = Inr u" "user_id u \<noteq> uid" for t tok' u
    using that 4 sf user_by_id_id
    by (fastforce simp: ValidateSession_def sess split: if_splits option.splits)
  from 1 2 3 4 5 show ?thesis by blast
qed

abbreviation two_accounts :: auth where
  "two_accounts \<equiv>
     \<lparr>users = [\<lparr>user_id = ''u1'', user_email = ''a@b.co'', user_hash = ''oldsecret'', user_created = 0, user_updated = 0\<rparr>,
               \<lparr>user_id = ''u2'', user_email = ''c@d.co'', user_hash = ''secret22'', user_created = 0, user_updated = 0\<rparr>],
      sessions = [\<lparr>sess_id = ''s1'', sess_user = ''u1'', sess_hash = ''t1'', sess_expires = 100\<rparr>,
                  \<lparr>sess_id = ''s2'', sess_user = ''u2'', sess_hash = ''t2'', sess_expires = 100\<rparr>],
      resets = [\<lparr>reset_id = ''r1'', reset_user = ''u1'', reset_hash = ''k1'', reset_expires = 50, reset_used = None\<rparr>],
      socials = []\<rparr>"

theorem reset_secures_account_witness:
  "\<exists>st'. ResetPassword (calm plain_crypto) 20 ''k1'' ''newsecret'' two_accounts = (st', Inr ''u1'') \<and>
     (\<forall>u. ValidateSession (calm plain_crypto) 21 ''t1'' st' = Inr u \<longrightarrow> user_id u \<noteq> ''u1'') \<and>
     user_by_id ''u2'' st' = user_by_id ''u2'' two_accounts"
proof -
  have ok: "auth_ok two_accounts"
    by (simp add: auth_ok_def account_ids_def sessions_ok_def ToLower_def lower_char_def is_upper_def less_eq_char_nat)
  have "snd (ResetPassword (calm plain_crypto) 20 ''k1'' ''newsecret'' two_accounts) = Inr ''u1''" by code_simp
  then obtain st' where run: "ResetPassword (calm plain_crypto) 20 ''k1'' ''newsecret'' two_accounts = (st', Inr ''u1'')"
    by (metis prod.collapse)
  note sec = reset_secures_account [OF ok run]
  have "\<forall>u. ValidateSession (calm plain_crypto) 21 ''t1'' st' = Inr u \<longrightarrow> user_id u \<noteq> ''u1''" using sec [THEN conjunct1] by blast
  moreover have "user_by_id ''u2'' st' = user_by_id ''u2'' two_accounts"
    using sec [THEN conjunct2, THEN conjunct2, THEN conjunct2, THEN conjunct1, THEN spec, of "''u2''"] by simp
  ultimately show ?thesis using run by blast
qed

lemma createSession_user:
  "createSession V now raw i uid st = (st', Inr ses) \<Longrightarrow> ses_user ses = uid"
  by (cases rule: createSession_cases [of V now raw i uid st]) auto

text \<open>
  A social sign-in never moves a signed-in browser to another account: with a current
  account it opens a session for that very account, creates none, and refuses, changing
  nothing, an identity that is linked elsewhere. Signed out, an identity that is linked opens
  a session for the account it is linked to.
\<close>

theorem social_never_switches_account:
  assumes "cur \<noteq> []" and "\<not> fails V SelectSocial"
  shows "(\<forall>st' ses new. LoginOrCreateViaSocial V now D pr pid email cur st = (st', Inr (ses, new)) \<longrightarrow>
      ses_user ses = cur \<and> \<not> new \<and> map user_id (users st') = map user_id (users st)) \<and>
    (\<forall>l. find (\<lambda>r. soc_provider r = pr \<and> soc_subject r = pid) (socials st) = Some l \<and> soc_user l \<noteq> cur \<longrightarrow>
      LoginOrCreateViaSocial V now D pr pid email cur st = (st, Inl ErrSocialIdentityLinkedElsewhere)) \<and>
    (\<forall>l st' ses new. find (\<lambda>r. soc_provider r = pr \<and> soc_subject r = pid) (socials st) = Some l \<and>
      LoginOrCreateViaSocial V now D pr pid email [] st = (st', Inr (ses, new)) \<longrightarrow> ses_user ses = soc_user l \<and> \<not> new)"
proof (intro conjI allI impI)
  fix st' ses new assume run: "LoginOrCreateViaSocial V now D pr pid email cur st = (st', Inr (ses, new))"
  obtain st1 where cs: "createSession V now (d_token D) (d_session D) cur st1 = (st', Inr ses)" "\<not> new"
    "users st1 = users st"
  proof (cases "find (\<lambda>r. soc_provider r = pr \<and> soc_subject r = pid) (socials st)")
    case (Some l)
    with run assms that [of st] show ?thesis
      by (auto simp: LoginOrCreateViaSocial_def split: if_splits prod.splits sum.splits)
  next
    case None
    with run assms that show ?thesis
      by (auto simp: LoginOrCreateViaSocial_def resolve_unlinked_def insert_social_def
          split: if_splits prod.splits sum.splits option.splits)
  qed
  from createSession_user [OF cs(1)] show "ses_user ses = cur" .
  from cs(2) show "\<not> new" .
  have "users st' = users st1"
    using cs(1) by (cases rule: createSession_cases [of V now "d_token D" "d_session D" cur st1]) auto
  with cs(3) show "map user_id (users st') = map user_id (users st)" by simp
next
  fix l assume "find (\<lambda>r. soc_provider r = pr \<and> soc_subject r = pid) (socials st) = Some l \<and> soc_user l \<noteq> cur"
  with assms show "LoginOrCreateViaSocial V now D pr pid email cur st = (st, Inl ErrSocialIdentityLinkedElsewhere)"
    by (simp add: LoginOrCreateViaSocial_def)
next
  fix l st' ses new assume "find (\<lambda>r. soc_provider r = pr \<and> soc_subject r = pid) (socials st) = Some l \<and>
      LoginOrCreateViaSocial V now D pr pid email [] st = (st', Inr (ses, new))"
  with assms(2) have "createSession V now (d_token D) (d_session D) (soc_user l) st = (st', Inr ses)" "\<not> new"
    by (auto simp: LoginOrCreateViaSocial_def split: prod.splits sum.splits)
  then show "ses_user ses = soc_user l" "\<not> new" using createSession_user by blast+
qed

abbreviation some_draws :: draws where
  "some_draws \<equiv> \<lparr>d_user = ''n1'', d_password = Some ''p'', d_link = ''l1'', d_session = ''s9'', d_token = Some ''t9''\<rparr>"

theorem social_never_switches_account_witness:
  "\<exists>st' ses. LoginOrCreateViaSocial (calm plain_crypto) 5 some_draws ''github'' ''42'' ''c@d.co'' ''u1'' two_accounts = (st', Inr (ses, False))
     \<and> ses_user ses = ''u1''"
proof -
  define R where "R = LoginOrCreateViaSocial (calm plain_crypto) 5 some_draws ''github'' ''42'' ''c@d.co'' ''u1'' two_accounts"
  have "case snd R of Inl _ \<Rightarrow> False | Inr _ \<Rightarrow> True" unfolding R_def by code_simp
  then obtain ses new where "R = (fst R, Inr (ses, new))" by (cases R; cases "snd R") auto
  moreover have "ses_user s = ''u1'' \<and> \<not> n" if "R = (st', Inr (s, n))" for st' s n
    using social_never_switches_account [of "''u1''" "calm plain_crypto" 5 some_draws "''github''" "''42''" "''c@d.co''" two_accounts] that
    unfolding R_def by simp
  ultimately show ?thesis unfolding R_def by metis
qed

text \<open>
  The placeholder address of a social account without an e-mail is not reserved: whoever
  signs up with it first owns the account the identity is later linked to. Here \<open>mallory\<close>
  signs up with the placeholder of GitHub user 42; when that user first signs in, the session
  is one for mallory's account, and it is reported as a new account.
\<close>

theorem placeholder_address_can_be_claimed:
  "\<exists>st1 st2 ses. SignUp (calm plain_crypto) 1 ''mallory'' (placeholder_email ''github'' ''42'') ''hackhack'' empty_auth = (st1, Inr (hd (users st1))) \<and>
     LoginOrCreateViaSocial (calm plain_crypto) 2 some_draws ''github'' ''42'' [] [] st1 = (st2, Inr (ses, True)) \<and>
     ses_user ses = ''mallory'' \<and> map user_id (users st2) = [''mallory'']"
proof -
  define st1 where "st1 = fst (SignUp (calm plain_crypto) 1 ''mallory'' (placeholder_email ''github'' ''42'') ''hackhack'' empty_auth)"
  define R where "R = LoginOrCreateViaSocial (calm plain_crypto) 2 some_draws ''github'' ''42'' [] [] st1"
  have 1: "snd (SignUp (calm plain_crypto) 1 ''mallory'' (placeholder_email ''github'' ''42'') ''hackhack'' empty_auth) = Inr (hd (users st1))"
    unfolding st1_def by code_simp
  have 2: "case snd R of Inr (ses, new) \<Rightarrow> ses_user ses = ''mallory'' \<and> new | Inl _ \<Rightarrow> False"
    "map user_id (users (fst R)) = [''mallory'']"
    unfolding R_def st1_def by code_simp+
  then obtain ses where "snd R = Inr (ses, True)" "ses_user ses = ''mallory''"
    by (cases "snd R") (auto split: prod.splits)
  moreover from this have "LoginOrCreateViaSocial (calm plain_crypto) 2 some_draws ''github'' ''42'' [] [] st1 = (fst R, Inr (ses, True))"
    unfolding R_def by (metis prod.collapse)
  moreover have "SignUp (calm plain_crypto) 1 ''mallory'' (placeholder_email ''github'' ''42'') ''hackhack'' empty_auth =
      (st1, Inr (hd (users st1)))"
    using 1 unfolding st1_def by (metis prod.collapse)
  ultimately show ?thesis using 2(2)
    by (intro exI [of _ st1] exI [of _ "fst R"] exI [of _ ses] conjI)
qed

end
