(* ===== verification/Owner_Auth.thy ===== *)
theory Owner_Auth
  imports Session_Store
begin

text \<open>
  The owner plane: \<^verbatim>\<open>internal/ownerauth/service.go\<close> and \<^verbatim>\<open>models.go\<close> on the tables of migration
  0003. Its sessions meet the same contract as the customers'; deleting an owner checks and
  deletes in one transaction.
\<close>

section \<open>Roles\<close>

type_synonym Role = string

abbreviation RoleOwner :: Role where "RoleOwner \<equiv> ''owner''"

definition rank :: "Role \<Rightarrow> nat option" where
  "rank r = map_of [(''viewer'', 1), (''developer'', 2), (''admin'', 3), (''owner'', 4)] r"

definition IsValid :: "Role \<Rightarrow> bool" where
  "IsValid r \<longleftrightarrow> rank r \<noteq> None"

definition AtLeast :: "Role \<Rightarrow> Role \<Rightarrow> bool" where
  "AtLeast r least =
     (case rank r of None \<Rightarrow> False
      | Some rr \<Rightarrow> (case rank least of None \<Rightarrow> False | Some mr \<Rightarrow> rr \<ge> mr))"


section \<open>State\<close>

record owner_row =
  own_id :: string
  own_email :: string
  own_hash :: string
  own_role :: Role
  own_created :: time

record owners =
  owner_users :: "owner_row list"
  owner_sessions :: session_table

datatype owner_error =
    OErrAlreadyBootstrapped | OErrInvalidRole | OErrInvalidEmail | OErrWeakPassword | OErrEmailTaken
  | OErrInvalidCredentials | OErrSessionNotFound | OErrOwnerNotFound | OErrLastOwner | OInternal string

datatype owner_stmt =
    OCount | OInsert | OSelectById | OSelectByEmail | OSelectSession | ODeleteSession | OPurge | OList
  | OBegin | OSelectTarget | OCountOwners | ODelete | OCommit | OInsertSession

record owner_env =
  ocr :: crypto
  ofails :: "owner_stmt \<Rightarrow> bool"

abbreviation OwnerSessionTTL :: duration where "OwnerSessionTTL \<equiv> 7 * 24 * hour"

record owner_session =
  osn_id :: string
  osn_owner :: string
  osn_token :: string
  osn_expires :: time

definition owner_ids :: "owners \<Rightarrow> string list" where
  "owner_ids st = map own_id (owner_users st)"

definition owner_by_id :: "string \<Rightarrow> owners \<Rightarrow> owner_row option" where
  "owner_by_id i st = find (\<lambda>o'. own_id o' = i) (owner_users st)"

definition owner_count :: "owners \<Rightarrow> nat" where
  "owner_count st = length (filter (\<lambda>o'. own_role o' = RoleOwner) (owner_users st))"


section \<open>Operations\<close>

definition GetOwner :: "owner_env \<Rightarrow> string \<Rightarrow> owners \<Rightarrow> owner_error + owner_row" where
  "GetOwner V i st =
     (if ofails V OSelectById then Inl (OInternal ''lookup owner'')
      else (case owner_by_id i st of None \<Rightarrow> Inl OErrOwnerNotFound | Some o' \<Rightarrow> Inr o'))"

definition createOwner :: "owner_env \<Rightarrow> time \<Rightarrow> string \<Rightarrow> string \<Rightarrow> string \<Rightarrow> Role \<Rightarrow> owners
    \<Rightarrow> owners \<times> (owner_error + owner_row)" where
  "createOwner V now i email0 password role st =
     (let email = normalizeEmail email0
      in if \<not> emailRe email then (st, Inl OErrInvalidEmail)
         else if length password < 8 then (st, Inl OErrWeakPassword)
         else (case hashPassword (ocr V) password of
                 None \<Rightarrow> (st, Inl (OInternal ''hash password''))
               | Some h \<Rightarrow>
                   if ofails V OInsert then (st, Inl (OInternal ''insert owner''))
                   else if list_ex (\<lambda>o'. own_id o' = i \<or> ToLower (own_email o') = ToLower email) (owner_users st)
                        then (st, Inl OErrEmailTaken)
                   else (let st' = st\<lparr>owner_users := owner_users st @
                               [\<lparr>own_id = i, own_email = email, own_hash = h, own_role = role, own_created = now\<rparr>]\<rparr>
                         in (st', GetOwner V i st'))))"

definition Bootstrap :: "owner_env \<Rightarrow> time \<Rightarrow> string \<Rightarrow> string \<Rightarrow> string \<Rightarrow> owners \<Rightarrow> owners \<times> (owner_error + owner_row)" where
  "Bootstrap V now i email password st =
     (if ofails V OCount then (st, Inl (OInternal ''count owners''))
      else if length (owner_users st) > 0 then (st, Inl OErrAlreadyBootstrapped)
      else createOwner V now i email password RoleOwner st)"

definition CreateOwner :: "owner_env \<Rightarrow> time \<Rightarrow> string \<Rightarrow> string \<Rightarrow> string \<Rightarrow> Role \<Rightarrow> owners
    \<Rightarrow> owners \<times> (owner_error + owner_row)" where
  "CreateOwner V now i email password role st =
     (if \<not> IsValid role then (st, Inl OErrInvalidRole) else createOwner V now i email password role st)"

definition ownerCreateSession :: "owner_env \<Rightarrow> time \<Rightarrow> string option \<Rightarrow> string \<Rightarrow> string \<Rightarrow> owners
    \<Rightarrow> owners \<times> (owner_error + owner_session)" where
  "ownerCreateSession V now raw i oid st =
     (case raw of
        None \<Rightarrow> (st, Inl (OInternal ''generate token''))
      | Some tok \<Rightarrow>
          (let expiresAt = now + OwnerSessionTTL
           in if ofails V OInsertSession then (st, Inl (OInternal ''insert session''))
              else (case insert_session (owner_ids st)
                       \<lparr>sess_id = i, sess_user = oid, sess_hash = hashToken (ocr V) tok, sess_expires = expiresAt\<rparr> (owner_sessions st) of
                      None \<Rightarrow> (st, Inl (OInternal ''insert session''))
                    | Some t \<Rightarrow> (st\<lparr>owner_sessions := t\<rparr>,
                        Inr \<lparr>osn_id = i, osn_owner = oid, osn_token = tok, osn_expires = expiresAt\<rparr>))))"

definition ownerLogin :: "owner_env \<Rightarrow> time \<Rightarrow> string option \<Rightarrow> string \<Rightarrow> string \<Rightarrow> string \<Rightarrow> owners
    \<Rightarrow> owners \<times> (owner_error + owner_session)" where
  "ownerLogin V now raw i email0 password st =
     (if ofails V OSelectByEmail then (st, Inl (OInternal ''lookup owner''))
      else (case find (\<lambda>o'. own_email o' = normalizeEmail email0) (owner_users st) of
              None \<Rightarrow> (st, Inl OErrInvalidCredentials)
            | Some o' \<Rightarrow>
                if \<not> verifyPassword (ocr V) (own_hash o') password then (st, Inl OErrInvalidCredentials)
                else ownerCreateSession V now raw i (own_id o') st))"

definition ownerValidateSession :: "owner_env \<Rightarrow> time \<Rightarrow> string \<Rightarrow> owners \<Rightarrow> owner_error + owner_row" where
  "ownerValidateSession V now rawToken st =
     (if ofails V OSelectSession then Inl (OInternal ''lookup session'')
      else (case session_for (hashToken (ocr V) rawToken) (owner_sessions st) of
              None \<Rightarrow> Inl OErrSessionNotFound
            | Some r \<Rightarrow>
                (case owner_by_id (sess_user r) st of
                   None \<Rightarrow> Inl OErrSessionNotFound
                 | Some o' \<Rightarrow> if now > sess_expires r then Inl OErrSessionNotFound else Inr o')))"

definition ownerLogout :: "owner_env \<Rightarrow> string \<Rightarrow> owners \<Rightarrow> owners \<times> (owner_error + unit)" where
  "ownerLogout V rawToken st =
     (if ofails V ODeleteSession then (st, Inl (OInternal ''delete session''))
      else (st\<lparr>owner_sessions := filter (\<lambda>r. sess_hash r \<noteq> hashToken (ocr V) rawToken) (owner_sessions st)\<rparr>, Inr ()))"

definition ownerPurgeExpired :: "owner_env \<Rightarrow> time \<Rightarrow> owners \<Rightarrow> owners \<times> (owner_error + nat)" where
  "ownerPurgeExpired V now st =
     (if ofails V OPurge then (st, Inl (OInternal ''purge expired owner sessions''))
      else (st\<lparr>owner_sessions := filter (\<lambda>r. \<not> sess_expires r \<le> now) (owner_sessions st)\<rparr>,
            Inr (length (filter (\<lambda>r. sess_expires r \<le> now) (owner_sessions st)))))"

definition ListOwners :: "owner_env \<Rightarrow> owners \<Rightarrow> owner_error + owner_row list" where
  "ListOwners V st =
     (if ofails V OList then Inl (OInternal ''list owners'') else Inr (sort_key own_created (owner_users st)))"

definition DeleteOwner :: "owner_env \<Rightarrow> string \<Rightarrow> owners \<Rightarrow> owners \<times> (owner_error + owner_row)" where
  "DeleteOwner V i st =
     (if ofails V OBegin then (st, Inl (OInternal ''begin tx''))
      else if ofails V OSelectTarget then (st, Inl (OInternal ''lookup owner''))
      else (case owner_by_id i st of
              None \<Rightarrow> (st, Inl OErrOwnerNotFound)
            | Some target \<Rightarrow>
                if own_role target = RoleOwner \<and> ofails V OCountOwners then (st, Inl (OInternal ''count owners''))
                else if own_role target = RoleOwner \<and> owner_count st \<le> 1 then (st, Inl OErrLastOwner)
                else if ofails V ODelete then (st, Inl (OInternal ''delete owner''))
                else if ofails V OCommit then (st, Inl (OInternal ''commit''))
                else (st\<lparr>owner_users := filter (\<lambda>o'. own_id o' \<noteq> i) (owner_users st),
                         owner_sessions := filter (\<lambda>r. sess_user r \<noteq> i) (owner_sessions st)\<rparr>, Inr target)))"


section \<open>Invariant and reachable states\<close>

definition owners_ok :: "owners \<Rightarrow> bool" where
  "owners_ok st \<longleftrightarrow>
     distinct (owner_ids st) \<and> distinct (map (\<lambda>o'. ToLower (own_email o')) (owner_users st)) \<and>
     sessions_ok (owner_ids st) (owner_sessions st) \<and>
     (\<forall>o' \<in> set (owner_users st). IsValid (own_role o')) \<and>
     (owner_users st \<noteq> [] \<longrightarrow> owner_count st \<ge> 1)"

definition no_owners :: owners where
  "no_owners = \<lparr>owner_users = [], owner_sessions = []\<rparr>"

inductive owner_step :: "owner_env \<Rightarrow> owners \<Rightarrow> owners \<Rightarrow> bool" for V where
  boot: "owner_step V st (fst (Bootstrap V now i e p st))"
| create: "owner_users st \<noteq> [] \<Longrightarrow> owner_step V st (fst (CreateOwner V now i e p r st))"
| login: "owner_step V st (fst (ownerLogin V now raw i e p st))"
| logout: "owner_step V st (fst (ownerLogout V tok st))"
| purge: "owner_step V st (fst (ownerPurgeExpired V now st))"
| delete: "owner_step V st (fst (DeleteOwner V i st))"

inductive owner_reach :: "owners \<Rightarrow> bool" where
  start: "owner_reach no_owners"
| next_step: "owner_reach st \<Longrightarrow> owner_step V st st' \<Longrightarrow> owner_reach st'"

lemma owners_ok_sessions [keeps]:
  "owners_ok st \<Longrightarrow> sessions_ok (owner_ids st) t \<Longrightarrow> owners_ok (st\<lparr>owner_sessions := t\<rparr>)"
  by (simp add: owners_ok_def owner_ids_def owner_count_def)

lemma owners_ok_filter_sessions [keeps]: "owners_ok st \<Longrightarrow> owners_ok (st\<lparr>owner_sessions := filter P (owner_sessions st)\<rparr>)"
  by (intro owners_ok_sessions sessions_ok_filter) (simp_all add: owners_ok_def)

lemma createOwner_ok [keeps]:
  assumes "owners_ok st" and "IsValid role" and "owner_users st \<noteq> [] \<or> role = RoleOwner"
  shows "owners_ok (fst (createOwner V now i e p role st))"
proof -
  let ?e = "normalizeEmail e"
  have "owners_ok (st\<lparr>owner_users := owner_users st @ [\<lparr>own_id = i, own_email = ?e, own_hash = h, own_role = role, own_created = now\<rparr>]\<rparr>)"
    if new: "\<not> list_ex (\<lambda>o'. own_id o' = i \<or> ToLower (own_email o') = ToLower ?e) (owner_users st)" for h
  proof -
    have "sessions_ok (owner_ids st @ [i]) (owner_sessions st)"
      using assms(1) by (auto simp: owners_ok_def sessions_ok_def)
    with assms new show ?thesis
      by (auto simp: owners_ok_def owner_ids_def owner_count_def list_ex_iff)
  qed
  with assms(1) show ?thesis by (simp add: createOwner_def Let_def split: option.splits)
qed

lemma ownerCreateSession_cases:
  obtains e where "ownerCreateSession V now raw i uid st = (st, Inl e)"
  | tok t where "raw = Some tok" "insert_session (owner_ids st)
        \<lparr>sess_id = i, sess_user = uid, sess_hash = hashToken (ocr V) tok, sess_expires = now + OwnerSessionTTL\<rparr> (owner_sessions st) = Some t"
      "ownerCreateSession V now raw i uid st =
         (st\<lparr>owner_sessions := t\<rparr>, Inr \<lparr>osn_id = i, osn_owner = uid, osn_token = tok, osn_expires = now + OwnerSessionTTL\<rparr>)"
proof (cases raw)
  case None
  with that(1) show ?thesis by (simp add: ownerCreateSession_def)
next
  case (Some tok)
  show ?thesis
  proof (cases "insert_session (owner_ids st)
      \<lparr>sess_id = i, sess_user = uid, sess_hash = hashToken (ocr V) tok, sess_expires = now + OwnerSessionTTL\<rparr> (owner_sessions st)")
    case None
    with Some that(1) show ?thesis by (simp add: ownerCreateSession_def Let_def split: if_splits)
  next
    case ins: (Some t)
    with Some that(1) that(2) [OF Some ins] show ?thesis
      by (cases "ofails V OInsertSession") (simp_all add: ownerCreateSession_def Let_def)
  qed
qed

lemma ownerCreateSession_ok [keeps]: "owners_ok st \<Longrightarrow> owners_ok (fst (ownerCreateSession V now raw i uid st))"
proof (cases rule: ownerCreateSession_cases [of V now raw i uid st])
  case (2 tok t)
  assume ok: "owners_ok st"
  then have "sessions_ok (owner_ids st) (owner_sessions st)" by (simp add: owners_ok_def)
  from sessions_ok_insert [OF this 2(2)] ok 2(3) show ?thesis by (simp add: owners_ok_sessions)
qed simp

lemma DeleteOwner_ok [keeps]: "owners_ok st \<Longrightarrow> owners_ok (fst (DeleteOwner V i st))"
proof -
  assume ok: "owners_ok st"
  show ?thesis
  proof (cases "fst (DeleteOwner V i st) = st")
    case False
    then obtain target where t: "owner_by_id i st = Some target" "\<not> (own_role target = RoleOwner \<and> owner_count st \<le> 1)"
      and st': "fst (DeleteOwner V i st) = st\<lparr>owner_users := filter (\<lambda>o'. own_id o' \<noteq> i) (owner_users st),
                         owner_sessions := filter (\<lambda>r. sess_user r \<noteq> i) (owner_sessions st)\<rparr>"
      by (auto simp: DeleteOwner_def split: if_splits option.splits)
    have mem: "target \<in> set (owner_users st)" "own_id target = i" using t(1) by (auto simp: owner_by_id_def dest: find_Some_mem)
    have dist: "distinct (map own_id (owner_users st))" using ok by (simp add: owners_ok_def owner_ids_def)
    have only: "o' = target" if "o' \<in> set (owner_users st)" "own_id o' = i" for o'
      using that mem dist by (metis (no_types, lifting) distinct_map inj_onD)
    have "owner_count st \<ge> 1" using ok mem(1) by (auto simp: owners_ok_def)
    then obtain w where w: "w \<in> set (owner_users st)" "own_role w = RoleOwner" "own_id w \<noteq> i"
    proof (cases "own_role target = RoleOwner")
      case False
      with \<open>owner_count st \<ge> 1\<close> only that show ?thesis by (auto simp: owner_count_def neq_Nil_conv Suc_le_eq filter_empty_conv)
    next
      case True
      with t(2) have "2 \<le> length (filter (\<lambda>o'. own_role o' = RoleOwner) (owner_users st))" by (simp add: owner_count_def)
      moreover have "distinct (filter (\<lambda>o'. own_role o' = RoleOwner) (owner_users st))"
        using dist by (simp add: distinct_map)
      ultimately have "\<exists>w \<in> set (filter (\<lambda>o'. own_role o' = RoleOwner) (owner_users st)). w \<noteq> target"
        by (metis card_le_Suc0_iff_eq distinct_card finite_set not_less_eq_eq numeral_2_eq_2)
      with only that show ?thesis by auto
    qed
    then have "owner_count (st\<lparr>owner_users := filter (\<lambda>o'. own_id o' \<noteq> i) (owner_users st),
                         owner_sessions := filter (\<lambda>r. sess_user r \<noteq> i) (owner_sessions st)\<rparr>) \<ge> 1"
      by (auto simp: owner_count_def Suc_le_eq length_greater_0_conv filter_empty_conv)
    with ok show ?thesis
      unfolding st' by (auto simp: owners_ok_def owner_ids_def sessions_ok_def distinct_map_filter)
  qed (use ok in simp)
qed

lemma owner_step_ok [keeps]: "owner_step V st st' \<Longrightarrow> owners_ok st \<Longrightarrow> owners_ok st'"
proof (induction rule: owner_step.induct)
  case (boot st now i e p)
  then show ?case by (auto simp: Bootstrap_def IsValid_def rank_def intro!: createOwner_ok)
next
  case (create st now i e p r)
  then show ?case by (auto simp: CreateOwner_def intro!: createOwner_ok)
next
  case (login st now raw i e p)
  then show ?case by (auto simp: ownerLogin_def ownerCreateSession_ok split: option.splits)
qed (simp_all add: ownerLogout_def ownerPurgeExpired_def owners_ok_filter_sessions DeleteOwner_ok)

lemma no_owners_ok [keeps]: "owners_ok no_owners"
  by (simp add: no_owners_def owners_ok_def owner_ids_def sessions_ok_def owner_count_def)

lemma owner_reach_ok: "owner_reach st \<Longrightarrow> owners_ok st"
  by (induction rule: owner_reach.induct) (auto intro: owner_step_ok no_owners_ok)


section \<open>Sessions of the owners\<close>

lemma owner_by_id_mem: "i \<in> set (owner_ids st) \<longleftrightarrow> (\<exists>u. owner_by_id i st = Some u)"
  unfolding owner_by_id_def owner_ids_def
  by (cases "find (\<lambda>u. own_id u = i) (owner_users st)") (auto simp: find_None_all dest: find_Some_mem)

lemma owner_by_id_id: "owner_by_id i st = Some u \<Longrightarrow> own_id u = i \<and> u \<in> set (owner_users st)"
  by (auto simp: owner_by_id_def dest: find_Some_mem)

definition owner_calm :: "crypto \<Rightarrow> owner_env" where
  "owner_calm C = \<lparr>ocr = C, ofails = (\<lambda>_. False)\<rparr>"

lemma owner_calm_simps [simp]: "ocr (owner_calm C) = C" "ofails (owner_calm C) q = False"
  by (simp_all add: owner_calm_def)

definition owner_whoami :: "crypto \<Rightarrow> owners \<Rightarrow> string \<Rightarrow> time \<Rightarrow> string option" where
  "owner_whoami C st tok t = (case ownerValidateSession (owner_calm C) t tok st of Inl _ \<Rightarrow> None | Inr u \<Rightarrow> Some (own_id u))"

definition owner_issue :: "crypto \<Rightarrow> owners \<Rightarrow> string \<Rightarrow> string \<Rightarrow> string \<Rightarrow> time \<Rightarrow> owners option" where
  "owner_issue C st i uid tok now =
     (case ownerCreateSession (owner_calm C) now (Some tok) i uid st of (st', Inr _) \<Rightarrow> Some st' | _ \<Rightarrow> None)"

definition owner_revoke :: "crypto \<Rightarrow> owners \<Rightarrow> string \<Rightarrow> owners" where
  "owner_revoke C st tok = fst (ownerLogout (owner_calm C) tok st)"

definition owner_purge :: "crypto \<Rightarrow> owners \<Rightarrow> time \<Rightarrow> owners" where
  "owner_purge C st now = fst (ownerPurgeExpired (owner_calm C) now st)"

lemma owners_ok_hashes: "owners_ok st \<Longrightarrow> distinct (map sess_hash (owner_sessions st))"
  by (simp add: owners_ok_def sessions_ok_def)

lemma owner_whoami_eq:
  assumes "owners_ok st"
  shows "owner_whoami C st tok t =
    (case session_for (hashToken C tok) (owner_sessions st) of
       None \<Rightarrow> None | Some r \<Rightarrow> if t \<le> sess_expires r then Some (sess_user r) else None)"
proof (cases "session_for (hashToken C tok) (owner_sessions st)")
  case (Some r)
  then have "r \<in> set (owner_sessions st)" by (auto simp: session_for_def dest: find_Some_mem)
  with assms obtain u where "owner_by_id (sess_user r) st = Some u"
    using owner_by_id_mem by (fastforce simp: owners_ok_def sessions_ok_def)
  with Some show ?thesis by (auto simp: owner_whoami_def ownerValidateSession_def dest: owner_by_id_id)
qed (simp add: owner_whoami_def ownerValidateSession_def)

lemma owner_issue_SomeE:
  assumes "owner_issue C st i uid tok now = Some st'"
  obtains t where "st' = st\<lparr>owner_sessions := t\<rparr>" "insert_session (owner_ids st)
      \<lparr>sess_id = i, sess_user = uid, sess_hash = hashToken C tok, sess_expires = now + OwnerSessionTTL\<rparr> (owner_sessions st) = Some t"
  using assms
  by (cases rule: ownerCreateSession_cases [of "owner_calm C" now "Some tok" i uid st]) (auto simp: owner_issue_def)

interpretation own: session_service "owner_whoami C" "owner_issue C" "owner_revoke C" "owner_purge C"
    "\<lambda>a b. hashToken C a = hashToken C b" OwnerSessionTTL owners_ok for C
proof unfold_locales
  fix st i u tok now st' assume ok: "owners_ok st" and iss: "owner_issue C st i u tok now = Some st'"
  show ok': "owners_ok st'"
    using ownerCreateSession_ok [OF ok, of "owner_calm C" now "Some tok" i u] iss
    by (auto simp: owner_issue_def split: prod.splits sum.splits)
  fix tok' t
  show "owner_whoami C st' tok' t = (if hashToken C tok' = hashToken C tok then (if t \<le> now + OwnerSessionTTL then Some u else None)
      else owner_whoami C st tok' t)"
    using iss
  proof (rule owner_issue_SomeE)
    fix ts assume "st' = st\<lparr>owner_sessions := ts\<rparr>" "insert_session (owner_ids st)
      \<lparr>sess_id = i, sess_user = u, sess_hash = hashToken C tok, sess_expires = now + OwnerSessionTTL\<rparr> (owner_sessions st) = Some ts"
    then show ?thesis
      unfolding owner_whoami_eq [OF ok'] owner_whoami_eq [OF ok] by (simp add: session_for_insert)
  qed
next
  fix st tok assume ok: "owners_ok st"
  show ok': "owners_ok (owner_revoke C st tok)"
    using ok by (simp add: owner_revoke_def ownerLogout_def owners_ok_filter_sessions)
  fix tok' t
  have "session_for (hashToken C tok') (owner_sessions (owner_revoke C st tok)) =
      (if hashToken C tok' = hashToken C tok then None else session_for (hashToken C tok') (owner_sessions st))"
    using owners_ok_hashes [OF ok]
    by (auto simp: owner_revoke_def ownerLogout_def session_for_filter split: option.splits)
      (auto simp: session_for_def dest: find_Some_mem)
  then show "owner_whoami C (owner_revoke C st tok) tok' t =
      (if hashToken C tok' = hashToken C tok then None else owner_whoami C st tok' t)"
    by (simp add: owner_whoami_eq [OF ok'] owner_whoami_eq [OF ok])
next
  fix st now assume ok: "owners_ok st"
  show ok': "owners_ok (owner_purge C st now)"
    using ok by (simp add: owner_purge_def ownerPurgeExpired_def owners_ok_filter_sessions)
  fix tok' t assume "now < (t :: time)"
  then show "owner_whoami C (owner_purge C st now) tok' t = owner_whoami C st tok' t"
    unfolding owner_whoami_eq [OF ok'] owner_whoami_eq [OF ok] using owners_ok_hashes [OF ok]
    by (auto simp: owner_purge_def ownerPurgeExpired_def session_for_filter split: option.splits)
qed


section \<open>Properties\<close>

text \<open>
  C19. The team can never lock itself out: in every reachable state that has any account of the
  owner plane at all, at least one of them has the role of an owner (and all roles are known,
  identifiers and addresses unique, sessions attached to living accounts).
\<close>

theorem never_without_an_owner:
  assumes "owner_reach st" and "owner_users st \<noteq> []"
  shows "owners_ok st \<and> (\<exists>o' \<in> set (owner_users st). own_role o' = RoleOwner)"
  using owner_reach_ok [OF assms(1)] assms(2)
  by (auto simp: owners_ok_def owner_count_def Suc_le_eq filter_empty_conv)

abbreviation booted :: owners where
  "booted \<equiv> fst (Bootstrap (owner_calm plain_crypto) 1 ''o1'' ''root@x.co'' ''changeme'' no_owners)"

lemma booted_reach: "owner_reach booted"
  by (rule owner_reach.next_step [OF owner_reach.start owner_step.boot])

theorem never_without_an_owner_witness:
  "let st = fst (DeleteOwner (owner_calm plain_crypto) ''o1'' booted)
   in owner_users st \<noteq> [] \<and> (\<exists>o' \<in> set (owner_users st). own_role o' = RoleOwner)"
proof -
  let ?st = "fst (DeleteOwner (owner_calm plain_crypto) ''o1'' booted)"
  have r: "owner_reach ?st" by (rule owner_reach.next_step [OF booted_reach owner_step.delete])
  have ne: "owner_users ?st \<noteq> []" by code_simp
  from never_without_an_owner [OF r ne] ne show ?thesis by (simp add: Let_def)
qed

text \<open>
  A session of the owner plane lives exactly as long as it should: until it expires,
  whatever other logins, logouts and purges happen, and never after its own logout.
\<close>

theorem owner_session_lifetime:
  assumes "owners_ok st" and "owner_issue C st i uid tok now = Some st'"
    and "session_service.leaves_alone (\<lambda>a b. hashToken C a = hashToken C b) tok t ops"
  shows "owner_whoami C (session_service.run (owner_issue C) (owner_revoke C) (owner_purge C) st' ops) tok t =
      (if t \<le> now + OwnerSessionTTL then Some uid else None) \<and>
    owner_whoami C (session_service.run (owner_issue C) (owner_revoke C) (owner_purge C) (owner_revoke C st' tok) ops) tok t = None"
  using own.session_lifetime [OF assms(1,2) refl assms(3)]
    own.revoked_stays_revoked [OF own.issue_invar [OF assms(1,2)] refl assms(3)] by simp

theorem owner_session_lifetime_witness:
  "\<exists>st'. owner_issue plain_crypto booted ''s1'' ''o1'' ''t1'' 10 = Some st' \<and>
     owner_whoami plain_crypto (session_service.run (owner_issue plain_crypto) (owner_revoke plain_crypto) (owner_purge plain_crypto)
       st' [Inr (Inr 11)]) ''t1'' 12 = Some ''o1''"
proof -
  have ok: "owners_ok booted" by (rule owner_reach_ok [OF booted_reach])
  define R where "R = owner_issue plain_crypto booted ''s1'' ''o1'' ''t1'' 10"
  have "R \<noteq> None" unfolding R_def by code_simp
  then obtain st' where st': "owner_issue plain_crypto booted ''s1'' ''o1'' ''t1'' 10 = Some st'" unfolding R_def by blast
  have "session_service.leaves_alone (\<lambda>a b. hashToken plain_crypto a = hashToken plain_crypto b) ''t1'' 12 [Inr (Inr 11)]"
    unfolding own.leaves_alone.simps by simp
  from owner_session_lifetime [OF ok st' this] st' show ?thesis by simp
qed

text \<open>
  Roles are totally ordered and fail closed: among the four known roles, \<open>AtLeast\<close> is the
  order of their ranks, so a role that passes a check passes every weaker one; a role the code
  does not know passes no check and no check on an unknown role is passed.
\<close>

theorem roles_ordered_and_closed:
  "(AtLeast r a \<and> AtLeast a b \<longrightarrow> AtLeast r b) \<and>
   (IsValid a \<and> IsValid b \<longrightarrow> AtLeast a b \<or> AtLeast b a) \<and>
   (AtLeast a b \<and> AtLeast b a \<longrightarrow> a = b) \<and>
   (\<not> IsValid a \<or> \<not> IsValid b \<longrightarrow> \<not> AtLeast a b) \<and>
   (IsValid a \<longrightarrow> AtLeast RoleOwner a)"
  by (auto simp: AtLeast_def IsValid_def rank_def split: option.splits if_splits)

theorem roles_ordered_and_closed_witness:
  "AtLeast ''admin'' ''developer'' \<and> AtLeast ''developer'' ''viewer'' \<and> AtLeast ''admin'' ''viewer'' \<and>
   \<not> AtLeast ''root'' ''viewer''"
proof -
  have "AtLeast ''admin'' ''developer''" "AtLeast ''developer'' ''viewer''" "\<not> IsValid ''root''" by code_simp+
  with roles_ordered_and_closed [of "''admin''" "''developer''" "''viewer''"] roles_ordered_and_closed [of _ "''root''" "''viewer''"]
  show ?thesis by blast
qed

end
