(* ===== verification/OAuth_Storage.thy ===== *)
theory OAuth_Storage
  imports Maubase_Prelude
begin

text \<open>
  The authorization server's storage: \<^verbatim>\<open>internal/oauth/storage.go\<close>, \<^verbatim>\<open>clients.go\<close>, the consent
  functions of \<^verbatim>\<open>provider.go\<close> and the key store of \<^verbatim>\<open>keys.go\<close>, on the tables of migrations 0002
  and 0009. A stored request and a stored session stand for the JSON blobs they are written as.
  A statement fails when the argument \<open>fails\<close> says so. Fosite, which calls the storage, is not
  modelled: what matters is what each call returns and leaves behind, in any order of calls. A
  read that passes a session has it filled from the row (\<open>want\<close>); one that passes none gets a
  request without a session.
\<close>

section \<open>Tables\<close>

record client =
  cl_id :: string
  cl_secret :: "string option"
  cl_name :: string
  cl_redirects :: "string list"
  cl_grant_types :: "string list"
  cl_response_types :: "string list"
  cl_scopes :: "string list"
  cl_method :: string
  cl_public :: bool

record fosite_client =
  fc_id :: string
  fc_secret :: "string option"
  fc_redirects :: "string list"
  fc_grant_types :: "string list"
  fc_response_types :: "string list"
  fc_scopes :: "string list"
  fc_public :: bool

definition toFosite :: "client \<Rightarrow> fosite_client" where
  "toFosite c = \<lparr>fc_id = cl_id c, fc_secret = cl_secret c, fc_redirects = cl_redirects c,
     fc_grant_types = cl_grant_types c, fc_response_types = cl_response_types c,
     fc_scopes = cl_scopes c, fc_public = cl_public c\<rparr>"

record stored_session =
  ss_subject :: string
  ss_username :: string
  ss_claims_subject :: string
  ss_issuer :: string
  ss_issued_at :: time
  ss_email :: string
  ss_kid :: string

record stored_request =
  sr_id :: string
  sr_requested_at :: time
  sr_requested_scope :: "string list"
  sr_granted_scope :: "string list"
  sr_form :: "(string \<times> string list) list"
  sr_requested_audience :: "string list"
  sr_granted_audience :: "string list"

record grant_row =
  gr_sig :: string
  gr_request :: string
  gr_client :: string
  gr_requester :: stored_request
  gr_session :: "stored_session option"
  gr_active :: bool

datatype grant_table = Codes | Access | Refresh | Pkce

record consent_row =
  cs_user :: string
  cs_client :: string
  cs_scopes :: "string list"

record key_row =
  key_kid :: string
  key_der :: string
  key_current :: bool

record oauth =
  clients :: "client list"
  jtis :: "(string \<times> time) list"
  grants :: "grant_table \<Rightarrow> grant_row list"
  consents :: "consent_row list"
  keys :: "key_row list"
  hmac_secret :: "string option"

text \<open>What Fosite hands over and gets back: a request with its client and session.\<close>

record requester =
  rq_request :: stored_request
  rq_client :: fosite_client
  rq_session :: "stored_session option"

datatype storage_error = ErrNotFound | ErrInvalidatedAuthorizeCode | ErrInactiveToken | ErrJTIKnown | StorageFault

datatype oauth_stmt =
    QClient | QJti | DelJti | InsJti | InsGrant grant_table | SelGrant grant_table | UpdCode | UpdRefresh
  | DelGrant grant_table | DelSubject grant_table | DelSubjectClient grant_table
  | SelConsent | UpsertConsent | DelConsent | ListConsentsStmt | InsClient
  | SelKey | KeyTx | UpdKeys | InsKey | KeyCommit | SelHmac | InsHmac | ListKeys

abbreviation AllowedScopes :: "string list" where
  "AllowedScopes \<equiv> [''profile'', ''records:read'', ''records:write'', ''files:read'', ''files:write'', ''offline_access'']"

definition isAllowedScope :: "string \<Rightarrow> bool" where
  "isAllowedScope scope = list_ex (\<lambda>s. s = scope) AllowedScopes"


section \<open>Clients and assertions\<close>

definition GetClient :: "(oauth_stmt \<Rightarrow> bool) \<Rightarrow> string \<Rightarrow> oauth \<Rightarrow> storage_error + fosite_client" where
  "GetClient fails i st =
     (if fails QClient then Inl StorageFault
      else (case find (\<lambda>c. cl_id c = i) (clients st) of None \<Rightarrow> Inl ErrNotFound | Some c \<Rightarrow> Inr (toFosite c)))"

definition ClientAssertionJWTValid :: "(oauth_stmt \<Rightarrow> bool) \<Rightarrow> time \<Rightarrow> string \<Rightarrow> oauth \<Rightarrow> storage_error + unit" where
  "ClientAssertionJWTValid fails now jti st =
     (if fails QJti then Inl StorageFault
      else (case map_of (jtis st) jti of
              None \<Rightarrow> Inr ()
            | Some expiresAt \<Rightarrow> if now > expiresAt then Inr () else Inl ErrJTIKnown))"

definition SetClientAssertionJWT :: "(oauth_stmt \<Rightarrow> bool) \<Rightarrow> time \<Rightarrow> string \<Rightarrow> time \<Rightarrow> oauth \<Rightarrow> oauth \<times> (storage_error + unit)" where
  "SetClientAssertionJWT fails now jti exp st =
     (if fails DelJti then (st, Inl StorageFault)
      else (let st1 = st\<lparr>jtis := filter (\<lambda>(j, e). \<not> e < now) (jtis st)\<rparr>
            in if fails InsJti \<or> jti \<in> fst ` set (jtis st1) then (st1, Inl StorageFault)
               else (st1\<lparr>jtis := jtis st1 @ [(jti, exp)]\<rparr>, Inr ())))"


section \<open>Grants\<close>

definition set_grants :: "grant_table \<Rightarrow> grant_row list \<Rightarrow> oauth \<Rightarrow> oauth" where
  "set_grants t rows st = st\<lparr>grants := (grants st)(t := rows)\<rparr>"

definition insert_grant :: "(oauth_stmt \<Rightarrow> bool) \<Rightarrow> grant_table \<Rightarrow> string \<Rightarrow> requester \<Rightarrow> oauth \<Rightarrow> oauth \<times> (storage_error + unit)" where
  "insert_grant fails t sig r st =
     (if fails (InsGrant t) \<or> sig \<in> gr_sig ` set (grants st t) \<or> fc_id (rq_client r) \<notin> cl_id ` set (clients st)
      then (st, Inl StorageFault)
      else (set_grants t (grants st t @
              [\<lparr>gr_sig = sig, gr_request = sr_id (rq_request r), gr_client = fc_id (rq_client r),
                gr_requester = rq_request r, gr_session = rq_session r, gr_active = True\<rparr>]) st, Inr ()))"

definition hydrate :: "(oauth_stmt \<Rightarrow> bool) \<Rightarrow> bool \<Rightarrow> grant_row \<Rightarrow> oauth \<Rightarrow> storage_error + requester" where
  "hydrate fails want g st =
     (case GetClient fails (gr_client g) st of
        Inl e \<Rightarrow> Inl e
      | Inr c \<Rightarrow> Inr \<lparr>rq_request = gr_requester g, rq_client = c, rq_session = (if want then gr_session g else None)\<rparr>)"

definition getByTable :: "(oauth_stmt \<Rightarrow> bool) \<Rightarrow> bool \<Rightarrow> grant_table \<Rightarrow> string \<Rightarrow> oauth \<Rightarrow> storage_error + requester" where
  "getByTable fails want t sig st =
     (if fails (SelGrant t) then Inl StorageFault
      else (case find (\<lambda>g. gr_sig g = sig) (grants st t) of
              None \<Rightarrow> Inl ErrNotFound
            | Some g \<Rightarrow> hydrate fails want g st))"

definition deleteByTable :: "(oauth_stmt \<Rightarrow> bool) \<Rightarrow> grant_table \<Rightarrow> (grant_row \<Rightarrow> string) \<Rightarrow> string \<Rightarrow> oauth \<Rightarrow> oauth \<times> (storage_error + unit)" where
  "deleteByTable fails t column v st =
     (if fails (DelGrant t) then (st, Inl StorageFault)
      else (set_grants t (filter (\<lambda>g. column g \<noteq> v) (grants st t)) st, Inr ()))"

text \<open>A lookup that tells an inactive row from a missing one, the requester with both outcomes.\<close>

definition get_with_active :: "(oauth_stmt \<Rightarrow> bool) \<Rightarrow> bool \<Rightarrow> grant_table \<Rightarrow> storage_error \<Rightarrow> string \<Rightarrow> oauth
    \<Rightarrow> requester option \<times> storage_error option" where
  "get_with_active fails want t inactive sig st =
     (if fails (SelGrant t) then (None, Some StorageFault)
      else (case find (\<lambda>g. gr_sig g = sig) (grants st t) of
              None \<Rightarrow> (None, Some ErrNotFound)
            | Some g \<Rightarrow>
                (case hydrate fails want g st of
                   Inl e \<Rightarrow> (None, Some e)
                 | Inr r \<Rightarrow> (Some r, if gr_active g then None else Some inactive))))"

definition CreateAuthorizeCodeSession :: "(oauth_stmt \<Rightarrow> bool) \<Rightarrow> string \<Rightarrow> requester \<Rightarrow> oauth \<Rightarrow> oauth \<times> (storage_error + unit)" where
  "CreateAuthorizeCodeSession fails code r st = insert_grant fails Codes code r st"

definition GetAuthorizeCodeSession :: "(oauth_stmt \<Rightarrow> bool) \<Rightarrow> bool \<Rightarrow> string \<Rightarrow> oauth \<Rightarrow> requester option \<times> storage_error option" where
  "GetAuthorizeCodeSession fails want code st = get_with_active fails want Codes ErrInvalidatedAuthorizeCode code st"

definition InvalidateAuthorizeCodeSession :: "(oauth_stmt \<Rightarrow> bool) \<Rightarrow> string \<Rightarrow> oauth \<Rightarrow> oauth \<times> (storage_error + unit)" where
  "InvalidateAuthorizeCodeSession fails code st =
     (if fails UpdCode then (st, Inl StorageFault)
      else (set_grants Codes (map (\<lambda>g. if gr_sig g = code then g\<lparr>gr_active := False\<rparr> else g) (grants st Codes)) st, Inr ()))"

definition CreateAccessTokenSession :: "(oauth_stmt \<Rightarrow> bool) \<Rightarrow> string \<Rightarrow> requester \<Rightarrow> oauth \<Rightarrow> oauth \<times> (storage_error + unit)" where
  "CreateAccessTokenSession fails sig r st = insert_grant fails Access sig r st"

definition GetAccessTokenSession :: "(oauth_stmt \<Rightarrow> bool) \<Rightarrow> bool \<Rightarrow> string \<Rightarrow> oauth \<Rightarrow> storage_error + requester" where
  "GetAccessTokenSession fails want sig st = getByTable fails want Access sig st"

definition DeleteAccessTokenSession :: "(oauth_stmt \<Rightarrow> bool) \<Rightarrow> string \<Rightarrow> oauth \<Rightarrow> oauth \<times> (storage_error + unit)" where
  "DeleteAccessTokenSession fails sig st = deleteByTable fails Access gr_sig sig st"

definition CreateRefreshTokenSession :: "(oauth_stmt \<Rightarrow> bool) \<Rightarrow> string \<Rightarrow> requester \<Rightarrow> oauth \<Rightarrow> oauth \<times> (storage_error + unit)" where
  "CreateRefreshTokenSession fails sig r st = insert_grant fails Refresh sig r st"

definition GetRefreshTokenSession :: "(oauth_stmt \<Rightarrow> bool) \<Rightarrow> bool \<Rightarrow> string \<Rightarrow> oauth \<Rightarrow> requester option \<times> storage_error option" where
  "GetRefreshTokenSession fails want sig st = get_with_active fails want Refresh ErrInactiveToken sig st"

definition DeleteRefreshTokenSession :: "(oauth_stmt \<Rightarrow> bool) \<Rightarrow> string \<Rightarrow> oauth \<Rightarrow> oauth \<times> (storage_error + unit)" where
  "DeleteRefreshTokenSession fails sig st = deleteByTable fails Refresh gr_sig sig st"

definition RotateRefreshToken :: "(oauth_stmt \<Rightarrow> bool) \<Rightarrow> string \<Rightarrow> string \<Rightarrow> oauth \<Rightarrow> oauth \<times> (storage_error + unit)" where
  "RotateRefreshToken fails requestID sig st =
     (if fails UpdRefresh then (st, Inl StorageFault)
      else (let hit = (\<lambda>g. gr_sig g = sig \<and> gr_request g = requestID \<and> gr_active g);
                st' = set_grants Refresh (map (\<lambda>g. if hit g then g\<lparr>gr_active := False\<rparr> else g) (grants st Refresh)) st
            in (st', if filter hit (grants st Refresh) = [] then Inl ErrInactiveToken else Inr ())))"

definition RevokeRefreshToken :: "(oauth_stmt \<Rightarrow> bool) \<Rightarrow> string \<Rightarrow> oauth \<Rightarrow> oauth \<times> (storage_error + unit)" where
  "RevokeRefreshToken fails requestID st = deleteByTable fails Refresh gr_request requestID st"

definition RevokeAccessToken :: "(oauth_stmt \<Rightarrow> bool) \<Rightarrow> string \<Rightarrow> oauth \<Rightarrow> oauth \<times> (storage_error + unit)" where
  "RevokeAccessToken fails requestID st = deleteByTable fails Access gr_request requestID st"

definition CreatePKCERequestSession :: "(oauth_stmt \<Rightarrow> bool) \<Rightarrow> string \<Rightarrow> requester \<Rightarrow> oauth \<Rightarrow> oauth \<times> (storage_error + unit)" where
  "CreatePKCERequestSession fails sig r st = insert_grant fails Pkce sig r st"

definition GetPKCERequestSession :: "(oauth_stmt \<Rightarrow> bool) \<Rightarrow> bool \<Rightarrow> string \<Rightarrow> oauth \<Rightarrow> storage_error + requester" where
  "GetPKCERequestSession fails want sig st = getByTable fails want Pkce sig st"

definition DeletePKCERequestSession :: "(oauth_stmt \<Rightarrow> bool) \<Rightarrow> string \<Rightarrow> oauth \<Rightarrow> oauth \<times> (storage_error + unit)" where
  "DeletePKCERequestSession fails sig st = deleteByTable fails Pkce gr_sig sig st"

abbreviation oauthGrantTables :: "grant_table list" where
  "oauthGrantTables \<equiv> [Codes, Access, Refresh, Pkce]"

fun revoke_tables :: "(grant_table \<Rightarrow> bool) \<Rightarrow> (grant_row \<Rightarrow> bool) \<Rightarrow> grant_table list \<Rightarrow> oauth \<Rightarrow> oauth \<times> (storage_error + unit)" where
  "revoke_tables bad hit [] st = (st, Inr ())"
| "revoke_tables bad hit (t # ts) st =
     (if bad t then (st, Inl StorageFault)
      else revoke_tables bad hit ts (set_grants t (filter (\<lambda>g. \<not> hit g) (grants st t)) st))"

definition RevokeForSubject :: "(oauth_stmt \<Rightarrow> bool) \<Rightarrow> string \<Rightarrow> oauth \<Rightarrow> oauth \<times> (storage_error + unit)" where
  "RevokeForSubject fails subject st =
     revoke_tables (\<lambda>t. fails (DelSubject t)) (\<lambda>g. map_option ss_subject (gr_session g) = Some subject) oauthGrantTables st"

definition RevokeForSubjectAndClient :: "(oauth_stmt \<Rightarrow> bool) \<Rightarrow> string \<Rightarrow> string \<Rightarrow> oauth \<Rightarrow> oauth \<times> (storage_error + unit)" where
  "RevokeForSubjectAndClient fails subject cid st =
     revoke_tables (\<lambda>t. fails (DelSubjectClient t))
       (\<lambda>g. map_option ss_subject (gr_session g) = Some subject \<and> gr_client g = cid) oauthGrantTables st"


section \<open>Consents\<close>

definition getConsent :: "(oauth_stmt \<Rightarrow> bool) \<Rightarrow> string \<Rightarrow> string \<Rightarrow> oauth \<Rightarrow> storage_error + string list" where
  "getConsent fails user cid st =
     (if fails SelConsent then Inl StorageFault
      else (case find (\<lambda>c. cs_user c = user \<and> cs_client c = cid) (consents st) of
              None \<Rightarrow> Inl ErrNotFound | Some c \<Rightarrow> Inr (cs_scopes c)))"

text \<open>The references to the account and the client are checked by the insert of a new row.\<close>

definition saveConsent :: "(oauth_stmt \<Rightarrow> bool) \<Rightarrow> (string \<Rightarrow> bool) \<Rightarrow> string \<Rightarrow> string \<Rightarrow> string list \<Rightarrow> oauth \<Rightarrow> oauth \<times> (storage_error + unit)" where
  "saveConsent fails is_user user cid scopes st =
     (let out = remdups scopes
      in if fails UpsertConsent \<or> \<not> is_user user \<or> cid \<notin> cl_id ` set (clients st) then (st, Inl StorageFault)
         else if list_ex (\<lambda>c. cs_user c = user \<and> cs_client c = cid) (consents st)
              then (st\<lparr>consents := map (\<lambda>c. if cs_user c = user \<and> cs_client c = cid then c\<lparr>cs_scopes := out\<rparr> else c) (consents st)\<rparr>, Inr ())
              else (st\<lparr>consents := consents st @ [\<lparr>cs_user = user, cs_client = cid, cs_scopes = out\<rparr>]\<rparr>, Inr ()))"

definition ListConsents :: "(oauth_stmt \<Rightarrow> bool) \<Rightarrow> string \<Rightarrow> oauth \<Rightarrow> storage_error + (string \<times> string \<times> string list) list" where
  "ListConsents fails user st =
     (if fails ListConsentsStmt then Inl StorageFault
      else Inr (map (\<lambda>(cl, c). (cs_client c, cl_name cl, cs_scopes c))
             (sort_key (\<lambda>(cl, c). cl_name cl) (sort_key (\<lambda>(cl, c). cs_client c)
               [(cl, c). c \<leftarrow> consents st, cl \<leftarrow> clients st, cs_user c = user \<and> cl_id cl = cs_client c]))))"

definition RevokeConsent :: "(oauth_stmt \<Rightarrow> bool) \<Rightarrow> string \<Rightarrow> string \<Rightarrow> oauth \<Rightarrow> oauth \<times> (storage_error + unit)" where
  "RevokeConsent fails subject cid st =
     (if fails DelConsent then (st, Inl StorageFault)
      else RevokeForSubjectAndClient fails subject cid
             (st\<lparr>consents := filter (\<lambda>c. \<not> (cs_user c = subject \<and> cs_client c = cid)) (consents st)\<rparr>))"


section \<open>Keys\<close>

text \<open>The key library: private keys, their encoding and their public halves.\<close>

record rsa_lib =
  ParsePKCS1PrivateKey :: "string \<Rightarrow> string option"
  MarshalPKCS1PrivateKey :: "string \<Rightarrow> string"
  PublicKey :: "string \<Rightarrow> string"

definition currentKey :: "(oauth_stmt \<Rightarrow> bool) \<Rightarrow> rsa_lib \<Rightarrow> oauth \<Rightarrow> storage_error + string \<times> string" where
  "currentKey fails lib st =
     (if fails SelKey then Inl StorageFault
      else (case find key_current (keys st) of
              None \<Rightarrow> Inl ErrNotFound
            | Some k \<Rightarrow> (case ParsePKCS1PrivateKey lib (key_der k) of
                None \<Rightarrow> Inl StorageFault | Some key \<Rightarrow> Inr (key_kid k, key))))"

text \<open>\<open>fresh\<close> is what the generator returns (an error is \<open>None\<close>); the transaction rolls back unless
  every statement and the commit succeed.\<close>

definition rotate_key :: "(oauth_stmt \<Rightarrow> bool) \<Rightarrow> rsa_lib \<Rightarrow> string \<Rightarrow> string option \<Rightarrow> oauth \<Rightarrow> oauth \<times> (storage_error + string \<times> string)" where
  "rotate_key fails lib kid fresh st =
     (case fresh of
        None \<Rightarrow> (st, Inl StorageFault)
      | Some key \<Rightarrow>
          if fails KeyTx \<or> fails UpdKeys \<or> fails InsKey \<or> kid \<in> key_kid ` set (keys st) \<or> fails KeyCommit
          then (st, Inl StorageFault)
          else (st\<lparr>keys := map (\<lambda>x. x\<lparr>key_current := False\<rparr>) (keys st)
                    @ [\<lparr>key_kid = kid, key_der = MarshalPKCS1PrivateKey lib key, key_current = True\<rparr>]\<rparr>,
                Inr (kid, key)))"

definition EnsureKey :: "(oauth_stmt \<Rightarrow> bool) \<Rightarrow> rsa_lib \<Rightarrow> string \<Rightarrow> string option \<Rightarrow> oauth \<Rightarrow> oauth \<times> (storage_error + string \<times> string)" where
  "EnsureKey fails lib kid fresh st =
     (case currentKey fails lib st of
        Inr k \<Rightarrow> (st, Inr k)
      | Inl e \<Rightarrow> if e \<noteq> ErrNotFound then (st, Inl e) else rotate_key fails lib kid fresh st)"

definition KeyGetter :: "(oauth_stmt \<Rightarrow> bool) \<Rightarrow> rsa_lib \<Rightarrow> string \<Rightarrow> string option \<Rightarrow> oauth \<Rightarrow> oauth \<times> (storage_error + string)" where
  "KeyGetter fails lib kid fresh st =
     (let (st', r) = EnsureKey fails lib kid fresh st in (st', map_sum id snd r))"

definition EnsureHMACSecret :: "(oauth_stmt \<Rightarrow> bool) \<Rightarrow> string option \<Rightarrow> oauth \<Rightarrow> oauth \<times> (storage_error + string)" where
  "EnsureHMACSecret fails fresh st =
     (if fails SelHmac then (st, Inl StorageFault)
      else (case hmac_secret st of
              Some s \<Rightarrow> (st, Inr s)
            | None \<Rightarrow>
                (case fresh of
                   None \<Rightarrow> (st, Inl StorageFault)
                 | Some s \<Rightarrow> if fails InsHmac then (st, Inl StorageFault) else (st\<lparr>hmac_secret := Some s\<rparr>, Inr s))))"

fun jwks_rows :: "rsa_lib \<Rightarrow> key_row list \<Rightarrow> (storage_error + (string \<times> string) list)" where
  "jwks_rows lib [] = Inr []"
| "jwks_rows lib (k # ks) =
     (case ParsePKCS1PrivateKey lib (key_der k) of
        None \<Rightarrow> Inl StorageFault
      | Some key \<Rightarrow> map_sum id (\<lambda>set. (key_kid k, PublicKey lib key) # set) (jwks_rows lib ks))"

definition JWKS :: "(oauth_stmt \<Rightarrow> bool) \<Rightarrow> rsa_lib \<Rightarrow> oauth \<Rightarrow> storage_error + (string \<times> string) list" where
  "JWKS fails lib st = (if fails ListKeys then Inl StorageFault else jwks_rows lib (keys st))"

section \<open>Any order of calls\<close>

text \<open>Every call that can change the grants, each with the statements that fail during it.\<close>

datatype storage_call =
    CreateGrant grant_table string requester
  | InvalidateCode string
  | DeleteAccess string
  | DeleteRefresh string
  | DeletePkce string
  | Rotate string string
  | RevokeRefresh string
  | RevokeAccess string
  | RevokeSubject string
  | RevokeSubjectClient string string

fun storage_exec :: "(oauth_stmt \<Rightarrow> bool) \<times> storage_call \<Rightarrow> oauth \<Rightarrow> oauth \<times> (storage_error + unit)" where
  "storage_exec (fails, CreateGrant Codes sig r) st = CreateAuthorizeCodeSession fails sig r st"
| "storage_exec (fails, CreateGrant Access sig r) st = CreateAccessTokenSession fails sig r st"
| "storage_exec (fails, CreateGrant Refresh sig r) st = CreateRefreshTokenSession fails sig r st"
| "storage_exec (fails, CreateGrant Pkce sig r) st = CreatePKCERequestSession fails sig r st"
| "storage_exec (fails, InvalidateCode sig) st = InvalidateAuthorizeCodeSession fails sig st"
| "storage_exec (fails, DeleteAccess sig) st = DeleteAccessTokenSession fails sig st"
| "storage_exec (fails, DeleteRefresh sig) st = DeleteRefreshTokenSession fails sig st"
| "storage_exec (fails, DeletePkce sig) st = DeletePKCERequestSession fails sig st"
| "storage_exec (fails, Rotate rid sig) st = RotateRefreshToken fails rid sig st"
| "storage_exec (fails, RevokeRefresh rid) st = RevokeRefreshToken fails rid st"
| "storage_exec (fails, RevokeAccess rid) st = RevokeAccessToken fails rid st"
| "storage_exec (fails, RevokeSubject s) st = RevokeForSubject fails s st"
| "storage_exec (fails, RevokeSubjectClient s c) st = RevokeForSubjectAndClient fails s c st"

text \<open>The calls of a run that succeeded.\<close>

fun storage_run :: "((oauth_stmt \<Rightarrow> bool) \<times> storage_call) list \<Rightarrow> oauth \<Rightarrow> oauth \<times> storage_call list" where
  "storage_run [] st = (st, [])"
| "storage_run (c # cs) st =
     (let (st1, r) = storage_exec c st;
          (st2, done_calls) = storage_run cs st1
      in (st2, (if r = Inr () then [snd c] else []) @ done_calls))"

lemmas storage_call_defs =
  CreateAuthorizeCodeSession_def CreateAccessTokenSession_def CreateRefreshTokenSession_def
  CreatePKCERequestSession_def InvalidateAuthorizeCodeSession_def DeleteAccessTokenSession_def
  DeleteRefreshTokenSession_def DeletePKCERequestSession_def RotateRefreshToken_def
  RevokeRefreshToken_def RevokeAccessToken_def RevokeForSubject_def RevokeForSubjectAndClient_def

lemma set_grants_simps [simp]:
  "grants (set_grants t rows st) = (grants st)(t := rows)"
  "clients (set_grants t rows st) = clients st"
  "consents (set_grants t rows st) = consents st"
  "keys (set_grants t rows st) = keys st"
  by (simp_all add: set_grants_def)

text \<open>A partial revocation cuts some of the tables; a complete one all of them.\<close>

definition cut_grants :: "(grant_row \<Rightarrow> bool) \<Rightarrow> grant_table set \<Rightarrow> oauth \<Rightarrow> oauth" where
  "cut_grants hit T st = st\<lparr>grants := (\<lambda>t. if t \<in> T then filter (\<lambda>g. \<not> hit g) (grants st t) else grants st t)\<rparr>"

lemma cut_grants_simps [simp]:
  "clients (cut_grants hit T st) = clients st" "consents (cut_grants hit T st) = consents st" "keys (cut_grants hit T st) = keys st"
  "grants (cut_grants hit T st) t = (if t \<in> T then filter (\<lambda>g. \<not> hit g) (grants st t) else grants st t)"
  "cut_grants hit {} st = st"
  by (simp_all add: cut_grants_def)

lemma cut_cut: "cut_grants hit A (cut_grants hit B st) = cut_grants hit (A \<union> B) st"
  by (simp add: cut_grants_def fun_eq_iff)

lemma cut_one: "set_grants t (filter (\<lambda>g. \<not> hit g) (grants st t)) st = cut_grants hit {t} st"
  by (rule oauth.equality) (auto simp: set_grants_def cut_grants_def)

lemma revoke_tables_cut:
  "\<exists>T \<subseteq> set ts. fst (revoke_tables bad hit ts st) = cut_grants hit T st"
proof (induction ts arbitrary: st)
  case Nil
  show ?case by simp
next
  case (Cons a ts)
  obtain T where T: "T \<subseteq> set ts" "fst (revoke_tables bad hit ts (cut_grants hit {a} st)) = cut_grants hit T (cut_grants hit {a} st)"
    using Cons.IH by blast
  show ?case
  proof (cases "bad a")
    case True
    thus ?thesis by (intro exI [of _ "{}"]) simp
  next
    case False
    thus ?thesis using T by (intro exI [of _ "T \<union> {a}"]) (auto simp: cut_one cut_cut)
  qed
qed

lemma revoke_tables_all:
  "revoke_tables bad hit ts st = (st', Inr ()) \<Longrightarrow> st' = cut_grants hit (set ts) st"
  by (induction ts arbitrary: st) (fastforce simp: cut_one cut_cut split: if_splits)+

lemma revoke_tables_never_fails:
  "revoke_tables (\<lambda>_. False) hit ts st = (cut_grants hit (set ts) st, Inr ())"
  by (induction ts arbitrary: st) (auto simp: cut_one cut_cut)

lemma revoke_tables_resume:
  "revoke_tables (\<lambda>_. False) hit ts (fst (revoke_tables bad hit ts st)) = revoke_tables (\<lambda>_. False) hit ts st"
  using revoke_tables_cut [of ts bad hit st]
  by (auto simp: revoke_tables_never_fails cut_cut Un_absorb2)

text \<open>The subjects some grant of any kind is stored for.\<close>

definition grant_subjects :: "oauth \<Rightarrow> string set" where
  "grant_subjects st = {ss_subject s |s g t. g \<in> set (grants st t) \<and> gr_session g = Some s}"

lemma grant_subjects_cong: "grants st' = grants st \<Longrightarrow> grant_subjects st' = grant_subjects st"
  by (simp add: grant_subjects_def)

lemma grant_subjects_cut: "grant_subjects (cut_grants hit T st) \<subseteq> grant_subjects st"
  by (auto simp: grant_subjects_def split: if_splits)

lemma grant_subjects_revoke: "grant_subjects (fst (revoke_tables bad hit ts st)) \<subseteq> grant_subjects st"
  using revoke_tables_cut [of ts bad hit st] grant_subjects_cut by metis

lemma grant_subjects_RevokeForSubject: "grant_subjects (fst (RevokeForSubject fails u st)) \<subseteq> grant_subjects st"
  unfolding RevokeForSubject_def by (rule grant_subjects_revoke)

lemma grant_subjects_RevokeConsent: "grant_subjects (fst (RevokeConsent fails u cid st)) \<subseteq> grant_subjects st"
proof -
  let ?st = "st\<lparr>consents := filter (\<lambda>c. \<not> (cs_user c = u \<and> cs_client c = cid)) (consents st)\<rparr>"
  have "grant_subjects (fst (RevokeForSubjectAndClient fails u cid ?st)) \<subseteq> grant_subjects ?st"
    unfolding RevokeForSubjectAndClient_def by (rule grant_subjects_revoke)
  also have "grant_subjects ?st = grant_subjects st" by (rule grant_subjects_cong) simp
  finally show ?thesis unfolding RevokeConsent_def by simp
qed

definition issued_for :: "string \<Rightarrow> string \<Rightarrow> grant_row \<Rightarrow> bool" where
  "issued_for subject cid g = (map_option ss_subject (gr_session g) = Some subject \<and> gr_client g = cid)"

definition drop_consent :: "string \<Rightarrow> string \<Rightarrow> oauth \<Rightarrow> oauth" where
  "drop_consent subject cid st = st\<lparr>consents := filter (\<lambda>c. \<not> (cs_user c = subject \<and> cs_client c = cid)) (consents st)\<rparr>"

lemma drop_consent_simps [simp]:
  "consents (drop_consent s c st) = filter (\<lambda>x. \<not> (cs_user x = s \<and> cs_client x = c)) (consents st)"
  "grants (drop_consent s c st) = grants st" "clients (drop_consent s c st) = clients st"
  "keys (drop_consent s c st) = keys st"
  by (simp_all add: drop_consent_def)

lemma drop_consent_again: "drop_consent s c (cut_grants h T (drop_consent s c st)) = cut_grants h T (drop_consent s c st)"
  by (rule oauth.equality) (simp_all add: drop_consent_def cut_grants_def)

lemma RevokeConsent_eq:
  "RevokeConsent fails s c st =
     (if fails DelConsent then (st, Inl StorageFault)
      else revoke_tables (\<lambda>t. fails (DelSubjectClient t)) (issued_for s c) oauthGrantTables (drop_consent s c st))"
  by (simp only: RevokeConsent_def RevokeForSubjectAndClient_def drop_consent_def issued_for_def [abs_def])

lemma all_grant_tables: "set oauthGrantTables = UNIV"
  using grant_table.exhaust by auto

text \<open>
  Revoking a consent. The call that succeeds leaves no consent of the user for the client and
  no code, token or PKCE request issued to it on the user's behalf, and keeps every other consent
  and grant, in place. A call that failed part way is completed by calling again.
\<close>

theorem revoke_consent_exact_and_resumable:
  assumes ok: "RevokeConsent fails subject cid st = (st', Inr ())"
  shows "consents st' = filter (\<lambda>c. \<not> (cs_user c = subject \<and> cs_client c = cid)) (consents st)
       \<and> (\<forall>t. grants st' t = filter (\<lambda>g. \<not> issued_for subject cid g) (grants st t))
       \<and> clients st' = clients st \<and> keys st' = keys st
       \<and> RevokeConsent (\<lambda>_. False) subject cid (fst (RevokeConsent bad subject cid st)) = (st', Inr ())"
proof -
  let ?h = "issued_for subject cid" and ?s = "drop_consent subject cid st"
  have st': "st' = cut_grants ?h UNIV ?s"
    using ok revoke_tables_all [of _ ?h oauthGrantTables ?s st'] unfolding RevokeConsent_eq all_grant_tables
    by (metis Inl_Inr_False prod.inject)
  have "RevokeConsent (\<lambda>_. False) subject cid (fst (RevokeConsent bad subject cid st)) = (cut_grants ?h UNIV ?s, Inr ())"
  proof (cases "bad DelConsent")
    case True
    thus ?thesis by (simp only: RevokeConsent_eq if_True if_False fst_conv revoke_tables_never_fails all_grant_tables)
  next
    case False
    obtain T where T: "fst (RevokeConsent bad subject cid st) = cut_grants ?h T ?s"
      using revoke_tables_cut [of oauthGrantTables _ ?h ?s] unfolding RevokeConsent_eq if_not_P [OF False] by blast
    show ?thesis
      by (simp only: T, simp only: RevokeConsent_eq if_False drop_consent_again revoke_tables_never_fails
          all_grant_tables cut_cut Un_UNIV_left)
  qed
  thus ?thesis using st' by simp
qed


definition consent_example :: oauth where
  "consent_example = \<lparr>clients = [], jtis = [],
     grants = (\<lambda>t. [\<lparr>gr_sig = ''s'', gr_request = ''r'', gr_client = ''c'',
        gr_requester = \<lparr>sr_id = ''r'', sr_requested_at = 0, sr_requested_scope = [], sr_granted_scope = [],
          sr_form = [], sr_requested_audience = [], sr_granted_audience = []\<rparr>,
        gr_session = Some \<lparr>ss_subject = ''u'', ss_username = ''e'', ss_claims_subject = ''u'', ss_issuer = ''i'',
          ss_issued_at = 0, ss_email = ''e'', ss_kid = ''k''\<rparr>, gr_active = True\<rparr>]),
     consents = [\<lparr>cs_user = ''u'', cs_client = ''c'', cs_scopes = [''profile'']\<rparr>], keys = [], hmac_secret = None\<rparr>"

lemma revoke_consent_exact_and_resumable_witness:
  "consents (fst (RevokeConsent (\<lambda>_. False) ''u'' ''c'' consent_example)) = []
   \<and> grants (fst (RevokeConsent (\<lambda>_. False) ''u'' ''c'' consent_example)) Refresh = []"
proof -
  have ok: "RevokeConsent (\<lambda>_. False) ''u'' ''c'' consent_example =
      (fst (RevokeConsent (\<lambda>_. False) ''u'' ''c'' consent_example), Inr ())"
    by (simp only: RevokeConsent_eq if_False revoke_tables_never_fails fst_conv)
  show ?thesis
    using revoke_consent_exact_and_resumable [OF ok]
    by (simp add: consent_example_def issued_for_def del: revoke_tables.simps)
qed

section \<open>Redeeming codes and refresh tokens\<close>

text \<open>Rows under a signature that can still be redeemed, and the rotations and creations of a run.\<close>

definition live :: "grant_table \<Rightarrow> string \<Rightarrow> oauth \<Rightarrow> nat" where
  "live t sig st = length (filter (\<lambda>g. gr_sig g = sig \<and> gr_active g) (grants st t))"

fun is_rotation :: "string \<Rightarrow> storage_call \<Rightarrow> bool" where
  "is_rotation sig (Rotate rid s) = (s = sig)"
| "is_rotation sig _ = False"

fun is_creation :: "grant_table \<Rightarrow> string \<Rightarrow> storage_call \<Rightarrow> bool" where
  "is_creation t sig (CreateGrant t' s r) = (t' = t \<and> s = sig)"
| "is_creation t sig _ = False"

abbreviation calls :: "(storage_call \<Rightarrow> bool) \<Rightarrow> storage_call list \<Rightarrow> nat" where
  "calls P cs \<equiv> length (filter P cs)"

lemma live_filter: "live t sig (set_grants t' (filter P (grants st t')) st) \<le> live t sig st"
proof -
  have "length (filter Q (filter P xs)) \<le> length (filter Q xs)" for Q and xs :: "grant_row list"
    by (induction xs) auto
  thus ?thesis by (simp add: live_def)
qed

lemma live_cut: "live t sig (cut_grants hit T st) \<le> live t sig st"
proof -
  have "length (filter Q (filter P xs)) \<le> length (filter Q xs)" for Q P and xs :: "grant_row list"
    by (induction xs) auto
  thus ?thesis by (simp add: live_def)
qed

lemma live_deactivate:
  "live t sig (set_grants t' (map (\<lambda>g. if P g then g\<lparr>gr_active := False\<rparr> else g) (grants st t')) st)
     + (if t = t' then length (filter (\<lambda>g. gr_sig g = sig \<and> gr_active g \<and> P g) (grants st t')) else 0) = live t sig st"
proof -
  have "length (filter (\<lambda>g. gr_sig g = sig \<and> gr_active g) (map (\<lambda>g. if P g then g\<lparr>gr_active := False\<rparr> else g) xs))
      + length (filter (\<lambda>g. gr_sig g = sig \<and> gr_active g \<and> P g) xs)
      = length (filter (\<lambda>g. gr_sig g = sig \<and> gr_active g) xs)" for xs
    by (induction xs) auto
  thus ?thesis by (simp add: live_def)
qed

lemma live_deactivate_le:
  "live t sig (set_grants t' (map (\<lambda>g. if P g then g\<lparr>gr_active := False\<rparr> else g) (grants st t')) st) \<le> live t sig st"
  using live_deactivate [of t sig t' P st] by linarith

lemma live_insert:
  "live t sig (fst (insert_grant fails t' s r st)) =
     live t sig st + (if snd (insert_grant fails t' s r st) = Inr () \<and> t' = t \<and> s = sig then 1 else 0)"
  by (auto simp: insert_grant_def live_def)

lemma live_revoke: "live t sig (fst (revoke_tables bad hit ts st)) \<le> live t sig st"
  using revoke_tables_cut [of ts bad hit st] live_cut [of t sig hit _ st] by fastforce

text \<open>One call: a rotation uses up a live row, only a creation adds one.\<close>

lemma live_rotate:
  "live Refresh sig (fst (RotateRefreshToken fails rid s st))
     + (if snd (RotateRefreshToken fails rid s st) = Inr () \<and> s = sig then 1 else 0) \<le> live Refresh sig st"
proof -
  let ?hit = "\<lambda>g. gr_sig g = s \<and> gr_request g = rid \<and> gr_active g"
  have "(filter ?hit (grants st Refresh) \<noteq> [] \<and> s = sig) \<Longrightarrow>
      1 \<le> length (filter (\<lambda>g. gr_sig g = sig \<and> gr_active g \<and> ?hit g) (grants st Refresh))"
    by (induction "grants st Refresh") (auto simp: Suc_le_eq filter_empty_conv)
  thus ?thesis
    using live_deactivate [of Refresh sig Refresh ?hit st]
    by (auto simp: RotateRefreshToken_def Let_def split: if_splits)
qed

lemma live_rotate_le: "live t sig (fst (RotateRefreshToken fails rid s st)) \<le> live t sig st"
  by (simp add: RotateRefreshToken_def Let_def live_deactivate_le)

lemma live_exec:
  "live t sig (fst (storage_exec c st)) + (if snd (storage_exec c st) = Inr () \<and> is_rotation sig (snd c) \<and> t = Refresh then 1 else 0)
     \<le> live t sig st + (if snd (storage_exec c st) = Inr () \<and> is_creation t sig (snd c) then 1 else 0)"
proof (cases c)
  case (Pair fails call)
  show ?thesis
  proof (cases call)
    case (CreateGrant t' s r)
    show ?thesis
      by (cases t') (auto simp: Pair CreateGrant storage_call_defs live_insert)
  next
    case (Rotate rid s)
    show ?thesis
      using live_rotate [of sig fails rid s st] live_rotate_le [of t sig fails rid s st]
      by (auto simp: Pair Rotate)
  qed (simp_all add: Pair storage_call_defs deleteByTable_def live_filter live_deactivate_le live_revoke del: revoke_tables.simps)
qed

lemma live_run:
  "live t sig (fst (storage_run cs st)) + (if t = Refresh then calls (is_rotation sig) (snd (storage_run cs st)) else 0)
     \<le> live t sig st + calls (is_creation t sig) (snd (storage_run cs st))"
proof (induction cs arbitrary: st)
  case Nil
  show ?case by simp
next
  case (Cons c cs)
  show ?case
    using Cons.IH [of "fst (storage_exec c st)"] live_exec [of t sig c st]
    by (auto simp: Let_def split: prod.splits if_splits)
qed

lemma live_unique: "distinct (map gr_sig (grants st t)) \<Longrightarrow> live t sig st \<le> 1"
proof -
  have "distinct (map gr_sig xs) \<Longrightarrow> length (filter (\<lambda>g. gr_sig g = sig \<and> gr_active g) xs) \<le> 1" for xs
    by (induction xs) (auto simp: filter_empty_conv image_iff)
  thus "distinct (map gr_sig (grants st t)) \<Longrightarrow> live t sig st \<le> 1" by (simp add: live_def)
qed

text \<open>
  C20. Refresh tokens are redeemed at most once. Whatever the order of storage calls, of whichever
  concurrent requests, and whatever statements fail, the rotations of a signature that succeed are
  at most one more than the creations of that signature during the run: two requests that
  present the same refresh token cannot both be answered.
\<close>

theorem refresh_redeemed_once:
  assumes "distinct (map gr_sig (grants st Refresh))"
  shows "calls (is_rotation sig) (snd (storage_run cs st)) \<le> 1 + calls (is_creation Refresh sig) (snd (storage_run cs st))"
  using live_run [of Refresh sig cs st] live_unique [OF assms, of sig] by simp

lemma refresh_redeemed_once_witness:
  "calls (is_rotation ''s'') (snd (storage_run [((\<lambda>_. False), Rotate ''r'' ''s''), ((\<lambda>_. False), Rotate ''r'' ''s'')] consent_example)) \<le> 1"
proof -
  have "distinct (map gr_sig (grants consent_example Refresh))" by (simp add: consent_example_def)
  from refresh_redeemed_once [OF this, of "''s''" "[((\<lambda>_. False), Rotate ''r'' ''s''), ((\<lambda>_. False), Rotate ''r'' ''s'')]"]
  show ?thesis by (simp add: storage_call_defs Let_def consent_example_def set_grants_def)
qed


lemma find_first_live:
  "find (\<lambda>g. gr_sig g = sig) (grants st t) = Some g \<Longrightarrow> gr_active g \<Longrightarrow> 0 < live t sig st"
  by (auto simp: live_def find_Some_iff filter_empty_conv intro: nth_mem)

lemma get_spent:
  "live t sig st = 0 \<Longrightarrow> snd (get_with_active fails want t e sig st) \<noteq> None"
  using find_first_live [of sig st t]
  by (auto simp: get_with_active_def split: option.splits sum.splits)

lemma rotate_detects_reuse:
  assumes u: "distinct (map gr_sig (grants st Refresh))"
    and ok: "RotateRefreshToken fails rid sig st = (st', Inr ())"
  shows "GetRefreshTokenSession q want sig st' =
     (fst (GetRefreshTokenSession q want sig st),
      if snd (GetRefreshTokenSession q want sig st) = None then Some ErrInactiveToken else snd (GetRefreshTokenSession q want sig st))
   \<and> live Refresh sig st' = 0"
proof -
  let ?hit = "\<lambda>g. gr_sig g = sig \<and> gr_request g = rid \<and> gr_active g"
  have st': "st' = set_grants Refresh (map (\<lambda>g. if ?hit g then g\<lparr>gr_active := False\<rparr> else g) (grants st Refresh)) st"
    and hit: "\<exists>g \<in> set (grants st Refresh). ?hit g"
    using ok by (auto simp: RotateRefreshToken_def Let_def filter_empty_conv split: if_splits)
  obtain g where g: "g \<in> set (grants st Refresh)" "?hit g" using hit by blast
  have "find (\<lambda>g. gr_sig g = sig) xs = Some g" if "g \<in> set xs" "distinct (map gr_sig xs)" for xs
    using that g(2) by (induction xs) (auto simp: image_iff)
  hence f: "find (\<lambda>g. gr_sig g = sig) (grants st Refresh) = Some g" using g u by blast
  have m: "find (\<lambda>g. gr_sig g = sig) (map (\<lambda>g. if ?hit g then g\<lparr>gr_active := False\<rparr> else g) xs)
      = map_option (\<lambda>g. if ?hit g then g\<lparr>gr_active := False\<rparr> else g) (find (\<lambda>g. gr_sig g = sig) xs)" for xs
    by (induction xs) auto
  have f': "find (\<lambda>g. gr_sig g = sig) (grants st' Refresh) = Some (g\<lparr>gr_active := False\<rparr>)"
    unfolding st' set_grants_simps fun_upd_same m f using g(2) by simp
  have h: "hydrate q want (g\<lparr>gr_active := False\<rparr>) st' = hydrate q want g st"
    by (simp add: hydrate_def GetClient_def st' split: option.split)
  have "live Refresh sig st' + 1 \<le> live Refresh sig st"
    using live_rotate [of sig fails rid sig st] ok by simp
  thus ?thesis
    using live_unique [OF u, of sig] f f' h g(2)
    by (auto simp: GetRefreshTokenSession_def get_with_active_def split: sum.splits)
qed

definition client_example :: oauth where
  "client_example = consent_example\<lparr>clients := [\<lparr>cl_id = ''c'', cl_secret = None, cl_name = [],
     cl_redirects = [], cl_grant_types = [], cl_response_types = [], cl_scopes = [], cl_method = ''none'', cl_public = True\<rparr>]\<rparr>"

text \<open>
  C21. Replay is recognised. Once a refresh token has been rotated, presenting it again is answered as
  an inactive token together with the request it belonged to (so that the whole chain can be
  revoked), not as an unknown token, and no later run of storage calls that does not issue the
  signature anew makes it redeemable again. A code that was invalidated stays so likewise.
\<close>

theorem spent_credentials_stay_spent:
  assumes u: "\<And>t. distinct (map gr_sig (grants st t))"
    and before: "GetRefreshTokenSession q want sig st = (Some r, None)"
    and ok: "RotateRefreshToken fails rid sig st = (st', Inr ())"
    and inv: "InvalidateAuthorizeCodeSession fails code st' = (st'', Inr ())"
  shows "GetRefreshTokenSession q want sig st' = (Some r, Some ErrInactiveToken)
   \<and> (\<not> list_ex (is_creation Refresh sig) (snd (storage_run cs st'')) \<longrightarrow>
         snd (GetRefreshTokenSession q2 want2 sig (fst (storage_run cs st''))) \<noteq> None)
   \<and> (\<not> list_ex (is_creation Codes code) (snd (storage_run cs st'')) \<longrightarrow>
         snd (GetAuthorizeCodeSession q2 want2 code (fst (storage_run cs st''))) \<noteq> None)"
proof -
  let ?P = "\<lambda>g. gr_sig g = code"
  note rot = rotate_detects_reuse [OF u ok, of q want]
  have st'': "st'' = set_grants Codes (map (\<lambda>g. if ?P g then g\<lparr>gr_active := False\<rparr> else g) (grants st' Codes)) st'"
    using inv by (auto simp: InvalidateAuthorizeCodeSession_def split: if_splits)
  have "live Refresh sig st'' = 0"
    using rot live_deactivate_le [of Refresh sig Codes ?P st'] by (simp add: st'')
  moreover have "live Codes code st'' = 0"
    using live_deactivate [of Codes code Codes ?P st'] by (simp add: st'' live_def conj_ac)
  moreover have "live t s st'' = 0 \<Longrightarrow> \<not> list_ex (is_creation t s) (snd (storage_run cs st'')) \<Longrightarrow>
      live t s (fst (storage_run cs st'')) = 0" for t s
    using live_run [of t s cs st''] by (simp add: filter_empty_conv list_ex_iff)
  ultimately show ?thesis
    using rot before
    by (simp add: GetRefreshTokenSession_def GetAuthorizeCodeSession_def get_spent)
qed


lemma spent_credentials_stay_spent_witness:
  "GetRefreshTokenSession (\<lambda>_. False) True ''s'' (fst (RotateRefreshToken (\<lambda>_. False) ''r'' ''s'' client_example))
     = (fst (GetRefreshTokenSession (\<lambda>_. False) True ''s'' client_example), Some ErrInactiveToken)"
proof -
  let ?f = "\<lambda>_ :: oauth_stmt. False"
  let ?st' = "fst (RotateRefreshToken ?f ''r'' ''s'' client_example)"
  have u: "\<And>t. distinct (map gr_sig (grants client_example t))"
    by (simp add: client_example_def consent_example_def)
  have ok: "RotateRefreshToken ?f ''r'' ''s'' client_example = (?st', Inr ())"
    by (simp add: RotateRefreshToken_def client_example_def consent_example_def Let_def)
  have b: "GetRefreshTokenSession ?f True ''s'' client_example =
      (Some (the (fst (GetRefreshTokenSession ?f True ''s'' client_example))), None)"
    by (simp add: client_example_def consent_example_def GetRefreshTokenSession_def get_with_active_def hydrate_def GetClient_def)
  have i: "InvalidateAuthorizeCodeSession ?f ''s'' ?st' = (fst (InvalidateAuthorizeCodeSession ?f ''s'' ?st'), Inr ())"
    by (simp add: InvalidateAuthorizeCodeSession_def)
  show ?thesis
    using spent_credentials_stay_spent [OF u b ok i] b by (metis fst_conv)
qed


section \<open>The key store\<close>

text \<open>A run of the key store: calls of \<open>EnsureKey\<close> and rotations, each with its failures and fresh key.\<close>

datatype key_call = Ensure "oauth_stmt \<Rightarrow> bool" string "string option" | RotateKey "oauth_stmt \<Rightarrow> bool" string "string option"

fun key_exec :: "rsa_lib \<Rightarrow> key_call \<Rightarrow> oauth \<Rightarrow> oauth \<times> (storage_error + string \<times> string)" where
  "key_exec lib (Ensure fails kid fresh) st = EnsureKey fails lib kid fresh st"
| "key_exec lib (RotateKey fails kid fresh) st = rotate_key fails lib kid fresh st"

definition key_run :: "rsa_lib \<Rightarrow> key_call list \<Rightarrow> oauth \<Rightarrow> oauth" where
  "key_run lib cs st = fold (\<lambda>c s. fst (key_exec lib c s)) cs st"

definition keys_wf :: "rsa_lib \<Rightarrow> oauth \<Rightarrow> bool" where
  "keys_wf lib st = (distinct (map key_kid (keys st)) \<and> length (filter key_current (keys st)) \<le> 1
     \<and> (\<forall>k \<in> set (keys st). ParsePKCS1PrivateKey lib (key_der k) \<noteq> None))"

abbreviation published :: "rsa_lib \<Rightarrow> key_row \<Rightarrow> string \<times> string" where
  "published lib k \<equiv> (key_kid k, PublicKey lib (the (ParsePKCS1PrivateKey lib (key_der k))))"

lemma jwks_rows_ok:
  "\<forall>k \<in> set ks. ParsePKCS1PrivateKey lib (key_der k) \<noteq> None \<Longrightarrow> jwks_rows lib ks = Inr (map (published lib) ks)"
  by (induction ks) auto

lemma filter_current_none: "filter key_current (map (\<lambda>x. x\<lparr>key_current := False\<rparr>) ks) = []"
  by (induction ks) auto

lemma map_uncurrent:
  "map key_kid (map (\<lambda>x. x\<lparr>key_current := False\<rparr>) ks) = map key_kid ks"
  "map (published lib) (map (\<lambda>x. x\<lparr>key_current := False\<rparr>) ks) = map (published lib) ks"
  by (induction ks) auto

lemma find_app_none: "filter P xs = [] \<Longrightarrow> find P (xs @ ys) = find P ys"
  by (induction xs) (auto split: if_splits)

lemma rotate_key_step:
  assumes law: "\<And>k. ParsePKCS1PrivateKey lib (MarshalPKCS1PrivateKey lib k) = Some k" and w: "keys_wf lib st"
  shows "keys_wf lib (fst (rotate_key fails lib kid fresh st))
    \<and> set (map (published lib) (keys st)) \<subseteq> set (map (published lib) (keys (fst (rotate_key fails lib kid fresh st))))
    \<and> (snd (rotate_key fails lib kid fresh st) = Inr (kid', key) \<longrightarrow>
         find key_current (keys (fst (rotate_key fails lib kid fresh st))) =
           Some \<lparr>key_kid = kid', key_der = MarshalPKCS1PrivateKey lib key, key_current = True\<rparr>)"
proof -
  have "distinct (map key_kid (map (\<lambda>x. x\<lparr>key_current := False\<rparr>) (keys st)))"
    using w unfolding keys_wf_def map_uncurrent by blast
  moreover have "set (map (published lib) (keys st)) = set (map (published lib) (map (\<lambda>x. x\<lparr>key_current := False\<rparr>) (keys st)))"
    by (simp only: map_uncurrent)
  ultimately show ?thesis
    using w law
    by (auto simp: rotate_key_def keys_wf_def filter_current_none find_app_none image_iff split: option.splits)
qed

lemma key_exec_step:
  assumes "\<And>k. ParsePKCS1PrivateKey lib (MarshalPKCS1PrivateKey lib k) = Some k" "keys_wf lib st"
  shows "keys_wf lib (fst (key_exec lib c st))
    \<and> set (map (published lib) (keys st)) \<subseteq> set (map (published lib) (keys (fst (key_exec lib c st))))"
  using rotate_key_step [OF assms] assms(2) by (cases c) (auto simp: EnsureKey_def split: sum.splits)

lemma key_run_step:
  assumes law: "\<And>k. ParsePKCS1PrivateKey lib (MarshalPKCS1PrivateKey lib k) = Some k" and "keys_wf lib st"
  shows "keys_wf lib (key_run lib cs st)
    \<and> set (map (published lib) (keys st)) \<subseteq> set (map (published lib) (keys (key_run lib cs st)))"
  using assms(2)
proof (induction cs arbitrary: st)
  case Nil
  thus ?case by (simp add: key_run_def)
next
  case (Cons c cs)
  show ?case
    using Cons.IH [of "fst (key_exec lib c st)"] key_exec_step [OF law Cons.prems, of c]
    by (simp add: key_run_def) blast
qed

text \<open>
  Signing keys. Along any run of key-store calls, whatever fails, there is at most one current
  key, the published set keeps every key that was ever published (a token signed before a
  rotation still verifies), and the key \<open>EnsureKey\<close> has just returned is the one the next call
  returns, is the current one, and has its public half in the published set.
\<close>

theorem signing_keys_published:
  assumes law: "\<And>k. ParsePKCS1PrivateKey lib (MarshalPKCS1PrivateKey lib k) = Some k" and w: "keys_wf lib st"
    and e: "EnsureKey fails lib kid fresh (key_run lib cs st) = (st', Inr (kid', key))"
  shows "keys_wf lib st'
    \<and> (\<exists>old new. JWKS (\<lambda>_. False) lib st = Inr old \<and> JWKS (\<lambda>_. False) lib st' = Inr new
         \<and> set old \<subseteq> set new \<and> (kid', PublicKey lib key) \<in> set new)
    \<and> EnsureKey (\<lambda>_. False) lib kid2 fresh2 st' = (st', Inr (kid', key))"
proof -
  let ?s = "key_run lib cs st"
  have s: "keys_wf lib ?s" "set (map (published lib) (keys st)) \<subseteq> set (map (published lib) (keys ?s))"
    using key_run_step [OF law w] by blast+
  have s': "keys_wf lib st'" "set (map (published lib) (keys ?s)) \<subseteq> set (map (published lib) (keys st'))"
    using key_exec_step [OF law s(1), of "Ensure fails kid fresh"] e by auto
  have cur: "\<exists>k. find key_current (keys st') = Some k \<and> key_kid k = kid' \<and> ParsePKCS1PrivateKey lib (key_der k) = Some key"
  proof (cases "currentKey fails lib ?s")
    case (Inl x)
    hence "rotate_key fails lib kid fresh ?s = (st', Inr (kid', key))"
      using e by (auto simp: EnsureKey_def split: if_splits)
    thus ?thesis using rotate_key_step [OF law s(1), of fails kid fresh kid' key] law by simp
  next
    case (Inr y)
    thus ?thesis using e by (auto simp: EnsureKey_def currentKey_def split: if_splits option.splits)
  qed
  then obtain k where k: "find key_current (keys st') = Some k" "key_kid k = kid'" "ParsePKCS1PrivateKey lib (key_der k) = Some key"
    by blast
  have "k \<in> set (keys st')" using k(1) by (auto simp: find_Some_iff intro: nth_mem)
  hence "(kid', PublicKey lib key) \<in> set (map (published lib) (keys st'))" using k by force
  moreover have "JWKS (\<lambda>_. False) lib x = Inr (map (published lib) (keys x))" if "keys_wf lib x" for x
    using that jwks_rows_ok by (simp add: JWKS_def keys_wf_def)
  moreover have "EnsureKey (\<lambda>_. False) lib kid2 fresh2 st' = (st', Inr (kid', key))"
    using k by (simp add: EnsureKey_def currentKey_def)
  ultimately show ?thesis using s s' w by blast
qed

lemma signing_keys_published_witness:
  "\<exists>st' lib. EnsureKey (\<lambda>_. False) lib ''k2'' None st' = (st', Inr (''k1'', ''key''))"
proof -
  let ?lib = "\<lparr>ParsePKCS1PrivateKey = Some, MarshalPKCS1PrivateKey = id, PublicKey = (\<lambda>k. ''pub'' @ k)\<rparr>"
  let ?st = "\<lparr>clients = [], jtis = [], grants = (\<lambda>_. []), consents = [], keys = [], hmac_secret = None\<rparr> :: oauth"
  let ?st' = "fst (EnsureKey (\<lambda>_. False) ?lib ''k1'' (Some ''key'') (key_run ?lib [] ?st))"
  have "EnsureKey (\<lambda>_. False) ?lib ''k1'' (Some ''key'') (key_run ?lib [] ?st) = (?st', Inr (''k1'', ''key''))"
    by (simp add: key_run_def EnsureKey_def currentKey_def rotate_key_def)
  from signing_keys_published [OF _ _ this, of "''k2''" None] show ?thesis
    by (auto simp: keys_wf_def)
qed

end
