(* ===== verification/OAuth_Authorize.thy ===== *)
theory OAuth_Authorize
  imports OAuth_Storage Auth_Service
begin

text \<open>
  The endpoints of the authorization server: \<^verbatim>\<open>internal/oauth/handlers.go\<close>, \<^verbatim>\<open>register.go\<close>,
  \<^verbatim>\<open>middleware.go\<close>, \<^verbatim>\<open>session.go\<close>, \<^verbatim>\<open>wellknown.go\<close> and the set-up in \<^verbatim>\<open>provider.go\<close>, over the
  storage and the customer accounts. Fosite is the parameter \<open>fosite\<close>: parsing an authorize
  request, granting a scope, issuing the response, introspecting a token. The pages of
  \<^verbatim>\<open>templates.go\<close> are represented by the values they are filled with and by the form they post.
\<close>

section \<open>Fosite, requests and replies\<close>

record ('ar, 'acc) fosite =
  NewAuthorizeRequest :: "oauth \<Rightarrow> string \<Rightarrow> string + 'ar"
  GetClientID :: "'ar \<Rightarrow> string"
  GetRequestedScopes :: "'ar \<Rightarrow> string list"
  GetGrantedScopes :: "'ar \<Rightarrow> string list"
  GrantScope :: "string \<Rightarrow> 'ar \<Rightarrow> 'ar"
  NewAuthorizeResponse :: "oauth \<Rightarrow> 'ar \<Rightarrow> stored_session \<Rightarrow> oauth \<times> (string + string)"
  NewAccessRequest :: "oauth \<Rightarrow> string \<Rightarrow> oauth \<times> (string + 'acc)"
  NewAccessResponse :: "oauth \<Rightarrow> 'acc \<Rightarrow> oauth \<times> (string + string)"
  NewRevocationRequest :: "oauth \<Rightarrow> string \<Rightarrow> oauth \<times> (string + unit)"
  AccessTokenFromRequest :: "string \<Rightarrow> string"
  IntrospectToken :: "oauth \<Rightarrow> string \<Rightarrow> string \<Rightarrow> string + stored_session"

text \<open>What is documented of granting: it adds the scope to the granted ones, and a parsed request has none.\<close>

definition fosite_ok :: "('ar, 'acc) fosite \<Rightarrow> bool" where
  "fosite_ok F = ((\<forall>s ar. set (GetGrantedScopes F (GrantScope F s ar)) = insert s (set (GetGrantedScopes F ar)))
     \<and> (\<forall>st q ar. NewAuthorizeRequest F st q = Inr ar \<longrightarrow> GetGrantedScopes F ar = []))"

record world =
  accounts :: auth
  store :: oauth

record http_request =
  method_post :: bool
  raw_query :: string
  post_form :: "(string \<times> string list) list option"
  cookie :: "string option"

datatype page =
    LoginPage string string string
  | ConsentPage string string string "string list" "string list"
  | AuthorizeError string
  | AuthorizeResponse string
  | HttpError nat string

record reply =
  page :: page
  set_cookie :: "string option"

text \<open>Everything one request draws or may see fail.\<close>

record az_env =
  az_auth :: env
  az_fails :: "oauth_stmt \<Rightarrow> bool"
  az_now :: time
  az_token :: "string option"
  az_sid :: string
  az_kid :: string
  az_key :: "string option"
  az_rsa :: rsa_lib
  az_issuer :: string

definition form_get :: "(string \<times> string list) list \<Rightarrow> string \<Rightarrow> string" where
  "form_get f k = (case map_of f k of Some (v # _) \<Rightarrow> v | _ \<Rightarrow> [])"

definition form_all :: "(string \<times> string list) list \<Rightarrow> string \<Rightarrow> string list" where
  "form_all f k = (case map_of f k of Some vs \<Rightarrow> vs | None \<Rightarrow> [])"

abbreviation plain :: "page \<Rightarrow> reply" where
  "plain p \<equiv> \<lparr>page = p, set_cookie = None\<rparr>"


section \<open>Scopes\<close>

definition scopesNotIn :: "string list \<Rightarrow> string list \<Rightarrow> string list" where
  "scopesNotIn have_scopes exclude = filter (\<lambda>sc. sc \<notin> set exclude) have_scopes"

definition grantedScopes :: "string list \<Rightarrow> string list \<Rightarrow> string list" where
  "grantedScopes checked requested = filter (\<lambda>sc. isAllowedScope sc \<and> list_ex (\<lambda>req. req = sc) requested) checked"

definition scopeSetContainsAll :: "string list \<Rightarrow> string list \<Rightarrow> bool" where
  "scopeSetContainsAll have_scopes want = list_all (\<lambda>w. w \<in> set have_scopes) want"

definition newSession :: "time \<Rightarrow> string \<Rightarrow> string \<Rightarrow> string \<Rightarrow> string \<Rightarrow> stored_session" where
  "newSession now kid issuer userID email = \<lparr>ss_subject = userID, ss_username = email, ss_claims_subject = userID,
     ss_issuer = issuer, ss_issued_at = now, ss_email = email, ss_kid = kid\<rparr>"


section \<open>The authorize endpoint\<close>

definition currentUser :: "az_env \<Rightarrow> http_request \<Rightarrow> world \<Rightarrow> user_row option" where
  "currentUser E r w =
     (case cookie r of
        None \<Rightarrow> None
      | Some c \<Rightarrow> (case ValidateSession (az_auth E) (az_now E) c (accounts w) of Inl _ \<Rightarrow> None | Inr u \<Rightarrow> Some u))"

definition reparseAuthorize :: "('ar, 'acc) fosite \<Rightarrow> string \<Rightarrow> world \<Rightarrow> string + 'ar" where
  "reparseAuthorize F rawQuery w = NewAuthorizeRequest F (store w) rawQuery"

definition renderLogin :: "('ar, 'acc) fosite \<Rightarrow> 'ar \<Rightarrow> string \<Rightarrow> string \<Rightarrow> page" where
  "renderLogin F ar rawQuery errMsg = LoginPage (GetClientID F ar) rawQuery errMsg"

definition renderConsent :: "('ar, 'acc) fosite \<Rightarrow> 'ar \<Rightarrow> string \<Rightarrow> user_row \<Rightarrow> string list \<Rightarrow> string list \<Rightarrow> page" where
  "renderConsent F ar rawQuery user requested previouslyGranted =
     ConsentPage (GetClientID F ar) (user_email user) rawQuery requested previouslyGranted"

definition finishAuthorize :: "('ar, 'acc) fosite \<Rightarrow> az_env \<Rightarrow> 'ar \<Rightarrow> user_row \<Rightarrow> string list \<Rightarrow> world \<Rightarrow> world \<times> page" where
  "finishAuthorize F E ar user scopes w =
     (let ar' = fold (GrantScope F) scopes ar
      in case EnsureKey (az_fails E) (az_rsa E) (az_kid E) (az_key E) (store w) of
           (st1, Inl _) \<Rightarrow> (w\<lparr>store := st1\<rparr>, HttpError 500 ''internal error'')
         | (st1, Inr (kid, _)) \<Rightarrow>
             (let ses = newSession (az_now E) kid (az_issuer E) (user_id user) (user_email user)
              in case NewAuthorizeResponse F st1 ar' ses of
                   (st2, Inl e) \<Rightarrow> (w\<lparr>store := st2\<rparr>, AuthorizeError e)
                 | (st2, Inr resp) \<Rightarrow> (w\<lparr>store := st2\<rparr>, AuthorizeResponse resp)))"

text \<open>A lookup that fails leaves the existing scopes empty and shows the consent page.\<close>

definition continueAuthorize :: "('ar, 'acc) fosite \<Rightarrow> az_env \<Rightarrow> http_request \<Rightarrow> 'ar \<Rightarrow> user_row \<Rightarrow> world \<Rightarrow> world \<times> page" where
  "continueAuthorize F E r ar user w =
     (let requested = GetRequestedScopes F ar
      in case getConsent (az_fails E) (user_id user) (GetClientID F ar) (store w) of
           Inr existing \<Rightarrow>
             if scopeSetContainsAll existing requested then finishAuthorize F E ar user requested w
             else (w, renderConsent F ar (raw_query r) user requested (scopesNotIn existing requested))
         | Inl _ \<Rightarrow> (w, renderConsent F ar (raw_query r) user requested (scopesNotIn [] requested)))"

definition handleAuthorizeGET :: "('ar, 'acc) fosite \<Rightarrow> az_env \<Rightarrow> http_request \<Rightarrow> world \<Rightarrow> world \<times> reply" where
  "handleAuthorizeGET F E r w =
     (case NewAuthorizeRequest F (store w) (raw_query r) of
        Inl e \<Rightarrow> (w, plain (AuthorizeError e))
      | Inr ar \<Rightarrow>
          (case currentUser E r w of
             None \<Rightarrow> (w, plain (renderLogin F ar (raw_query r) []))
           | Some user \<Rightarrow> (let (w', p) = continueAuthorize F E r ar user w in (w', plain p))))"

definition post_login :: "('ar, 'acc) fosite \<Rightarrow> az_env \<Rightarrow> http_request \<Rightarrow> (string \<times> string list) list \<Rightarrow> string \<Rightarrow> 'ar \<Rightarrow> world \<Rightarrow> world \<times> reply" where
  "post_login F E r form rawQuery ar w =
     (case Login (az_auth E) (az_now E) (az_token E) (az_sid E) (form_get form ''email'') (form_get form ''password'') (accounts w) of
        (a, Inl _) \<Rightarrow> (w\<lparr>accounts := a\<rparr>, plain (renderLogin F ar rawQuery ''invalid email or password''))
      | (a, Inr sess) \<Rightarrow>
          (case ValidateSession (az_auth E) (az_now E) (ses_token sess) a of
             Inl _ \<Rightarrow> (w\<lparr>accounts := a\<rparr>,
                 \<lparr>page = renderLogin F ar rawQuery ''please try again'', set_cookie = Some (ses_token sess)\<rparr>)
           | Inr user \<Rightarrow>
               (let (w', p) = continueAuthorize F E r ar user (w\<lparr>accounts := a\<rparr>)
                in (w', \<lparr>page = p, set_cookie = Some (ses_token sess)\<rparr>))))"

definition post_consent :: "('ar, 'acc) fosite \<Rightarrow> az_env \<Rightarrow> http_request \<Rightarrow> (string \<times> string list) list \<Rightarrow> string \<Rightarrow> 'ar \<Rightarrow> world \<Rightarrow> world \<times> reply" where
  "post_consent F E r form rawQuery ar w =
     (case currentUser E r w of
        None \<Rightarrow> (w, plain (renderLogin F ar rawQuery ''your session expired, please sign in again''))
      | Some user \<Rightarrow>
          if form_get form ''decision'' \<noteq> ''allow'' then (w, plain (AuthorizeError ''access_denied''))
          else
            (let granted = grantedScopes (form_all form ''granted'') (GetRequestedScopes F ar);
                 existing = (case getConsent (az_fails E) (user_id user) (GetClientID F ar) (store w) of Inl _ \<Rightarrow> [] | Inr ss \<Rightarrow> ss);
                 keepable = scopesNotIn existing (GetRequestedScopes F ar);
                 kept = grantedScopes (form_all form ''keep'') keepable;
                 persisted = granted @ kept
             in case saveConsent (az_fails E) (\<lambda>u. u \<in> set (account_ids (accounts w))) (user_id user) (GetClientID F ar) persisted (store w) of
                  (st, Inl _) \<Rightarrow> (w\<lparr>store := st\<rparr>, plain (HttpError 500 ''internal error''))
                | (st, Inr _) \<Rightarrow>
                    (let (w', p) = finishAuthorize F E ar user granted (w\<lparr>store := st\<rparr>) in (w', plain p))))"

definition handleAuthorizePOST :: "('ar, 'acc) fosite \<Rightarrow> az_env \<Rightarrow> http_request \<Rightarrow> world \<Rightarrow> world \<times> reply" where
  "handleAuthorizePOST F E r w =
     (case post_form r of
        None \<Rightarrow> (w, plain (HttpError 400 ''invalid form''))
      | Some form \<Rightarrow>
          (let rawQuery = form_get form ''oauth_request''
           in case reparseAuthorize F rawQuery w of
                Inl e \<Rightarrow> (w, plain (AuthorizeError e))
              | Inr ar \<Rightarrow>
                  (let step = form_get form ''step''
                   in if step = ''login'' then post_login F E r form rawQuery ar w
                      else if step = ''consent'' then post_consent F E r form rawQuery ar w
                      else (w, plain (HttpError 400 ''invalid step'')))))"

definition HandleAuthorize :: "('ar, 'acc) fosite \<Rightarrow> az_env \<Rightarrow> http_request \<Rightarrow> world \<Rightarrow> world \<times> reply" where
  "HandleAuthorize F E r w = (if method_post r then handleAuthorizePOST F E r w else handleAuthorizeGET F E r w)"

text \<open>The forms of the two pages, as a browser posts them: to the bare path, with the hidden fields.\<close>

definition login_form :: "string \<Rightarrow> string \<Rightarrow> string \<Rightarrow> http_request" where
  "login_form oauth_request email password = \<lparr>method_post = True, raw_query = [],
     post_form = Some [(''step'', [''login'']), (''oauth_request'', [oauth_request]), (''email'', [email]), (''password'', [password])],
     cookie = None\<rparr>"

definition consent_form :: "string \<Rightarrow> string list \<Rightarrow> string list \<Rightarrow> string \<Rightarrow> string \<Rightarrow> http_request" where
  "consent_form oauth_request granted keep decision token = \<lparr>method_post = True, raw_query = [],
     post_form = Some [(''step'', [''consent'']), (''oauth_request'', [oauth_request]), (''granted'', granted), (''keep'', keep),
                       (''decision'', [decision])],
     cookie = Some token\<rparr>"


section \<open>Token endpoints and the scope guard\<close>

definition HandleToken :: "('ar, 'acc) fosite \<Rightarrow> string \<Rightarrow> oauth \<Rightarrow> oauth \<times> (string + string)" where
  "HandleToken F req st =
     (case NewAccessRequest F st req of
        (st1, Inl e) \<Rightarrow> (st1, Inl e)
      | (st1, Inr ar) \<Rightarrow> NewAccessResponse F st1 ar)"

definition HandleRevoke :: "('ar, 'acc) fosite \<Rightarrow> string \<Rightarrow> oauth \<Rightarrow> oauth \<times> (string + unit)" where
  "HandleRevoke F req st = NewRevocationRequest F st req"

definition Authenticate :: "('ar, 'acc) fosite \<Rightarrow> string \<Rightarrow> string \<Rightarrow> oauth \<Rightarrow> string + string" where
  "Authenticate F token scope st =
     (case IntrospectToken F st token scope of Inl e \<Rightarrow> Inl e | Inr ses \<Rightarrow> Inr (ss_subject ses))"

text \<open>The guard: 401 or the wrapped handler with the token's subject.\<close>

definition RequireScope :: "('ar, 'acc) fosite \<Rightarrow> string \<Rightarrow> (string \<Rightarrow> 'resp) \<Rightarrow> string \<Rightarrow> oauth \<Rightarrow> (nat \<times> string) + 'resp" where
  "RequireScope F scope next_handler req st =
     (let token = AccessTokenFromRequest F req
      in if token = [] then Inl (401, ''missing bearer token'')
         else (case Authenticate F token scope st of
                 Inl _ \<Rightarrow> Inl (401, ''invalid or insufficient token'')
               | Inr subject \<Rightarrow> Inr (next_handler subject)))"

section \<open>Dynamic registration\<close>

text \<open>The parts of \<^verbatim>\<open>net/url.Parse\<close> the code looks at: the scheme and the fragment. \<open>rest_ok\<close> says
  whether authority, path, query and escapes are well formed.\<close>

fun scheme_aux :: "string \<Rightarrow> string \<Rightarrow> (string \<times> string) option" where
  "scheme_aux acc [] = Some ([], rev acc)"
| "scheme_aux acc (c # cs) =
     (if is_lower c \<or> is_upper c then scheme_aux (c # acc) cs
      else if is_digit c \<or> c \<in> {CHR ''+'', CHR ''-'', CHR ''.''}
      then (if acc = [] then Some ([], c # cs) else scheme_aux (c # acc) cs)
      else if c = CHR '':'' then (if acc = [] then None else Some (rev acc, cs))
      else Some ([], rev acc @ c # cs))"

definition getScheme :: "string \<Rightarrow> (string \<times> string) option" where
  "getScheme s = scheme_aux [] s"

definition url_Parse :: "(string \<Rightarrow> string \<Rightarrow> string \<Rightarrow> bool) \<Rightarrow> string \<Rightarrow> (string \<times> string) option" where
  "url_Parse rest_ok raw =
     (let u = takeWhile (\<lambda>c. c \<noteq> CHR ''#'') raw;
          frag = drop (length u + 1) raw
      in if list_ex (\<lambda>c. of_char c < (0x20 :: nat) \<or> of_char c = (0x7f :: nat)) u then None
         else (case getScheme u of
                 None \<Rightarrow> None
               | Some (scheme, rest) \<Rightarrow> if rest_ok scheme rest frag then Some (ToLower scheme, frag) else None))"

record registerRequest =
  rr_redirects :: "string list"
  rr_name :: string
  rr_method :: string
  rr_grants :: "string list"
  rr_responses :: "string list"
  rr_scope :: string

record registerResponse =
  rs_id :: string
  rs_secret :: string
  rs_issued :: time
  rs_name :: string
  rs_redirects :: "string list"
  rs_method :: string
  rs_grants :: "string list"
  rs_responses :: "string list"
  rs_scope :: string

datatype register_reply = RegisterError nat string | Internal500 | Registered registerResponse

abbreviation maxRegisterBodyBytes :: nat where "maxRegisterBodyBytes \<equiv> 16384"
abbreviation maxRedirectURIs :: nat where "maxRedirectURIs \<equiv> 20"
abbreviation maxRedirectURILen :: nat where "maxRedirectURILen \<equiv> 2048"
abbreviation maxClientNameLen :: nat where "maxClientNameLen \<equiv> 200"

abbreviation allowedAuthMethods :: "string list" where
  "allowedAuthMethods \<equiv> [''none'', ''client_secret_basic'', ''client_secret_post'']"
abbreviation allowedGrantTypes :: "string list" where
  "allowedGrantTypes \<equiv> [''authorization_code'', ''refresh_token'']"
abbreviation allowedResponseType :: "string list" where
  "allowedResponseType \<equiv> [''code'']"

text \<open>The body decoder, the secret generator and hasher, the clock and the fresh identifier.\<close>

record register_env =
  re_decode :: "string \<Rightarrow> registerRequest option"
  re_rest_ok :: "string \<Rightarrow> string \<Rightarrow> string \<Rightarrow> bool"
  re_secret :: "string option"
  re_hash :: "string \<Rightarrow> string option"
  re_id :: string
  re_now :: time
  re_fails :: "oauth_stmt \<Rightarrow> bool"

definition redirect_error :: "register_env \<Rightarrow> string \<Rightarrow> bool" where
  "redirect_error E ru =
     (if length ru > maxRedirectURILen then True
      else (case url_Parse (re_rest_ok E) ru of
              None \<Rightarrow> True
            | Some (scheme, frag) \<Rightarrow> scheme = [] \<or> frag \<noteq> []))"

definition or_default :: "'a list \<Rightarrow> 'a list \<Rightarrow> 'a list" where
  "or_default d xs = (if xs = [] then d else xs)"

definition request_method :: "registerRequest \<Rightarrow> string" where
  "request_method req = or_default ''client_secret_basic'' (rr_method req)"

definition request_scopes :: "registerRequest \<Rightarrow> string list" where
  "request_scopes req = (if TrimSpace (rr_scope req) \<noteq> [] then Fields (rr_scope req) else AllowedScopes)"

definition request_error :: "register_env \<Rightarrow> registerRequest \<Rightarrow> string option" where
  "request_error E req =
     (if length (rr_name req) > maxClientNameLen then Some ''invalid_client_metadata''
      else if rr_redirects req = [] then Some ''invalid_redirect_uri''
      else if length (rr_redirects req) > maxRedirectURIs then Some ''invalid_redirect_uri''
      else if list_ex (redirect_error E) (rr_redirects req) then Some ''invalid_redirect_uri''
      else if request_method req \<notin> set allowedAuthMethods then Some ''invalid_client_metadata''
      else if list_ex (\<lambda>gt. gt \<notin> set allowedGrantTypes) (or_default [''authorization_code''] (rr_grants req)) then Some ''invalid_client_metadata''
      else if list_ex (\<lambda>rt. rt \<notin> set allowedResponseType) (or_default [''code''] (rr_responses req)) then Some ''invalid_client_metadata''
      else if TrimSpace (rr_scope req) \<noteq> [] \<and> list_ex (\<lambda>sc. \<not> isAllowedScope sc) (Fields (rr_scope req)) then Some ''invalid_client_metadata''
      else None)"

definition insertClient :: "(oauth_stmt \<Rightarrow> bool) \<Rightarrow> client \<Rightarrow> oauth \<Rightarrow> oauth option" where
  "insertClient bad c st =
     (if bad InsClient \<or> cl_id c \<in> cl_id ` set (clients st) then None
      else Some (st\<lparr>clients := clients st @ [c]\<rparr>))"

text \<open>A public client has no secret; a confidential one a fresh secret, of which the hash is kept.\<close>

definition new_secret :: "register_env \<Rightarrow> registerRequest \<Rightarrow> (string \<times> string option) option" where
  "new_secret E req =
     (if request_method req = ''none'' then Some ([], None)
      else (case re_secret E of
              None \<Rightarrow> None
            | Some p \<Rightarrow> (case re_hash E p of None \<Rightarrow> None | Some h \<Rightarrow> Some (p, Some h))))"

definition client_of :: "register_env \<Rightarrow> registerRequest \<Rightarrow> string option \<Rightarrow> client" where
  "client_of E req secretHash =
     \<lparr>cl_id = re_id E, cl_secret = secretHash, cl_name = rr_name req, cl_redirects = rr_redirects req,
      cl_grant_types = or_default [''authorization_code''] (rr_grants req),
      cl_response_types = or_default [''code''] (rr_responses req), cl_scopes = request_scopes req,
      cl_method = request_method req, cl_public = (request_method req = ''none'')\<rparr>"

definition response_of :: "register_env \<Rightarrow> registerRequest \<Rightarrow> string \<Rightarrow> registerResponse" where
  "response_of E req plainSecret =
     \<lparr>rs_id = re_id E, rs_secret = plainSecret, rs_issued = re_now E div second,
      rs_name = rr_name req, rs_redirects = rr_redirects req, rs_method = request_method req,
      rs_grants = or_default [''authorization_code''] (rr_grants req),
      rs_responses = or_default [''code''] (rr_responses req), rs_scope = Join (request_scopes req) '' ''\<rparr>"

definition HandleRegister :: "register_env \<Rightarrow> string \<Rightarrow> oauth \<Rightarrow> oauth \<times> register_reply" where
  "HandleRegister E body st =
     (case re_decode E (take maxRegisterBodyBytes body) of
        None \<Rightarrow> (st, RegisterError 400 ''invalid_client_metadata'')
      | Some req \<Rightarrow>
          (case request_error E req of
             Some code \<Rightarrow> (st, RegisterError 400 code)
           | None \<Rightarrow>
               (case new_secret E req of
                  None \<Rightarrow> (st, Internal500)
                | Some (plainSecret, secretHash) \<Rightarrow>
                    (case insertClient (re_fails E) (client_of E req secretHash) st of
                       None \<Rightarrow> (st, Internal500)
                     | Some st' \<Rightarrow> (st', Registered (response_of E req plainSecret))))))"


section \<open>Discovery documents and start-up\<close>

record authServerMetadata =
  md_issuer :: string
  md_authorization :: string
  md_token :: string
  md_registration :: string
  md_revocation :: string
  md_jwks :: string
  md_scopes :: "string list"
  md_responses :: "string list"
  md_grants :: "string list"
  md_methods :: "string list"
  md_challenges :: "string list"

definition HandleAuthServerMetadata :: "string \<Rightarrow> authServerMetadata" where
  "HandleAuthServerMetadata issuer =
     \<lparr>md_issuer = issuer, md_authorization = issuer @ ''/oauth/authorize'', md_token = issuer @ ''/oauth/token'',
      md_registration = issuer @ ''/oauth/register'', md_revocation = issuer @ ''/oauth/revoke'',
      md_jwks = issuer @ ''/.well-known/jwks.json'', md_scopes = AllowedScopes, md_responses = [''code''],
      md_grants = [''authorization_code'', ''refresh_token''],
      md_methods = [''none'', ''client_secret_basic'', ''client_secret_post''], md_challenges = [''S256'']\<rparr>"

definition HandleJWKS :: "(oauth_stmt \<Rightarrow> bool) \<Rightarrow> rsa_lib \<Rightarrow> oauth \<Rightarrow> (nat \<times> string) + (string \<times> string) list" where
  "HandleJWKS bad lib st = (case JWKS bad lib st of Inl _ \<Rightarrow> Inl (500, ''internal error'') | Inr s \<Rightarrow> Inr s)"

record oauth_config =
  AccessTokenLifespan :: duration
  RefreshTokenLifespan :: duration
  AuthorizeCodeLifespan :: duration
  GlobalSecret :: string
  HashCost :: nat
  AccessTokenIssuer :: string
  TokenURL :: string
  EnforcePKCE :: bool

definition NewServer :: "(oauth_stmt \<Rightarrow> bool) \<Rightarrow> rsa_lib \<Rightarrow> string option \<Rightarrow> string \<Rightarrow> string option \<Rightarrow> string \<Rightarrow> oauth
    \<Rightarrow> oauth \<times> (storage_error + oauth_config)" where
  "NewServer bad lib secret kid key issuer st =
     (case EnsureHMACSecret bad secret st of
        (st1, Inl e) \<Rightarrow> (st1, Inl e)
      | (st1, Inr hmacSecret) \<Rightarrow>
          (case EnsureKey bad lib kid key st1 of
             (st2, Inl e) \<Rightarrow> (st2, Inl e)
           | (st2, Inr _) \<Rightarrow>
               (st2, Inr \<lparr>AccessTokenLifespan = hour, RefreshTokenLifespan = 30 * 24 * hour,
                  AuthorizeCodeLifespan = 5 * minute, GlobalSecret = hmacSecret, HashCost = 12,
                  AccessTokenIssuer = issuer, TokenURL = issuer @ ''/oauth/token'', EnforcePKCE = True\<rparr>)))"

lemma Fields_Nil_iff: "Fields s = [] \<longleftrightarrow> (\<forall>c \<in> set s. is_space c)"
proof -
  have "fields_aux acc s = [] \<longleftrightarrow> acc = [] \<and> (\<forall>c \<in> set s. is_space c)" for acc
    by (induction s arbitrary: acc) auto
  thus ?thesis by (simp add: Fields_def)
qed

lemma TrimSpace_Nil_iff: "TrimSpace s = [] \<longleftrightarrow> (\<forall>c \<in> set s. is_space c)"
  by (auto simp: TrimSpace_def Trim_by_def TrimLeft_by_def TrimRight_by_def dropWhile_eq_Nil_conv dest: set_dropWhileD)
     (metis dropWhile_eq_Nil_conv hd_dropWhile hd_in_set)

lemma Fields_scope: "TrimSpace s \<noteq> [] \<Longrightarrow> Fields s \<noteq> []"
  by (simp add: Fields_Nil_iff TrimSpace_Nil_iff)

lemma isAllowedScope_iff: "isAllowedScope s \<longleftrightarrow> s \<in> set AllowedScopes"
  by (auto simp: isAllowedScope_def)

lemma redirect_fine:
  "\<not> redirect_error E ru \<longleftrightarrow> length ru \<le> 2048 \<and> (\<exists>scheme. url_Parse (re_rest_ok E) ru = Some (scheme, []) \<and> scheme \<noteq> [])"
  by (auto simp: redirect_error_def split: option.splits)

text \<open>The client a request describes, its secret aside, once it has passed the checks.\<close>

definition request_ok :: "register_env \<Rightarrow> registerRequest \<Rightarrow> bool" where
  "request_ok E req = (1 \<le> length (rr_redirects req) \<and> length (rr_redirects req) \<le> 20
     \<and> (\<forall>ru \<in> set (rr_redirects req). \<not> redirect_error E ru)
     \<and> set (or_default [''authorization_code''] (rr_grants req)) \<subseteq> set allowedGrantTypes
     \<and> set (or_default [''code''] (rr_responses req)) = set allowedResponseType
     \<and> (TrimSpace (rr_scope req) \<noteq> [] \<longrightarrow> set (Fields (rr_scope req)) \<subseteq> set AllowedScopes))"

lemma or_default_not_Nil: "d \<noteq> [] \<Longrightarrow> or_default d xs \<noteq> []"
  by (simp add: or_default_def)

lemma guard_None: "((if b then Some x else e) = None) = (\<not> b \<and> e = None)"
  by simp

lemma request_passes: "request_error E req = None \<Longrightarrow> request_ok E req"
proof -
  assume n: "request_error E req = None"
  have "rr_redirects req \<noteq> [] \<and> length (rr_redirects req) \<le> 20 \<and> \<not> list_ex (redirect_error E) (rr_redirects req)
     \<and> \<not> list_ex (\<lambda>gt. gt \<notin> set allowedGrantTypes) (or_default [''authorization_code''] (rr_grants req))
     \<and> \<not> list_ex (\<lambda>rt. rt \<notin> set allowedResponseType) (or_default [''code''] (rr_responses req))
     \<and> \<not> (TrimSpace (rr_scope req) \<noteq> [] \<and> list_ex (\<lambda>sc. \<not> isAllowedScope sc) (Fields (rr_scope req)))"
    using n unfolding request_error_def guard_None not_less by blast
  note facts = this [unfolded list_ex_iff isAllowedScope_iff]
  have one: "xs \<noteq> [] \<Longrightarrow> set xs \<subseteq> set [a] \<Longrightarrow> set xs = set [a]" for xs :: "string list" and a
    by (cases xs) auto
  have "set (or_default [''code''] (rr_responses req)) = set allowedResponseType"
    using facts or_default_not_Nil [of "[''code'']" "rr_responses req"] by (intro one) blast+
  moreover have "1 \<le> length (rr_redirects req)" using conjunct1 [OF facts] by (cases "rr_redirects req") simp_all
  ultimately show ?thesis unfolding request_ok_def using facts by blast
qed

text \<open>What a registered client looks like, against the answer that announced it.\<close>

definition client_ok :: "register_env \<Rightarrow> registerResponse \<Rightarrow> client \<Rightarrow> bool" where
  "client_ok E resp c =
     (1 \<le> length (cl_redirects c) \<and> length (cl_redirects c) \<le> 20
      \<and> (\<forall>ru \<in> set (cl_redirects c). length ru \<le> 2048 \<and>
            (\<exists>scheme. url_Parse (re_rest_ok E) ru = Some (scheme, []) \<and> scheme \<noteq> []))
      \<and> set (cl_grant_types c) \<subseteq> set allowedGrantTypes \<and> set (cl_response_types c) = set allowedResponseType
      \<and> cl_scopes c \<noteq> [] \<and> set (cl_scopes c) \<subseteq> set AllowedScopes
      \<and> cl_public c = (cl_method c = ''none'')
      \<and> (if cl_public c then cl_secret c = None \<and> rs_secret resp = []
         else cl_secret c = re_hash E (rs_secret resp) \<and> cl_secret c \<noteq> None)
      \<and> cl_redirects c = rs_redirects resp \<and> cl_method c = rs_method resp \<and> cl_grant_types c = rs_grants resp
      \<and> rs_scope resp = Join (cl_scopes c) '' '')"

lemma client_of_ok:
  assumes e: "request_error E req = None" and s: "new_secret E req = Some (p, h)"
  shows "client_ok E (response_of E req p) (client_of E req h)"
proof -
  have "if request_method req = ''none'' then h = None \<and> p = [] else h = re_hash E p \<and> h \<noteq> None"
    using s unfolding new_secret_def
    by (cases "re_secret E"; cases "re_hash E (the (re_secret E))") (auto simp del: not_None_eq split: if_split_asm, metis option.distinct(1))
  moreover have "request_scopes req \<noteq> [] \<and> set (request_scopes req) \<subseteq> set AllowedScopes"
    using request_passes [OF e] Fields_scope [of "rr_scope req"]
    by (cases "TrimSpace (rr_scope req) = []") (simp_all add: request_ok_def request_scopes_def)
  ultimately show ?thesis
    using request_passes [OF e]
    unfolding client_ok_def client_of_def response_of_def request_ok_def redirect_fine
    by (simp only: client.select_convs registerResponse.select_convs simp_thms) blast
qed

lemma insertClient_found:
  assumes "insertClient bad c st = Some st'"
  shows "st' = st\<lparr>clients := clients st @ [c]\<rparr> \<and> cl_id c \<notin> cl_id ` set (clients st)
    \<and> GetClient (\<lambda>_. False) (cl_id c) st' = Inr (toFosite c)"
proof -
  have "cl_id c \<notin> cl_id ` set cs \<Longrightarrow> find (\<lambda>x. cl_id x = cl_id c) (cs @ [c]) = Some c" for cs
    by (induction cs) auto
  thus ?thesis using assms by (auto simp: insertClient_def GetClient_def split: if_splits)
qed


section \<open>Consent\<close>

lemma scopesNotIn_set [simp]: "set (scopesNotIn a b) = set a - set b"
  by (auto simp: scopesNotIn_def)

lemma grantedScopes_set: "set (grantedScopes c r) = set c \<inter> set AllowedScopes \<inter> set r"
  unfolding grantedScopes_def isAllowedScope_iff list_ex_iff set_filter by blast

lemma grantedScopes_sub: "set (grantedScopes c r) \<subseteq> set r"
  unfolding grantedScopes_set by blast

lemma scopeSetContainsAll_iff: "scopeSetContainsAll a b \<longleftrightarrow> set b \<subseteq> set a"
  by (auto simp: scopeSetContainsAll_def list_all_iff)

lemma getConsent_frame:
  "consents st' = consents st \<Longrightarrow> getConsent bad u c st' = getConsent bad u c st"
  by (simp add: getConsent_def)

lemma EnsureKey_frame: "consents (fst (EnsureKey bad lib kid key st)) = consents st"
  by (auto simp: EnsureKey_def rotate_key_def split: sum.splits option.splits)

lemma getConsent_calm: "getConsent bad u c st = Inr ss \<Longrightarrow> getConsent (\<lambda>_. False) u c st = Inr ss"
  by (auto simp: getConsent_def split: if_splits)

lemma find_map_update:
  "find P xs = Some y \<Longrightarrow> (\<And>x. P (f x) = P x) \<Longrightarrow> find P (map f xs) = Some (f y)"
  by (induction xs) (auto split: if_splits)

lemma saveConsent_get:
  assumes "saveConsent bad is_user u c scopes st = (st', Inr ())"
  shows "\<exists>ss. getConsent (\<lambda>_. False) u c st' = Inr ss \<and> set ss = set scopes"
    and "(u', c') \<noteq> (u, c) \<Longrightarrow> getConsent b u' c' st' = getConsent b u' c' st"
proof -
  let ?P = "\<lambda>x. cs_user x = u \<and> cs_client x = c" and ?Q = "\<lambda>x. cs_user x = u' \<and> cs_client x = c'"
  let ?f = "\<lambda>x. if ?P x then x\<lparr>cs_scopes := remdups scopes\<rparr> else x"
  have ex: "list_ex ?P xs \<Longrightarrow> \<exists>y. find ?P (map ?f xs) = Some y \<and> cs_scopes y = remdups scopes" for xs
    by (induction xs) auto
  have new: "\<not> list_ex ?P xs \<Longrightarrow> find ?P (xs @ [y]) = (if ?P y then Some y else None)" for xs y
    by (induction xs) auto
  show "\<exists>ss. getConsent (\<lambda>_. False) u c st' = Inr ss \<and> set ss = set scopes"
    using assms ex [of "consents st"] new [of "consents st"]
    by (auto simp: saveConsent_def getConsent_def Let_def split: if_splits)
  have o1: "(u', c') \<noteq> (u, c) \<Longrightarrow> find ?Q (map ?f xs) = find ?Q xs" for xs by (induction xs) auto
  have o2: "(u', c') \<noteq> (u, c) \<Longrightarrow> find ?Q (xs @ [\<lparr>cs_user = u, cs_client = c, cs_scopes = remdups scopes\<rparr>]) = find ?Q xs" for xs
    by (induction xs) auto
  show "(u', c') \<noteq> (u, c) \<Longrightarrow> getConsent b u' c' st' = getConsent b u' c' st"
    using assms o1 [of "consents st"] o2 [of "consents st"]
    by (auto simp: saveConsent_def getConsent_def Let_def split: if_splits)
qed

lemma fold_GrantScope:
  "fosite_ok F \<Longrightarrow> set (GetGrantedScopes F (fold (GrantScope F) ss ar)) = set ss \<union> set (GetGrantedScopes F ar)"
  by (induction ss arbitrary: ar) (auto simp: fosite_ok_def)

text \<open>An answer that carries a response, and what it was made of.\<close>

definition issued :: "('ar, 'acc) fosite \<Rightarrow> world \<Rightarrow> world \<Rightarrow> string \<Rightarrow> user_row \<Rightarrow> string \<Rightarrow> string list \<Rightarrow> bool" where
  "issued F w w' resp u cid granted =
     (\<exists>q ar ar' st1 ses. NewAuthorizeRequest F (store w) q = Inr ar \<and> GetClientID F ar = cid
        \<and> set granted \<subseteq> set (GetRequestedScopes F ar)
        \<and> set (GetGrantedScopes F ar') = set granted
        \<and> ss_subject ses = user_id u
        \<and> NewAuthorizeResponse F st1 ar' ses = (store w', Inr resp)
        \<and> (\<exists>ss. getConsent (\<lambda>_. False) (user_id u) cid st1 = Inr ss \<and> set granted \<subseteq> set ss))"

lemma finishAuthorize_issued:
  assumes F: "fosite_ok F" and q: "NewAuthorizeRequest F (store w0) q = Inr ar"
    and f: "finishAuthorize F E ar u scopes w = (w', AuthorizeResponse resp)"
    and s: "set scopes \<subseteq> set (GetRequestedScopes F ar)"
    and c: "getConsent (\<lambda>_. False) (user_id u) (GetClientID F ar) (store w) = Inr ss" "set scopes \<subseteq> set ss"
  shows "issued F w0 w' resp u (GetClientID F ar) scopes"
proof -
  let ?ar = "fold (GrantScope F) scopes ar"
  obtain st1 kid k where e: "EnsureKey (az_fails E) (az_rsa E) (az_kid E) (az_key E) (store w) = (st1, Inr (kid, k))"
    and r: "NewAuthorizeResponse F st1 ?ar (newSession (az_now E) kid (az_issuer E) (user_id u) (user_email u)) = (store w', Inr resp)"
    using f by (auto simp: finishAuthorize_def Let_def split: prod.splits sum.splits)
  have "consents st1 = consents (store w)" using EnsureKey_frame e by (metis fst_conv)
  hence "getConsent (\<lambda>_. False) (user_id u) (GetClientID F ar) st1 = Inr ss" using c(1) getConsent_frame by metis
  moreover have "set (GetGrantedScopes F ?ar) = set scopes"
    using fold_GrantScope [OF F] F q by (simp add: fosite_ok_def)
  ultimately show ?thesis
    unfolding issued_def using q r s c(2) by (metis newSession_def stored_session.select_convs(1))
qed

lemma continueAuthorize_issued:
  assumes "fosite_ok F" "NewAuthorizeRequest F (store w) q = Inr ar" "store w1 = store w"
    and "continueAuthorize F E r ar u w1 = (w', AuthorizeResponse resp)"
  shows "issued F w w' resp u (GetClientID F ar) (GetRequestedScopes F ar)"
  using assms finishAuthorize_issued [OF assms(1,2), where w = w1] getConsent_calm
  by (fastforce simp: continueAuthorize_def renderConsent_def Let_def scopeSetContainsAll_iff split: sum.splits if_splits)

lemma finishAuthorize_accounts: "accounts (fst (finishAuthorize F E ar u scopes w)) = accounts w"
  by (simp add: finishAuthorize_def Let_def split: prod.split sum.split)

lemma continueAuthorize_accounts: "accounts (fst (continueAuthorize F E r ar u w)) = accounts w"
  by (simp add: continueAuthorize_def Let_def finishAuthorize_accounts split: sum.split)

lemma currentUser_token:
  "currentUser E r w = Some u \<Longrightarrow> \<exists>tok. cookie r = Some tok \<and> ValidateSession (az_auth E) (az_now E) tok (accounts w) = Inr u"
  by (auto simp: currentUser_def split: option.splits sum.splits)

lemma post_consent_response:
  assumes c: "post_consent F E r form q ar w = (w', rep)" and p: "page rep = AuthorizeResponse resp"
  shows "\<exists>u st kept. currentUser E r w = Some u
     \<and> saveConsent (az_fails E) (\<lambda>u. u \<in> set (account_ids (accounts w))) (user_id u) (GetClientID F ar)
           (grantedScopes (form_all form ''granted'') (GetRequestedScopes F ar) @ kept) (store w) = (st, Inr ())
     \<and> finishAuthorize F E ar u (grantedScopes (form_all form ''granted'') (GetRequestedScopes F ar)) (w\<lparr>store := st\<rparr>)
           = (w', AuthorizeResponse resp)"
proof (cases "currentUser E r w")
  case None
  thus ?thesis using c p by (auto simp: post_consent_def renderLogin_def)
next
  case (Some u)
  define g where "g = grantedScopes (form_all form ''granted'') (GetRequestedScopes F ar)"
  define d where "d = (form_get form ''decision'' \<noteq> ''allow'')"
  obtain kept where k: "post_consent F E r form q ar w =
     (if d then (w, plain (AuthorizeError ''access_denied''))
      else case saveConsent (az_fails E) (\<lambda>u. u \<in> set (account_ids (accounts w))) (user_id u) (GetClientID F ar) (g @ kept) (store w) of
                  (st, Inl _) \<Rightarrow> (w\<lparr>store := st\<rparr>, plain (HttpError 500 ''internal error''))
                | (st, Inr _) \<Rightarrow> (let (w', p) = finishAuthorize F E ar u g (w\<lparr>store := st\<rparr>) in (w', plain p)))"
    unfolding post_consent_def Some g_def d_def Let_def option.case by blast
  show ?thesis
    unfolding g_def [symmetric] Some
    using c p unfolding k
    by (intro exI [of _ u] exI [of _ kept] conjI refl)
       (cases d; auto split: prod.splits sum.splits)+
qed

text \<open>
  C22. No grant without consent. Whenever the authorize endpoint, by whichever path (a standing
  consent, a login, the consent form), hands Fosite a request to answer and answers with its
  response, the response is for the signed-in user, the scopes granted are among those requested,
  and every one of them is in the consent stored for that user and client at that moment.
\<close>

theorem no_grant_without_consent:
  assumes "fosite_ok F" and "HandleAuthorize F E r w = (w', rep)" and "page rep = AuthorizeResponse resp"
  shows "\<exists>u tok cid granted. ValidateSession (az_auth E) (az_now E) tok (accounts w') = Inr u
     \<and> (cookie r = Some tok \<or> set_cookie rep = Some tok) \<and> issued F w w' resp u cid granted"
proof (cases "method_post r")
  case False
  then obtain ar u where a: "NewAuthorizeRequest F (store w) (raw_query r) = Inr ar" "currentUser E r w = Some u"
      "continueAuthorize F E r ar u w = (w', AuthorizeResponse resp)"
    using assms(2,3)
    by (auto simp: HandleAuthorize_def handleAuthorizeGET_def renderLogin_def split: sum.splits option.splits prod.splits)
  thus ?thesis
    using continueAuthorize_issued [OF assms(1) a(1) refl a(3)] continueAuthorize_accounts [of F E r ar u w] currentUser_token [OF a(2)]
    by auto
next
  case True
  then obtain form ar where a: "reparseAuthorize F (form_get form ''oauth_request'') w = Inr ar"
      "post_login F E r form (form_get form ''oauth_request'') ar w = (w', rep)
       \<or> post_consent F E r form (form_get form ''oauth_request'') ar w = (w', rep)"
    using assms(2,3)
    by (auto simp: HandleAuthorize_def handleAuthorizePOST_def Let_def split: option.splits sum.splits if_splits)
  note q = a(1) [unfolded reparseAuthorize_def]
  from a(2) show ?thesis
  proof
    assume "post_login F E r form (form_get form ''oauth_request'') ar w = (w', rep)"
    then obtain acc tok u where p: "ValidateSession (az_auth E) (az_now E) tok acc = Inr u" "set_cookie rep = Some tok"
        "continueAuthorize F E r ar u (w\<lparr>accounts := acc\<rparr>) = (w', AuthorizeResponse resp)"
      using assms(3) by (auto simp: post_login_def renderLogin_def split: prod.splits sum.splits)
    thus ?thesis
      using continueAuthorize_issued [OF assms(1) q _ p(3)] continueAuthorize_accounts [of F E r ar u "w\<lparr>accounts := acc\<rparr>"]
      by auto
  next
    assume "post_consent F E r form (form_get form ''oauth_request'') ar w = (w', rep)"
    from post_consent_response [OF this assms(3)]
    obtain u st kept where p: "currentUser E r w = Some u"
        "saveConsent (az_fails E) (\<lambda>u. u \<in> set (account_ids (accounts w))) (user_id u) (GetClientID F ar)
           (grantedScopes (form_all form ''granted'') (GetRequestedScopes F ar) @ kept) (store w) = (st, Inr ())"
        "finishAuthorize F E ar u (grantedScopes (form_all form ''granted'') (GetRequestedScopes F ar)) (w\<lparr>store := st\<rparr>)
           = (w', AuthorizeResponse resp)"
      by blast
    obtain ss where ss: "getConsent (\<lambda>_. False) (user_id u) (GetClientID F ar) st = Inr ss"
        "set ss = set (grantedScopes (form_all form ''granted'') (GetRequestedScopes F ar) @ kept)"
      using saveConsent_get(1) [OF p(2)] by blast
    have "issued F w w' resp u (GetClientID F ar) (grantedScopes (form_all form ''granted'') (GetRequestedScopes F ar))"
      using ss by (intro finishAuthorize_issued [OF assms(1) q p(3)]) (simp_all add: grantedScopes_sub, blast)
    moreover have "accounts w' = accounts w"
      using finishAuthorize_accounts [of F E ar u _ "w\<lparr>store := st\<rparr>"] p(3) by (metis fst_conv world.select_convs(1) world.surjective world.update_convs(2))
    ultimately show ?thesis
      using currentUser_token [OF p(1)] by metis
  qed
qed


text \<open>A small authorization library, for the concrete runs below: one client, the query is the scope.\<close>

definition tiny_fosite :: "(string list \<times> string list, unit) fosite" where
  "tiny_fosite = \<lparr>NewAuthorizeRequest = (\<lambda>st q. if q = [] then Inl ''invalid_client'' else Inr ([q], [])),
     GetClientID = (\<lambda>_. ''c''), GetRequestedScopes = fst, GetGrantedScopes = snd,
     GrantScope = (\<lambda>s (r, g). (r, s # g)), NewAuthorizeResponse = (\<lambda>st ar ses. (st, Inr ''code'')),
     NewAccessRequest = (\<lambda>st r. (st, Inl ''invalid_request'')), NewAccessResponse = (\<lambda>st a. (st, Inl ''invalid_request'')),
     NewRevocationRequest = (\<lambda>st r. (st, Inr ())), AccessTokenFromRequest = id,
     IntrospectToken = (\<lambda>st t s. Inl ''request_unauthorized'')\<rparr>"

lemma tiny_fosite_ok: "fosite_ok tiny_fosite"
  by (auto simp: fosite_ok_def tiny_fosite_def split: if_splits)

definition tiny_env :: az_env where
  "tiny_env = \<lparr>az_auth = calm plain_crypto, az_fails = (\<lambda>_. False), az_now = 0, az_token = Some ''t'', az_sid = ''i'',
     az_kid = ''k'', az_key = Some ''key'',
     az_rsa = \<lparr>ParsePKCS1PrivateKey = Some, MarshalPKCS1PrivateKey = id, PublicKey = id\<rparr>, az_issuer = ''https://a''\<rparr>"

definition tiny_world :: world where
  "tiny_world = \<lparr>accounts = fst (SignUp (calm plain_crypto) 0 ''u'' ''u@x.io'' ''password'' empty_auth), store = client_example\<rparr>"

definition signed_in :: world where
  "signed_in = fst (HandleAuthorize tiny_fosite tiny_env (login_form ''profile'' ''u@x.io'' ''password'') tiny_world)"

lemma tiny_login:
  "ValidateSession (az_auth tiny_env) (az_now tiny_env) ''t'' (accounts signed_in) =
     Inr \<lparr>user_id = ''u'', user_email = ''u@x.io'', user_hash = the (hashPassword plain_crypto ''password''), user_created = 0, user_updated = 0\<rparr>"
  by code_simp

lemma no_grant_without_consent_witness:
  "\<exists>u cid granted. issued tiny_fosite signed_in
     (fst (HandleAuthorize tiny_fosite tiny_env (consent_form ''profile'' [''profile''] [] ''allow'' ''t'') signed_in)) ''code'' u cid granted"
proof -
  let ?r = "consent_form ''profile'' [''profile''] [] ''allow'' ''t''"
  have p: "page (snd (HandleAuthorize tiny_fosite tiny_env ?r signed_in)) = AuthorizeResponse ''code''" by code_simp
  show ?thesis
    using no_grant_without_consent [OF tiny_fosite_ok prod.collapse [symmetric] p] by blast
qed

lemma currentUser_account: "currentUser E r w = Some u \<Longrightarrow> user_id u \<in> set (account_ids (accounts w))"
  by (auto simp: currentUser_def ValidateSession_def account_ids_def dest: user_by_id_id split: option.splits sum.splits if_splits)

lemma finishAuthorize_consents:
  assumes "\<And>st ar ses. consents (fst (NewAuthorizeResponse F st ar ses)) = consents st"
  shows "consents (store (fst (finishAuthorize F E ar u scopes w))) = consents (store w)"
  using assms [of "fst (EnsureKey (az_fails E) (az_rsa E) (az_kid E) (az_key E) (store w))"]
    EnsureKey_frame [of "az_fails E" "az_rsa E" "az_kid E" "az_key E" "store w"]
  by (auto simp: finishAuthorize_def Let_def split: prod.splits sum.splits) (metis fst_conv)+

text \<open>The consent the form leaves behind: what was checked of the request, and what was kept of the past.\<close>

definition consented :: "(string \<times> string list) list \<Rightarrow> string list \<Rightarrow> string list \<Rightarrow> string set" where
  "consented form requested existing =
     (set (form_all form ''granted'') \<inter> set AllowedScopes \<inter> set requested)
     \<union> (set (form_all form ''keep'') \<inter> set AllowedScopes \<inter> (set existing - set requested))"

lemma saveConsent_succeeds:
  assumes "\<not> bad UpsertConsent" "is_user u" "c \<in> cl_id ` set (clients st)"
  shows "\<exists>st'. saveConsent bad is_user u c scopes st = (st', Inr ())"
  using assms by (simp add: saveConsent_def Let_def)

lemma post_consent_stores:
  assumes F: "\<And>st ar ses. consents (fst (NewAuthorizeResponse F st ar ses)) = consents st"
    and u: "currentUser E r w = Some u" and allow: "form_get form ''decision'' = ''allow''"
    and client: "GetClientID F ar \<in> cl_id ` set (clients (store w))" and calm: "\<And>q. \<not> az_fails E q"
    and existing: "existing = (case getConsent (\<lambda>_. False) (user_id u) (GetClientID F ar) (store w) of Inl _ \<Rightarrow> [] | Inr ss \<Rightarrow> ss)"
  shows "\<exists>st. saveConsent (az_fails E) (\<lambda>u. u \<in> set (account_ids (accounts w))) (user_id u) (GetClientID F ar)
            (grantedScopes (form_all form ''granted'') (GetRequestedScopes F ar)
             @ grantedScopes (form_all form ''keep'') (scopesNotIn existing (GetRequestedScopes F ar))) (store w) = (st, Inr ())
        \<and> consents (store (fst (post_consent F E r form q ar w))) = consents st"
proof -
  let ?g = "grantedScopes (form_all form ''granted'') (GetRequestedScopes F ar)"
  let ?k = "grantedScopes (form_all form ''keep'') (scopesNotIn existing (GetRequestedScopes F ar))"
  have "az_fails E = (\<lambda>_. False)" using calm by blast
  hence ex: "(case getConsent (az_fails E) (user_id u) (GetClientID F ar) (store w) of Inl _ \<Rightarrow> [] | Inr ss \<Rightarrow> ss) = existing"
    using existing by simp
  obtain st where st: "saveConsent (az_fails E) (\<lambda>u. u \<in> set (account_ids (accounts w))) (user_id u) (GetClientID F ar) (?g @ ?k) (store w) = (st, Inr ())"
    using saveConsent_succeeds [of "az_fails E" "\<lambda>u. u \<in> set (account_ids (accounts w))" "user_id u" "GetClientID F ar" "store w" "?g @ ?k"]
      calm client currentUser_account [OF u] by blast
  have "post_consent F E r form q ar w = (let (w', p) = finishAuthorize F E ar u ?g (w\<lparr>store := st\<rparr>) in (w', plain p))"
    by (simp only: post_consent_def u option.case allow simp_thms if_False Let_def ex st prod.case sum.case)
  moreover have "consents (store (fst (finishAuthorize F E ar u ?g (w\<lparr>store := st\<rparr>)))) = consents st"
    using finishAuthorize_consents [OF F] by simp
  ultimately show ?thesis using st by (auto simp: case_prod_beta)
qed

text \<open>
  C23. The consent form says exactly what is kept. When a signed-in user submits it with Allow, the
  consent stored for the client is the requested scopes that were checked and the earlier, not
  requested ones that were left checked: a scope that was unchecked is revoked, a forged value
  resurrects nothing, and no other user's or client's consent changes. With any other decision the
  answer is a denial and nothing changes.
\<close>

theorem consent_form_exact:
  assumes F: "\<And>st ar ses. consents (fst (NewAuthorizeResponse F st ar ses)) = consents st"
    and r: "method_post r" "post_form r = Some form" "form_get form ''step'' = ''consent''"
    and ar: "NewAuthorizeRequest F (store w) (form_get form ''oauth_request'') = Inr ar"
    and u: "currentUser E r w = Some u"
    and client: "GetClientID F ar \<in> cl_id ` set (clients (store w))" and calm: "\<And>q. \<not> az_fails E q"
    and existing: "existing = (case getConsent (\<lambda>_. False) (user_id u) (GetClientID F ar) (store w) of Inl _ \<Rightarrow> [] | Inr ss \<Rightarrow> ss)"
    and h: "HandleAuthorize F E r w = (w', rep)"
  shows "if form_get form ''decision'' = ''allow''
     then (\<exists>ss. getConsent (\<lambda>_. False) (user_id u) (GetClientID F ar) (store w') = Inr ss
             \<and> set ss = consented form (GetRequestedScopes F ar) existing)
        \<and> (\<forall>u' c'. (u', c') \<noteq> (user_id u, GetClientID F ar) \<longrightarrow>
             getConsent (\<lambda>_. False) u' c' (store w') = getConsent (\<lambda>_. False) u' c' (store w))
     else w' = w \<and> page rep = AuthorizeError ''access_denied''"
proof -
  have p: "post_consent F E r form (form_get form ''oauth_request'') ar w = (w', rep)"
    using h r ar unfolding HandleAuthorize_def handleAuthorizePOST_def reparseAuthorize_def Let_def by simp
  show ?thesis
  proof (cases "form_get form ''decision'' = ''allow''")
    case True
    obtain st where st: "saveConsent (az_fails E) (\<lambda>u. u \<in> set (account_ids (accounts w))) (user_id u) (GetClientID F ar)
            (grantedScopes (form_all form ''granted'') (GetRequestedScopes F ar)
             @ grantedScopes (form_all form ''keep'') (scopesNotIn existing (GetRequestedScopes F ar))) (store w) = (st, Inr ())"
        "consents (store w') = consents st"
      using post_consent_stores [OF F u True client calm existing, of "form_get form ''oauth_request''"] p by auto
    have "set (grantedScopes (form_all form ''granted'') (GetRequestedScopes F ar)
             @ grantedScopes (form_all form ''keep'') (scopesNotIn existing (GetRequestedScopes F ar)))
       = consented form (GetRequestedScopes F ar) existing"
      by (simp only: consented_def set_append grantedScopes_set scopesNotIn_set)
    thus ?thesis
      using saveConsent_get [OF st(1)] getConsent_frame [OF st(2)] True by auto
  next
    case False
    hence "post_consent F E r form (form_get form ''oauth_request'') ar w = (w, plain (AuthorizeError ''access_denied''))"
      by (simp only: post_consent_def u option.case if_True simp_thms)
    thus ?thesis using False p by simp
  qed
qed

text \<open>
  The consent page after a login is lost. The page that follows a login through the login form
  carries the query of the POST, which the form leaves empty, instead of the request the form
  carried: submitting that consent page is refused as a malformed request and stores no consent,
  whatever the user checked.
\<close>

theorem login_form_loses_request:
  assumes none: "\<And>st. \<exists>e. NewAuthorizeRequest F st [] = Inl e"
    and l: "HandleAuthorize F E (login_form q email password) w = (w1, rep)"
    and p: "page rep = ConsentPage cid em q' scopes prev" and t: "set_cookie rep = Some tok"
    and s: "HandleAuthorize F E2 (consent_form q' granted keep decision tok) w1 = (w2, rep2)"
  shows "q' = [] \<and> w2 = w1 \<and> (\<exists>e. page rep2 = AuthorizeError e)"
proof -
  have f: "finishAuthorize F E ar u ss w0 = (w', ConsentPage a b c d e) \<Longrightarrow> False" for ar u ss w0 w' a b c d e
    by (auto simp: finishAuthorize_def Let_def split: prod.splits sum.splits)
  have "continueAuthorize F E (login_form q email password) ar u w0 = (w', ConsentPage cid em q' scopes prev) \<Longrightarrow> q' = []" for ar u w0 w'
    by (auto simp: continueAuthorize_def Let_def renderConsent_def login_form_def dest: f split: sum.splits if_splits)
  hence q': "q' = []"
    using l p
    by (auto simp: HandleAuthorize_def handleAuthorizePOST_def login_form_def post_login_def renderLogin_def Let_def form_get_def
        split: sum.splits prod.splits option.splits)
  have "form_get (the (post_form (consent_form [] granted keep decision tok))) ''oauth_request'' = []"
    by (simp add: consent_form_def form_get_def)
  thus ?thesis
    using s none [of "store w1"]
    by (auto simp: q' HandleAuthorize_def handleAuthorizePOST_def consent_form_def reparseAuthorize_def Let_def)
qed

lemma login_form_loses_request_witness:
  "\<exists>e. page (snd (HandleAuthorize tiny_fosite tiny_env (consent_form [] [''files:read''] [] ''allow'' ''t'')
     (fst (HandleAuthorize tiny_fosite tiny_env (login_form ''files:read'' ''u@x.io'' ''password'') tiny_world)))) = AuthorizeError e"
proof -
  let ?f = "login_form ''files:read'' ''u@x.io'' ''password''"
  have none: "\<And>st. \<exists>e. NewAuthorizeRequest tiny_fosite st [] = Inl e" by (simp add: tiny_fosite_def)
  have l: "HandleAuthorize tiny_fosite tiny_env ?f tiny_world = (fst (HandleAuthorize tiny_fosite tiny_env ?f tiny_world), snd (HandleAuthorize tiny_fosite tiny_env ?f tiny_world))"
    by simp
  have p: "page (snd (HandleAuthorize tiny_fosite tiny_env ?f tiny_world)) = ConsentPage ''c'' ''u@x.io'' [] [''files:read''] [''profile'']" by code_simp
  have t: "set_cookie (snd (HandleAuthorize tiny_fosite tiny_env ?f tiny_world)) = Some ''t''" by code_simp
  show ?thesis
    using login_form_loses_request [OF none l p t prod.collapse [symmetric]] by blast
qed

lemma consent_form_exact_witness:
  "\<exists>ss. getConsent (\<lambda>_. False) ''u'' ''c''
      (store (fst (HandleAuthorize tiny_fosite tiny_env (consent_form ''files:read'' [''files:read''] [''profile'', ''files:write''] ''allow'' ''t'') signed_in))) = Inr ss
     \<and> set ss = {''files:read'', ''profile''}"
proof -
  let ?form = "[(''step'', [''consent'']), (''oauth_request'', [''files:read'']), (''granted'', [''files:read'']),
     (''keep'', [''profile'', ''files:write'']), (''decision'', [''allow''])]"
  let ?r = "consent_form ''files:read'' [''files:read''] [''profile'', ''files:write''] ''allow'' ''t''"
  let ?u = "\<lparr>user_id = ''u'', user_email = ''u@x.io'', user_hash = the (hashPassword plain_crypto ''password''), user_created = 0, user_updated = 0\<rparr>"
  have F: "\<And>st ar ses. consents (fst (NewAuthorizeResponse tiny_fosite st ar ses)) = consents st" by (simp add: tiny_fosite_def)
  have r: "method_post ?r" "post_form ?r = Some ?form" "form_get ?form ''step'' = ''consent''" by (simp_all add: consent_form_def form_get_def)
  have ar: "NewAuthorizeRequest tiny_fosite (store signed_in) (form_get ?form ''oauth_request'') = Inr ([''files:read''], [])"
    by (simp add: tiny_fosite_def form_get_def)
  have u: "currentUser tiny_env ?r signed_in = Some ?u" by (simp add: currentUser_def consent_form_def tiny_login)
  have c: "GetClientID tiny_fosite ([''files:read''], []) \<in> cl_id ` set (clients (store signed_in))" by code_simp
  have e: "[''profile''] = (case getConsent (\<lambda>_. False) (user_id ?u) (GetClientID tiny_fosite ([''files:read''], [])) (store signed_in) of Inl _ \<Rightarrow> [] | Inr ss \<Rightarrow> ss)"
    by code_simp
  have n: "\<And>q. \<not> az_fails tiny_env q" by (simp add: tiny_env_def)
  have d: "form_get ?form ''decision'' = ''allow''" by (simp add: form_get_def)
  have s: "consented ?form [''files:read''] [''profile''] = {''files:read'', ''profile''}" by code_simp
  have g: "GetRequestedScopes tiny_fosite ([''files:read''], []) = [''files:read'']" "GetClientID tiny_fosite ([''files:read''], []) = ''c''"
    by (simp_all add: tiny_fosite_def)
  show ?thesis
    using consent_form_exact [OF F r ar u c n e prod.collapse [symmetric]] unfolding if_P [OF d] g s by simp
qed

end
