(* ===== verification/File_Storage.thy ===== *)
theory File_Storage
  imports Maubase_Prelude "HOL-Library.Multiset"
begin

text \<open>
  File storage: \<^verbatim>\<open>internal/storage/backend.go\<close> and \<^verbatim>\<open>server.go\<close>. The interface \<open>Backend\<close> is a
  structure of functions, as in the source; its contract is the locale \<open>blob_store\<close>, which the
  local backend is shown to meet, and the server's lemmas rest on the contract only. The
  multipart parser and the identifier generator are parameters; a statement or a file operation
  fails when the environment says so.
\<close>

section \<open>The backend\<close>

datatype fs_op = FsCreate | FsCopy | FsRemove | FsOpen

record 'fs backend =
  Put :: "(fs_op \<Rightarrow> bool) \<Rightarrow> string \<Rightarrow> string \<Rightarrow> 'fs \<Rightarrow> 'fs \<times> nat option"
  Open :: "(fs_op \<Rightarrow> bool) \<Rightarrow> string \<Rightarrow> 'fs \<Rightarrow> string option"
  Delete :: "(fs_op \<Rightarrow> bool) \<Rightarrow> string \<Rightarrow> 'fs \<Rightarrow> 'fs \<times> bool"

text \<open>The directory of the local backend: file names and contents. A copy that fails has written some
  prefix, and the file is removed again unless that fails too.\<close>

type_synonym dir = "string \<rightharpoonup> string"

definition LocalPut :: "nat \<Rightarrow> (fs_op \<Rightarrow> bool) \<Rightarrow> string \<Rightarrow> string \<Rightarrow> dir \<Rightarrow> dir \<times> nat option" where
  "LocalPut written fsf key r d =
     (if fsf FsCreate \<or> d key \<noteq> None then (d, None)
      else if fsf FsCopy then ((if fsf FsRemove then d(key \<mapsto> take written r) else d), None)
      else (d(key \<mapsto> r), Some (length r)))"

definition LocalOpen :: "(fs_op \<Rightarrow> bool) \<Rightarrow> string \<Rightarrow> dir \<Rightarrow> string option" where
  "LocalOpen fsf key d = (if fsf FsOpen then None else d key)"

definition LocalDelete :: "(fs_op \<Rightarrow> bool) \<Rightarrow> string \<Rightarrow> dir \<Rightarrow> dir \<times> bool" where
  "LocalDelete fsf key d =
     (if d key = None then (d, True)
      else if fsf FsRemove then (d, False)
      else (d(key := None), True))"

definition LocalBackend :: "nat \<Rightarrow> dir backend" where
  "LocalBackend written = \<lparr>Put = LocalPut written, Open = LocalOpen, Delete = LocalDelete\<rparr>"


section \<open>The server\<close>

record FileMeta =
  f_id :: string
  f_owner :: string
  f_name :: string
  f_type :: string
  f_size :: nat
  f_created :: time

record 'fs storage =
  files :: "FileMeta list"
  blobs :: 'fs

datatype file_stmt = FInsert | FSelect | FList | FDelete string

record upload =
  up_name :: string
  up_type :: string
  up_bytes :: string

text \<open>The parser returns the \<open>file\<close> part, if any; \<open>f_scan\<close> is the order in which a scan meets rows with
  the same time, which the query leaves open, and \<open>f_user\<close> says which accounts exist, for the reference
  of the owner column.\<close>

record file_env =
  f_fails :: "file_stmt \<Rightarrow> bool"
  f_fs :: "fs_op \<Rightarrow> bool"
  f_parse :: "string \<Rightarrow> upload option option"
  f_uuid :: string
  f_now :: time
  f_max :: nat
  f_scan :: "FileMeta list \<Rightarrow> FileMeta list"
  f_user :: "string \<Rightarrow> bool"

datatype file_json = FileJson string string string nat time

datatype file_reply =
    FError nat string
  | FCreated file_json
  | FOk file_json
  | FList_ok "file_json list" nat nat
  | FContent string nat string string
  | FNoContent

definition fileJSON :: "FileMeta \<Rightarrow> file_json" where
  "fileJSON m = FileJson (f_id m) (f_name m) (f_type m) (f_size m) (f_created m)"

datatype get_error = FNotFound | FLookup

definition get_meta :: "file_env \<Rightarrow> string \<Rightarrow> string \<Rightarrow> 'fs storage \<Rightarrow> get_error + FileMeta" where
  "get_meta E ownerID i st =
     (if f_fails E FSelect then Inl FLookup
      else (case find (\<lambda>m. f_id m = i \<and> f_owner m = ownerID) (files st) of None \<Rightarrow> Inl FNotFound | Some m \<Rightarrow> Inr m))"

definition get_reply :: "get_error \<Rightarrow> file_reply" where
  "get_reply e = (case e of FNotFound \<Rightarrow> FError 404 ''not found'' | FLookup \<Rightarrow> FError 500 ''internal error'')"

definition handleUpload :: "'fs backend \<Rightarrow> file_env \<Rightarrow> string \<Rightarrow> string \<Rightarrow> 'fs storage \<Rightarrow> 'fs storage \<times> file_reply" where
  "handleUpload B E ownerID body st =
     (case f_parse E (take (f_max E) body) of
        None \<Rightarrow> (st, FError 400 ''invalid multipart upload, or file too large'')
      | Some None \<Rightarrow> (st, FError 400 ''missing \"file\" field'')
      | Some (Some u) \<Rightarrow>
          (let contentType = (if up_type u = [] then ''application/octet-stream'' else up_type u)
           in case Put B (f_fs E) (f_uuid E) (up_bytes u) (blobs st) of
                (b, None) \<Rightarrow> (st\<lparr>blobs := b\<rparr>, FError 500 ''internal error'')
              | (b, Some n) \<Rightarrow>
                  if f_fails E FInsert \<or> \<not> f_user E ownerID \<or> f_uuid E \<in> f_id ` set (files st)
                  then (st\<lparr>blobs := fst (Delete B (f_fs E) (f_uuid E) b)\<rparr>, FError 500 ''internal error'')
                  else (let st' = st\<lparr>files := files st @ [\<lparr>f_id = f_uuid E, f_owner = ownerID, f_name = up_name u,
                                       f_type = contentType, f_size = n, f_created = f_now E\<rparr>], blobs := b\<rparr>
                        in case get_meta E ownerID (f_uuid E) st' of
                             Inl _ \<Rightarrow> (st', FError 500 ''internal error'')
                           | Inr m \<Rightarrow> (st', FCreated (fileJSON m)))))"

definition filePagination :: "string \<Rightarrow> string \<Rightarrow> nat \<times> nat" where
  "filePagination limit_q offset_q =
     ((case (if limit_q = [] then None else Atoi limit_q) of
         None \<Rightarrow> 50 | Some n \<Rightarrow> if n > 0 \<and> n \<le> 200 then nat n else 50),
      (case (if offset_q = [] then None else Atoi offset_q) of
         None \<Rightarrow> 0 | Some n \<Rightarrow> if n \<ge> 0 then nat n else 0))"

definition handleFileList :: "file_env \<Rightarrow> string \<Rightarrow> string \<Rightarrow> string \<Rightarrow> 'fs storage \<Rightarrow> file_reply" where
  "handleFileList E ownerID limit_q offset_q st =
     (let (limit, offset) = filePagination limit_q offset_q
      in if f_fails E FList then FError 500 ''internal error''
         else FList_ok (map fileJSON (take limit (drop offset
                (rev (sort_key f_created (rev (f_scan E (filter (\<lambda>m. f_owner m = ownerID) (files st)))))))))
                limit offset)"

definition handleFileGet :: "file_env \<Rightarrow> string \<Rightarrow> string \<Rightarrow> 'fs storage \<Rightarrow> file_reply" where
  "handleFileGet E ownerID i st =
     (case get_meta E ownerID i st of Inl e \<Rightarrow> get_reply e | Inr m \<Rightarrow> FOk (fileJSON m))"

text \<open>The answer carries type, declared length, name and the bytes.\<close>

definition handleDownload :: "'fs backend \<Rightarrow> file_env \<Rightarrow> string \<Rightarrow> string \<Rightarrow> 'fs storage \<Rightarrow> file_reply" where
  "handleDownload B E ownerID i st =
     (case get_meta E ownerID i st of
        Inl e \<Rightarrow> get_reply e
      | Inr m \<Rightarrow>
          (case Open B (f_fs E) (f_id m) (blobs st) of
             None \<Rightarrow> FError 500 ''internal error''
           | Some bytes \<Rightarrow> FContent (f_type m) (f_size m) (f_name m) bytes))"

definition drop_row :: "string \<Rightarrow> 'fs storage \<Rightarrow> 'fs storage" where
  "drop_row i st = st\<lparr>files := filter (\<lambda>m. f_id m \<noteq> i) (files st)\<rparr>"

definition handleFileDelete :: "'fs backend \<Rightarrow> file_env \<Rightarrow> string \<Rightarrow> string \<Rightarrow> 'fs storage \<Rightarrow> 'fs storage \<times> file_reply" where
  "handleFileDelete B E ownerID i st =
     (case get_meta E ownerID i st of
        Inl e \<Rightarrow> (st, get_reply e)
      | Inr m \<Rightarrow>
          (case Delete B (f_fs E) (f_id m) (blobs st) of
             (b, False) \<Rightarrow> (st\<lparr>blobs := b\<rparr>, FError 500 ''internal error'')
           | (b, True) \<Rightarrow>
               if f_fails E (FDelete (f_id m)) then (st\<lparr>blobs := b\<rparr>, FError 500 ''internal error'')
               else (drop_row (f_id m) (st\<lparr>blobs := b\<rparr>), FNoContent)))"

definition ExportOwnedFiles :: "file_env \<Rightarrow> string \<Rightarrow> 'fs storage \<Rightarrow> file_json list option" where
  "ExportOwnedFiles E subj st =
     (if f_fails E FList then None
      else Some (map fileJSON (sort_key f_created (f_scan E (filter (\<lambda>m. f_owner m = subj) (files st))))))"

fun delete_files :: "'fs backend \<Rightarrow> file_env \<Rightarrow> (string \<Rightarrow> fs_op \<Rightarrow> bool) \<Rightarrow> string list \<Rightarrow> 'fs storage \<Rightarrow> 'fs storage \<times> bool" where
  "delete_files B E fsf [] st = (st, True)"
| "delete_files B E fsf (i # ids) st =
     (case Delete B (fsf i) i (blobs st) of
        (b, False) \<Rightarrow> (st\<lparr>blobs := b\<rparr>, False)
      | (b, True) \<Rightarrow>
          if f_fails E (FDelete i) then (st\<lparr>blobs := b\<rparr>, False)
          else delete_files B E fsf ids (drop_row i (st\<lparr>blobs := b\<rparr>)))"

text \<open>Rows in upload order: the list holds them in the order of their row identifiers.\<close>

definition owned_ids :: "string \<Rightarrow> 'fs storage \<Rightarrow> string list" where
  "owned_ids subj st = map f_id (sort_key f_created (filter (\<lambda>m. f_owner m = subj) (files st)))"

definition DeleteOwnedFiles :: "'fs backend \<Rightarrow> file_env \<Rightarrow> (string \<Rightarrow> fs_op \<Rightarrow> bool) \<Rightarrow> string \<Rightarrow> 'fs storage \<Rightarrow> 'fs storage \<times> bool" where
  "DeleteOwnedFiles B E fsf subj st =
     (if f_fails E FList then (st, False) else delete_files B E fsf (owned_ids subj st) st)"

section \<open>The contract of a backend\<close>

abbreviation calm_fs :: "fs_op \<Rightarrow> bool" where
  "calm_fs \<equiv> (\<lambda>_. False)"

text \<open>What a subject can see: its rows in order, each with its bytes.\<close>

definition view :: "'fs backend \<Rightarrow> string \<Rightarrow> 'fs storage \<Rightarrow> (FileMeta \<times> string option) list" where
  "view B own st = map (\<lambda>m. (m, Open B calm_fs (f_id m) (blobs st))) (filter (\<lambda>m. f_owner m = own) (files st))"

datatype file_call = Upload file_env string string | Remove file_env string string

fun file_exec :: "'fs backend \<Rightarrow> file_call \<Rightarrow> 'fs storage \<Rightarrow> 'fs storage" where
  "file_exec B (Upload E own body) st = fst (handleUpload B E own body st)"
| "file_exec B (Remove E own i) st = fst (handleFileDelete B E own i st)"

fun caller :: "file_call \<Rightarrow> string" where
  "caller (Upload E own body) = own"
| "caller (Remove E own i) = own"

text \<open>A run in which every upload draws an identifier not yet in the table.\<close>

fun fresh_run :: "'fs backend \<Rightarrow> file_call list \<Rightarrow> 'fs storage \<Rightarrow> bool" where
  "fresh_run B [] st = True"
| "fresh_run B (c # cs) st =
     ((case c of Upload E _ _ \<Rightarrow> f_uuid E \<notin> f_id ` set (files st) | Remove _ _ _ \<Rightarrow> True)
      \<and> fresh_run B cs (file_exec B c st))"

definition file_run :: "'fs backend \<Rightarrow> file_call list \<Rightarrow> 'fs storage \<Rightarrow> 'fs storage" where
  "file_run B cs st = fold (file_exec B) cs st"

abbreviation ids_unique :: "'fs storage \<Rightarrow> bool" where
  "ids_unique st \<equiv> distinct (map f_id (files st))"

lemma get_meta_view:
  "get_meta E own i st = (if f_fails E FSelect then Inl FLookup
     else case find (\<lambda>m. f_id m = i) (map fst (view B own st)) of None \<Rightarrow> Inl FNotFound | Some m \<Rightarrow> Inr m)"
proof -
  have f: "find (\<lambda>m. f_id m = i \<and> f_owner m = own) ms = find (\<lambda>m. f_id m = i) (filter (\<lambda>m. f_owner m = own) ms)" for ms
    by (induction ms) auto
  show ?thesis unfolding get_meta_def view_def f by (simp add: comp_def)
qed

lemma get_meta_Inr: "get_meta E own i st = Inr m \<Longrightarrow> m \<in> set (files st) \<and> f_id m = i \<and> f_owner m = own"
  by (auto simp: get_meta_def find_Some_iff split: if_splits option.splits)

lemma get_meta_files: "files st = files st' \<Longrightarrow> get_meta E own i st = get_meta E own i st'"
  by (simp add: get_meta_def)

lemma unique_owner:
  "ids_unique st \<Longrightarrow> m \<in> set (files st) \<Longrightarrow> m' \<in> set (files st) \<Longrightarrow> f_id m = f_id m' \<Longrightarrow> m = m'"
  by (auto simp: distinct_map dest: inj_onD)

lemma filter_eq_mem: "filter P xs = filter P ys \<Longrightarrow> x \<in> set ys \<Longrightarrow> P x \<Longrightarrow> x \<in> set xs"
  by (metis (no_types, lifting) filter_set mem_Collect_eq set_filter)

lemma view_cong:
  "filter (\<lambda>m. f_owner m = own) (files st) = filter (\<lambda>m. f_owner m = own) (files st') \<Longrightarrow>
   (\<And>m. m \<in> set (files st) \<Longrightarrow> f_owner m = own \<Longrightarrow> Open B calm_fs (f_id m) (blobs st) = Open B calm_fs (f_id m) (blobs st')) \<Longrightarrow>
   view B own st = view B own st'"
  unfolding view_def by (rule map_cong) (auto dest: filter_eq_mem)

text \<open>What an upload can leave behind.\<close>

lemma upload_shape:
  obtains (same) "fst (handleUpload B E who body st) = st"
  | (put) u :: upload where "fst (handleUpload B E who body st) = st\<lparr>blobs := fst (Put B (f_fs E) (f_uuid E) (up_bytes u) (blobs st))\<rparr>"
  | (undone) u :: upload where "fst (handleUpload B E who body st) =
      st\<lparr>blobs := fst (Delete B (f_fs E) (f_uuid E) (fst (Put B (f_fs E) (f_uuid E) (up_bytes u) (blobs st))))\<rparr>"
  | (stored) u :: upload and row :: FileMeta where "f_id row = f_uuid E" "f_owner row = who" "f_uuid E \<notin> f_id ` set (files st)"
      "fst (handleUpload B E who body st) =
         st\<lparr>files := files st @ [row], blobs := fst (Put B (f_fs E) (f_uuid E) (up_bytes u) (blobs st))\<rparr>"
proof (cases "\<exists>u. f_parse E (take (f_max E) body) = Some (Some u)")
  case False
  thus ?thesis by (intro same) (auto simp: handleUpload_def split: option.splits)
next
  case True
  then obtain u where u: "f_parse E (take (f_max E) body) = Some (Some u)" by blast
  obtain b r where p: "Put B (f_fs E) (f_uuid E) (up_bytes u) (blobs st) = (b, r)" by fastforce
  let ?row = "\<lambda>n. \<lparr>f_id = f_uuid E, f_owner = who, f_name = up_name u,
     f_type = (if up_type u = [] then ''application/octet-stream'' else up_type u), f_size = n, f_created = f_now E\<rparr>"
  let ?bad = "f_fails E FInsert \<or> \<not> f_user E who \<or> f_uuid E \<in> f_id ` set (files st)"
  show ?thesis
  proof (cases r)
    case None
    thus ?thesis by (intro put [of u]) (simp add: handleUpload_def u p Let_def)
  next
    case (Some n)
    show ?thesis
    proof (cases ?bad)
      case True
      thus ?thesis by (intro undone [of u]) (simp add: handleUpload_def u p Some Let_def)
    next
      case False
      have "fst (handleUpload B E who body st) = st\<lparr>files := files st @ [?row n], blobs := b\<rparr>"
        unfolding handleUpload_def u option.case p prod.case Some Let_def if_not_P [OF False] by (simp split: sum.split)
      thus ?thesis using False by (intro stored [of "?row n" u]) (simp_all add: p)
    qed
  qed
qed

lemma filter_drop_row:
  assumes "ids_unique st" "m \<in> set (files st)" "f_owner m \<noteq> own"
  shows "filter (\<lambda>x. f_owner x = own) (filter (\<lambda>x. f_id x \<noteq> f_id m) (files st)) = filter (\<lambda>x. f_owner x = own) (files st)"
proof -
  have "x \<in> set (files st) \<Longrightarrow> f_owner x = own \<Longrightarrow> f_id x \<noteq> f_id m" for x
    using unique_owner [OF assms(1) _ assms(2), of x] assms(3) by blast
  thus ?thesis unfolding filter_filter by (intro filter_cong) auto
qed

locale blob_store =
  fixes B :: "'fs backend"
  assumes put_some: "Put B f k r s = (s', Some n) \<Longrightarrow> n = length r \<and> Open B calm_fs k s' = Some r"
    and put_other: "k' \<noteq> k \<Longrightarrow> Open B g k' (fst (Put B f k r s)) = Open B g k' s"
    and put_fresh: "Open B calm_fs k s = None \<Longrightarrow> \<exists>s'. Put B calm_fs k r s = (s', Some (length r))"
    and del_true: "snd (Delete B f k s) \<Longrightarrow> Open B calm_fs k (fst (Delete B f k s)) = None"
    and del_false: "\<not> snd (Delete B f k s) \<Longrightarrow> fst (Delete B f k s) = s"
    and del_other: "k' \<noteq> k \<Longrightarrow> Open B g k' (fst (Delete B f k s)) = Open B g k' s"
    and del_calm: "snd (Delete B calm_fs k s)"
    and open_fails: "Open B f k s = (if f FsOpen then None else Open B calm_fs k s)"
begin

lemma upload_view:
  assumes "ids_unique st" "f_uuid E \<notin> f_id ` set (files st)" "who \<noteq> own"
  shows "view B own (fst (handleUpload B E who body st)) = view B own st"
proof -
  have "m \<in> set (files st) \<Longrightarrow> f_id m \<noteq> f_uuid E" for m using assms(2) by (metis image_eqI)
  hence o: "m \<in> set (files st) \<Longrightarrow> Open B g (f_id m) (fst (Put B f (f_uuid E) r s)) = Open B g (f_id m) s"
      "m \<in> set (files st) \<Longrightarrow> Open B g (f_id m) (fst (Delete B f (f_uuid E) s)) = Open B g (f_id m) s" for m g f r s
    using put_other del_other by auto
  show ?thesis
    using assms(3) o by (cases B E who body st rule: upload_shape) (auto intro!: view_cong)
qed

lemma upload_unique:
  "ids_unique st \<Longrightarrow> ids_unique (fst (handleUpload B E who body st))"
  by (cases B E who body st rule: upload_shape) auto

lemma delete_view:
  assumes "ids_unique st" "who \<noteq> own"
  shows "view B own (fst (handleFileDelete B E who i st)) = view B own st"
proof (cases "get_meta E who i st")
  case (Inl e)
  thus ?thesis by (simp add: handleFileDelete_def)
next
  case (Inr m)
  have m: "m \<in> set (files st)" "f_owner m \<noteq> own" using get_meta_Inr [OF Inr] assms(2) by auto
  have "x \<in> set (files st) \<Longrightarrow> f_owner x = own \<Longrightarrow> f_id x \<noteq> f_id m" for x
    using unique_owner [OF assms(1) _ m(1), of x] m(2) by blast
  hence o: "x \<in> set (files st) \<Longrightarrow> f_owner x = own \<Longrightarrow>
      Open B g (f_id x) (fst (Delete B (f_fs E) (f_id m) (blobs st))) = Open B g (f_id x) (blobs st)" for x g
    using del_other by blast
  obtain b ok where d: "Delete B (f_fs E) (f_id m) (blobs st) = (b, ok)" by fastforce
  show ?thesis
    unfolding handleFileDelete_def Inr sum.case d prod.case
    using o filter_drop_row [OF assms(1) m]
    by (cases ok) (auto simp: d drop_row_def intro!: view_cong)
qed

lemma delete_unique: "ids_unique st \<Longrightarrow> ids_unique (fst (handleFileDelete B E who i st))"
  by (auto simp: handleFileDelete_def drop_row_def distinct_map_filter split: sum.splits prod.splits bool.splits)

lemma run_view:
  "ids_unique st \<Longrightarrow> fresh_run B cs st \<Longrightarrow> own \<notin> caller ` set cs \<Longrightarrow> view B own (file_run B cs st) = view B own st"
proof (induction cs arbitrary: st)
  case Nil
  show ?case by (simp add: file_run_def)
next
  case (Cons c cs)
  have "ids_unique (file_exec B c st)"
    using Cons.prems(1) by (cases c) (simp_all add: upload_unique delete_unique)
  moreover have "view B own (file_exec B c st) = view B own st"
    using Cons.prems by (cases c) (auto intro!: upload_view delete_view)
  ultimately show ?case
    using Cons.IH [of "file_exec B c st"] Cons.prems by (simp add: file_run_def)
qed

lemma reads_from_view:
  assumes "view B own st1 = view B own st2"
  shows "handleFileGet E own i st1 = handleFileGet E own i st2"
    and "handleDownload B E own i st1 = handleDownload B E own i st2"
    and "handleFileList E own l k st1 = handleFileList E own l k st2"
proof -
  have g: "get_meta E own i st1 = get_meta E own i st2"
    unfolding get_meta_view [where B = B] assms ..
  have "map fst (view B own st1) = map fst (view B own st2)" using assms by simp
  hence f: "filter (\<lambda>m. f_owner m = own) (files st1) = filter (\<lambda>m. f_owner m = own) (files st2)"
    by (simp add: view_def comp_def)
  have "Open B (f_fs E) (f_id m) (blobs st1) = Open B (f_fs E) (f_id m) (blobs st2)"
    if "get_meta E own i st1 = Inr m" for m
  proof -
    have m: "m \<in> set (filter (\<lambda>m. f_owner m = own) (files st1))" using get_meta_Inr [OF that] by simp
    have "map (\<lambda>m. Open B calm_fs (f_id m) (blobs st1)) (filter (\<lambda>m. f_owner m = own) (files st1)) =
          map (\<lambda>m. Open B calm_fs (f_id m) (blobs st2)) (filter (\<lambda>m. f_owner m = own) (files st1))"
      using arg_cong [OF assms, of "map snd"] by (simp add: view_def comp_def f)
    hence "Open B calm_fs (f_id m) (blobs st1) = Open B calm_fs (f_id m) (blobs st2)" using m by (auto simp: map_eq_conv)
    thus ?thesis by (metis open_fails)
  qed
  thus "handleDownload B E own i st1 = handleDownload B E own i st2"
    using g by (auto simp: handleDownload_def split: sum.splits)
  show "handleFileGet E own i st1 = handleFileGet E own i st2" by (simp add: handleFileGet_def g)
  show "handleFileList E own l k st1 = handleFileList E own l k st2" unfolding handleFileList_def f ..
qed

end

section \<open>Uploads and erasure\<close>

lemma owned_ids_set: "set (owned_ids own st) = f_id ` set (filter (\<lambda>m. f_owner m = own) (files st))"
  by (simp add: owned_ids_def)

lemma not_owned_filter:
  assumes "ids_unique st"
  shows "filter (\<lambda>m. f_id m \<notin> set (owned_ids own st)) (files st) = filter (\<lambda>m. f_owner m \<noteq> own) (files st)"
  using unique_owner [OF assms] by (intro filter_cong) (auto simp: owned_ids_set)

text \<open>A state without rows or bytes of the subject, the other rows as before.\<close>

definition erased :: "'fs backend \<Rightarrow> string \<Rightarrow> 'fs storage \<Rightarrow> 'fs storage \<Rightarrow> bool" where
  "erased B own st st' = (files st' = filter (\<lambda>m. f_owner m \<noteq> own) (files st)
     \<and> (\<forall>m \<in> set (files st). f_owner m = own \<longrightarrow> Open B calm_fs (f_id m) (blobs st') = None))"

context blob_store
begin

lemma upload_created:
  assumes "handleUpload B E own body st = (st', FCreated j)"
  obtains u b where "f_parse E (take (f_max E) body) = Some (Some u)" "f_uuid E \<notin> f_id ` set (files st)"
    "Open B calm_fs (f_uuid E) b = Some (up_bytes u)" "\<And>k g. k \<noteq> f_uuid E \<Longrightarrow> Open B g k b = Open B g k (blobs st)"
    "st' = st\<lparr>files := files st @ [\<lparr>f_id = f_uuid E, f_owner = own, f_name = up_name u,
       f_type = (if up_type u = [] then ''application/octet-stream'' else up_type u), f_size = length (up_bytes u), f_created = f_now E\<rparr>], blobs := b\<rparr>"
proof -
  obtain u where u: "f_parse E (take (f_max E) body) = Some (Some u)"
    using assms by (auto simp: handleUpload_def split: option.splits)
  obtain b n where p: "Put B (f_fs E) (f_uuid E) (up_bytes u) (blobs st) = (b, Some n)"
    using assms by (auto simp: handleUpload_def u Let_def split: option.splits prod.splits)
  have n: "n = length (up_bytes u)" "Open B calm_fs (f_uuid E) b = Some (up_bytes u)" using put_some [OF p] by auto
  have o: "k \<noteq> f_uuid E \<Longrightarrow> Open B g k b = Open B g k (blobs st)" for k g
    using put_other [of k "f_uuid E" g "f_fs E" "up_bytes u" "blobs st"] p by simp
  have bad: "\<not> (f_fails E FInsert \<or> \<not> f_user E own \<or> f_uuid E \<in> f_id ` set (files st))"
    using assms unfolding handleUpload_def u option.case p prod.case Let_def by (auto split: if_splits)
  have "st' = st\<lparr>files := files st @ [\<lparr>f_id = f_uuid E, f_owner = own, f_name = up_name u,
       f_type = (if up_type u = [] then ''application/octet-stream'' else up_type u), f_size = length (up_bytes u), f_created = f_now E\<rparr>], blobs := b\<rparr>"
    using assms unfolding handleUpload_def u option.case p prod.case Let_def if_not_P [OF bad] n(1)
    by (simp split: sum.splits) auto
  thus thesis using that [OF u _ n(2) o] bad by blast
qed

lemma delete_keeps_none: "Open B calm_fs k s = None \<Longrightarrow> Open B calm_fs k (fst (Delete B f k' s)) = None"
  by (cases "k' = k"; cases "snd (Delete B f k' s)") (simp_all add: del_true del_false del_other)

lemma delete_files_effect:
  "\<exists>dn rest. ids = dn @ rest \<and> (snd (delete_files B E fsf ids st) \<longrightarrow> rest = [])
     \<and> files (fst (delete_files B E fsf ids st)) = filter (\<lambda>m. f_id m \<notin> set dn) (files st)
     \<and> (\<forall>k. k \<in> set dn \<or> Open B calm_fs k (blobs st) = None \<longrightarrow> Open B calm_fs k (blobs (fst (delete_files B E fsf ids st))) = None)
     \<and> (\<forall>k. k \<notin> set ids \<longrightarrow> Open B calm_fs k (blobs (fst (delete_files B E fsf ids st))) = Open B calm_fs k (blobs st))"
proof (induction ids arbitrary: st)
  case Nil
  show ?case by simp
next
  case (Cons i ids)
  obtain b ok where d: "Delete B (fsf i) i (blobs st) = (b, ok)" by fastforce
  have b: "ok \<Longrightarrow> Open B calm_fs i b = None" "\<And>k. k \<noteq> i \<Longrightarrow> Open B calm_fs k b = Open B calm_fs k (blobs st)"
      "\<And>k. Open B calm_fs k (blobs st) = None \<Longrightarrow> Open B calm_fs k b = None"
    using del_true [of "fsf i" i "blobs st"] del_other [of _ i calm_fs "fsf i" "blobs st"] delete_keeps_none [of _ "blobs st" "fsf i" i] d by auto
  show ?case
  proof (cases "ok \<and> \<not> f_fails E (FDelete i)")
    case False
    thus ?thesis using d b by (intro exI [of _ "[]"] exI [of _ "i # ids"]) (auto split: bool.split)
  next
    case True
    let ?st = "drop_row i (st\<lparr>blobs := b\<rparr>)"
    have e: "delete_files B E fsf (i # ids) st = delete_files B E fsf ids ?st" using True d by simp
    obtain dn rest where r: "ids = dn @ rest" "snd (delete_files B E fsf ids ?st) \<longrightarrow> rest = []"
       "files (fst (delete_files B E fsf ids ?st)) = filter (\<lambda>m. f_id m \<notin> set dn) (files ?st)"
       "\<forall>k. k \<in> set dn \<or> Open B calm_fs k (blobs ?st) = None \<longrightarrow> Open B calm_fs k (blobs (fst (delete_files B E fsf ids ?st))) = None"
       "\<forall>k. k \<notin> set ids \<longrightarrow> Open B calm_fs k (blobs (fst (delete_files B E fsf ids ?st))) = Open B calm_fs k (blobs ?st)"
      using Cons.IH [of ?st] by blast
    show ?thesis
      unfolding e using r b True
      by (intro exI [of _ "i # dn"] exI [of _ rest]) (auto simp: drop_row_def conj_commute)
  qed
qed

lemma delete_files_calm: "(\<And>i. \<not> f_fails E (FDelete i)) \<Longrightarrow> snd (delete_files B E (\<lambda>_. calm_fs) ids st)"
proof (induction ids arbitrary: st)
  case (Cons j ids)
  obtain b where "Delete B calm_fs j (blobs st) = (b, True)" using del_calm [of j "blobs st"] by (metis prod.collapse)
  thus ?case using Cons by simp
qed simp

lemma erasure_step:
  assumes u: "ids_unique st" and e: "DeleteOwnedFiles B E fsf own st = (st', ok)"
  shows "ids_unique st' \<and> (\<forall>other. other \<noteq> own \<longrightarrow> view B other st' = view B other st)
     \<and> filter (\<lambda>m. f_owner m \<noteq> own) (files st') = filter (\<lambda>m. f_owner m \<noteq> own) (files st)
     \<and> (\<forall>m \<in> set (files st). f_owner m = own \<longrightarrow> m \<notin> set (files st') \<or> ok \<longrightarrow> Open B calm_fs (f_id m) (blobs st') = None)
     \<and> (\<forall>k. Open B calm_fs k (blobs st) = None \<longrightarrow> Open B calm_fs k (blobs st') = None)
     \<and> (ok \<longrightarrow> files st' = filter (\<lambda>m. f_owner m \<noteq> own) (files st))"
proof (cases "f_fails E FList")
  case True
  hence "st' = st \<and> \<not> ok" using e by (simp add: DeleteOwnedFiles_def)
  thus ?thesis using u by auto
next
  case False
  hence e': "delete_files B E fsf (owned_ids own st) st = (st', ok)" using e by (simp add: DeleteOwnedFiles_def)
  obtain dn rest where r: "owned_ids own st = dn @ rest" "ok \<longrightarrow> rest = []"
       "files st' = filter (\<lambda>m. f_id m \<notin> set dn) (files st)"
       "\<forall>k. k \<in> set dn \<or> Open B calm_fs k (blobs st) = None \<longrightarrow> Open B calm_fs k (blobs st') = None"
       "\<forall>k. k \<notin> set (owned_ids own st) \<longrightarrow> Open B calm_fs k (blobs st') = Open B calm_fs k (blobs st)"
    using delete_files_effect [of "owned_ids own st" E fsf st, unfolded e' fst_conv snd_conv] by blast
  have notown: "m \<in> set (files st) \<Longrightarrow> f_owner m \<noteq> own \<Longrightarrow> f_id m \<notin> set (owned_ids own st)" for m
    using unique_owner [OF u, of m] by (auto simp: owned_ids_set)
  have dn: "m \<in> set (files st) \<Longrightarrow> f_id m \<in> set dn \<Longrightarrow> f_owner m = own" for m
    using notown r(1) by auto
  have f: "filter (\<lambda>m. f_owner m \<noteq> own) (files st') = filter (\<lambda>m. f_owner m \<noteq> own) (files st)"
    unfolding r(3) filter_filter using dn by (intro filter_cong) auto
  have v: "view B other st' = view B other st" if "other \<noteq> own" for other
  proof (rule view_cong)
    show "filter (\<lambda>m. f_owner m = other) (files st') = filter (\<lambda>m. f_owner m = other) (files st)"
      unfolding r(3) filter_filter using dn that by (intro filter_cong) auto
    show "\<And>m. m \<in> set (files st') \<Longrightarrow> f_owner m = other \<Longrightarrow> Open B calm_fs (f_id m) (blobs st') = Open B calm_fs (f_id m) (blobs st)"
      using r(3,5) notown that by auto
  qed
  have ok: "ok \<Longrightarrow> files st' = filter (\<lambda>m. f_owner m \<noteq> own) (files st)"
    using r not_owned_filter [OF u, of own] by simp
  have "m \<in> set (files st) \<Longrightarrow> f_owner m = own \<Longrightarrow> m \<notin> set (files st') \<or> ok \<Longrightarrow> f_id m \<in> set dn" for m
    using r(1-3) owned_ids_set [of own st] by auto
  thus ?thesis using f v ok r(3,4) u by (auto simp: distinct_map_filter)
qed

lemma erasure_resumes:
  assumes u: "ids_unique st" and e: "DeleteOwnedFiles B E fsf own st = (st', ok)"
    and calm: "\<And>q. \<not> f_fails E2 q" and e2: "DeleteOwnedFiles B E2 (\<lambda>_. calm_fs) own st' = (st2, ok2)"
  shows "(\<forall>other. other \<noteq> own \<longrightarrow> view B other st' = view B other st) \<and> (ok \<longrightarrow> erased B own st st') \<and> ok2 \<and> erased B own st st2"
proof -
  note s1 = erasure_step [OF u e]
  hence u': "ids_unique st'" by blast
  note s2 = erasure_step [OF u' e2]
  have ok2: "ok2"
    using e2 delete_files_calm [of E2 "owned_ids own st'" st'] calm by (auto simp: DeleteOwnedFiles_def)
  have "Open B calm_fs (f_id m) (blobs st2) = None" if m: "m \<in> set (files st)" "f_owner m = own" for m
  proof (cases "m \<in> set (files st')")
    case True
    thus ?thesis using s2 ok2 m by blast
  next
    case False
    thus ?thesis using s1 s2 m by blast
  qed
  moreover have "files st2 = filter (\<lambda>m. f_owner m \<noteq> own) (files st)" using s1 s2 ok2 by simp
  ultimately have "erased B own st st2" by (simp add: erased_def)
  moreover have "ok \<longrightarrow> erased B own st st'" using s1 by (simp add: erased_def)
  ultimately show ?thesis using s1 ok2 by blast
qed

lemma run_unique: "ids_unique st \<Longrightarrow> ids_unique (file_run B cs st)"
proof (induction cs arbitrary: st)
  case (Cons c cs)
  have "ids_unique (file_exec B c st)" using Cons.prems by (cases c) (simp_all add: upload_unique delete_unique)
  thus ?case using Cons.IH by (simp add: file_run_def)
qed (simp add: file_run_def)

lemma upload_then_read:
  assumes u: "ids_unique st" and up: "handleUpload B E own body st = (st1, FCreated j)"
    and fresh: "fresh_run B cs st1" and others: "own \<notin> caller ` set cs" and calm: "\<not> f_fails E' FSelect" "\<not> f_fs E' FsOpen"
  shows "\<exists>u. f_parse E (take (f_max E) body) = Some (Some u)
     \<and> handleDownload B E' own (f_uuid E) (file_run B cs st1) =
         FContent (if up_type u = [] then ''application/octet-stream'' else up_type u) (length (up_bytes u)) (up_name u) (up_bytes u)
     \<and> (\<forall>other. other \<noteq> own \<longrightarrow> handleDownload B E' other (f_uuid E) (file_run B cs st1) = FError 404 ''not found''
            \<and> handleFileGet E' other (f_uuid E) (file_run B cs st1) = FError 404 ''not found'')"
proof -
  let ?st2 = "file_run B cs st1"
  obtain up b where p: "f_parse E (take (f_max E) body) = Some (Some up)" "f_uuid E \<notin> f_id ` set (files st)"
      "Open B calm_fs (f_uuid E) b = Some (up_bytes up)"
      "st1 = st\<lparr>files := files st @ [\<lparr>f_id = f_uuid E, f_owner = own, f_name = up_name up,
       f_type = (if up_type up = [] then ''application/octet-stream'' else up_type up), f_size = length (up_bytes up), f_created = f_now E\<rparr>], blobs := b\<rparr>"
    by (rule upload_created [OF up])
  define row where "row = \<lparr>f_id = f_uuid E, f_owner = own, f_name = up_name up,
       f_type = (if up_type up = [] then ''application/octet-stream'' else up_type up), f_size = length (up_bytes up), f_created = f_now E\<rparr>"
  have u1: "ids_unique st1" using upload_unique [OF u, of E own body] up by simp
  have "f_uuid E \<notin> f_id ` set xs \<Longrightarrow> find (\<lambda>m. f_id m = f_uuid E \<and> f_owner m = own) (xs @ [row]) = Some row" for xs
    by (induction xs) (auto simp: row_def)
  from this [OF p(2)] have g: "get_meta E' own (f_uuid E) st1 = Inr row"
    using calm(1) unfolding get_meta_def p(4) row_def [symmetric] by simp
  have r: "f_id row = f_uuid E" "f_owner row = own" "blobs st1 = b" by (simp_all add: row_def p(4))
  have d1: "handleDownload B E' own (f_uuid E) st1 = FContent (f_type row) (f_size row) (f_name row) (up_bytes up)"
    using calm(2) p(3) open_fails [of "f_fs E'" "f_uuid E" b] by (simp add: handleDownload_def g r)
  have d2: "handleDownload B E' own (f_uuid E) ?st2 = handleDownload B E' own (f_uuid E) st1"
    by (rule reads_from_view(2) [OF run_view [OF u1 fresh others]])
  have nf: "get_meta E' other (f_uuid E) ?st2 = Inl FNotFound" if "other \<noteq> own" for other
  proof -
    have "map fst (view B own ?st2) = filter (\<lambda>m. f_owner m = own) (files st1)"
      unfolding run_view [OF u1 fresh others] by (simp add: view_def comp_def)
    moreover have "map fst (view B own ?st2) = filter (\<lambda>m. f_owner m = own) (files ?st2)" by (simp add: view_def comp_def)
    ultimately have "filter (\<lambda>m. f_owner m = own) (files ?st2) = filter (\<lambda>m. f_owner m = own) (files st1)" by simp
    hence "row \<in> set (files ?st2)"
      by (rule filter_eq_mem) (use get_meta_Inr [OF g] r(2) in simp_all)
    hence "\<not> (\<exists>m. get_meta E' other (f_uuid E) ?st2 = Inr m)"
      using unique_owner [OF run_unique [OF u1]] get_meta_Inr r(1,2) that by metis
    thus ?thesis using calm(1) by (auto simp: get_meta_def split: option.splits)
  qed
  have "other \<noteq> own \<Longrightarrow> handleDownload B E' other (f_uuid E) ?st2 = FError 404 ''not found''
      \<and> handleFileGet E' other (f_uuid E) ?st2 = FError 404 ''not found''" for other
    by (simp add: handleDownload_def handleFileGet_def get_reply_def nf)
  moreover have "handleDownload B E' own (f_uuid E) ?st2 =
      FContent (if up_type up = [] then ''application/octet-stream'' else up_type up) (length (up_bytes up)) (up_name up) (up_bytes up)"
    unfolding d2 d1 by (simp add: row_def)
  ultimately show ?thesis using p(1) by blast
qed

end

interpretation dirstore: blob_store "LocalBackend written" for written
  by unfold_locales
     (auto simp: LocalBackend_def LocalPut_def LocalOpen_def LocalDelete_def split: if_splits)


text \<open>
  C25. Files are private and intact. After an upload that answered 201, and after any further uploads
  and deletions by other subjects, the uploader downloads exactly the uploaded bytes under the
  uploaded name and type, with their length; every other subject is answered as if there were no
  such file. Reading depends on nothing but the reader's own files.
\<close>

theorem uploads_private_and_intact:
  assumes "ids_unique st" and "handleUpload (LocalBackend w) E own body st = (st1, FCreated j)"
    and "fresh_run (LocalBackend w) cs st1" and "own \<notin> caller ` set cs" and "\<not> f_fails E' FSelect" and "\<not> f_fs E' FsOpen"
    and "st2 = file_run (LocalBackend w) cs st1"
  shows "\<exists>u. f_parse E (take (f_max E) body) = Some (Some u)
     \<and> handleDownload (LocalBackend w) E' own (f_uuid E) st2 =
         FContent (if up_type u = [] then ''application/octet-stream'' else up_type u) (length (up_bytes u)) (up_name u) (up_bytes u)
     \<and> (\<forall>other. other \<noteq> own \<longrightarrow> handleDownload (LocalBackend w) E' other (f_uuid E) st2 = FError 404 ''not found''
            \<and> handleFileGet E' other (f_uuid E) st2 = FError 404 ''not found'')"
  using dirstore.upload_then_read [OF assms(1-6)] assms(7) by blast

text \<open>
  Erasing an account's files. Whatever fails on the way, the files of every other subject, rows
  and bytes, are untouched; a run that reports success leaves no row and no bytes of the subject,
  and after a run that failed part way a second one without failures does.
\<close>

theorem file_erasure_exact_and_resumable:
  assumes "ids_unique st" and "DeleteOwnedFiles (LocalBackend w) E fsf own st = (st', ok)"
    and "\<And>q. \<not> f_fails E2 q" and "DeleteOwnedFiles (LocalBackend w) E2 (\<lambda>_. calm_fs) own st' = (st2, ok2)"
  shows "(\<forall>other. other \<noteq> own \<longrightarrow> view (LocalBackend w) other st' = view (LocalBackend w) other st)
     \<and> (ok \<longrightarrow> erased (LocalBackend w) own st st') \<and> ok2 \<and> erased (LocalBackend w) own st st2"
  using dirstore.erasure_resumes [OF assms] by blast


definition file_env_example :: file_env where
  "file_env_example = \<lparr>f_fails = (\<lambda>_. False), f_fs = calm_fs,
     f_parse = (\<lambda>b. Some (Some \<lparr>up_name = ''a.txt'', up_type = [], up_bytes = b\<rparr>)), f_uuid = ''id1'', f_now = 5, f_max = 100,
     f_scan = id, f_user = (\<lambda>_. True)\<rparr>"

definition no_files :: "dir storage" where
  "no_files = \<lparr>files = [], blobs = (\<lambda>_. None)\<rparr>"

lemma example_upload:
  "snd (handleUpload (LocalBackend 0) file_env_example ''u'' ''hello'' no_files) = FCreated (FileJson ''id1'' ''a.txt'' ''application/octet-stream'' 5 5)"
  by code_simp

lemma uploads_private_and_intact_witness:
  "handleDownload (LocalBackend 0) file_env_example ''u'' ''id1''
     (file_run (LocalBackend 0) [Remove file_env_example ''v'' ''id1''] (fst (handleUpload (LocalBackend 0) file_env_example ''u'' ''hello'' no_files)))
   = FContent ''application/octet-stream'' 5 ''a.txt'' ''hello''"
proof -
  let ?st1 = "fst (handleUpload (LocalBackend 0) file_env_example ''u'' ''hello'' no_files)"
  have a: "ids_unique no_files" by (simp add: no_files_def)
  have b: "handleUpload (LocalBackend 0) file_env_example ''u'' ''hello'' no_files = (?st1, FCreated (FileJson ''id1'' ''a.txt'' ''application/octet-stream'' 5 5))"
    using example_upload by (metis prod.collapse)
  have c: "fresh_run (LocalBackend 0) [Remove file_env_example ''v'' ''id1''] ?st1" by simp
  have d: "''u'' \<notin> caller ` set [Remove file_env_example ''v'' ''id1'']" by simp
  have e: "\<not> f_fails file_env_example FSelect" "\<not> f_fs file_env_example FsOpen" by (simp_all add: file_env_example_def)
  show ?thesis
    using uploads_private_and_intact [OF a b c d e refl] by (auto simp: file_env_example_def)
qed

lemma file_erasure_exact_and_resumable_witness:
  "erased (LocalBackend 0) ''u'' (fst (handleUpload (LocalBackend 0) file_env_example ''u'' ''hello'' no_files))
     (fst (DeleteOwnedFiles (LocalBackend 0) file_env_example (\<lambda>_. calm_fs) ''u''
        (fst (DeleteOwnedFiles (LocalBackend 0) file_env_example (\<lambda>_ op. op = FsRemove) ''u''
          (fst (handleUpload (LocalBackend 0) file_env_example ''u'' ''hello'' no_files))))))"
proof -
  let ?st = "fst (handleUpload (LocalBackend 0) file_env_example ''u'' ''hello'' no_files)"
  have a: "ids_unique ?st" by code_simp
  have c: "\<And>q. \<not> f_fails file_env_example q" by (simp add: file_env_example_def)
  show ?thesis
    using file_erasure_exact_and_resumable [OF a prod.collapse [symmetric] c prod.collapse [symmetric]] by blast
qed

end
