(* ===== verification/Migrations.thy ===== *)
theory Migrations
  imports Maubase_Prelude "HOL-Library.Multiset"
begin

text \<open>
  Schema migrations: \<^verbatim>\<open>internal/db/migrate.go\<close>. The application's part of the database is a value of
  type \<open>'db\<close> on which the parameter \<open>m_exec\<close> runs a migration's SQL, inside a transaction with the
  bookkeeping row; the table of applied migrations is explicit. A statement or a read fails when
  the environment says so. The migration files are taken not to touch the bookkeeping table.
\<close>

section \<open>Files and bookkeeping\<close>

record mig_row =
  mr_version :: string
  mr_applied :: time
  mr_checksum :: "string option"

text \<open>The bookkeeping table may be missing, or be an older one without the checksum column.\<close>

datatype mig_table = NoTable | OldTable "mig_row list" | Table "mig_row list"

record 'db mdb =
  app :: 'db
  table :: mig_table

fun rows_of :: "mig_table \<Rightarrow> mig_row list" where
  "rows_of NoTable = []"
| "rows_of (OldTable rs) = rs"
| "rows_of (Table rs) = rs"

abbreviation rows :: "'db mdb \<Rightarrow> mig_row list" where
  "rows st \<equiv> rows_of (table st)"

text \<open>A directory: its entries, a subdirectory without content.\<close>

record mig_dir =
  md_missing :: bool
  md_stat_error :: bool
  md_read_error :: bool
  md_entries :: "(string \<times> string option) list"
  md_unreadable :: "string \<Rightarrow> bool"

datatype mig_error =
    MStat | MEnsure | MReadDir | MCheck string | MRead string | MBegin string | MExec string | MRecord string
  | MCommit string | MNoDown string | MBadCount | MNoDir | MList | MNoMatch string | MAmbiguous string | MSchema

datatype mig_stmt = MCreateTable | MTableInfo | MAddColumn | MCount string | MTx string | MIns string | MDel string
  | MTxCommit string | MDownTx string | MDownCommit string | MListApplied | MSelect string | MTables

record 'db mig_env =
  m_fails :: "mig_stmt \<Rightarrow> bool"
  m_exec :: "string \<Rightarrow> 'db \<Rightarrow> 'db option"
  m_sum :: "string \<Rightarrow> string"
  m_time :: "string \<Rightarrow> time"

definition file_names :: "mig_dir \<Rightarrow> string list" where
  "file_names d = sort (map fst (filter (\<lambda>(n, c). c \<noteq> None) (md_entries d)))"

definition read_file :: "mig_dir \<Rightarrow> string \<Rightarrow> string option" where
  "read_file d n = (if md_unreadable d n then None else Option.bind (map_of (md_entries d) n) id)"


section \<open>The two halves of a file\<close>

abbreviation migrateUpMarker :: string where "migrateUpMarker \<equiv> ''-- +migrate Up''"
abbreviation migrateDownMarker :: string where "migrateDownMarker \<equiv> ''-- +migrate Down''"
abbreviation newline :: char where "newline \<equiv> CHR 0x0A"

text \<open>The scan for marker lines: the last one of each kind counts.\<close>

fun scan_markers :: "string list \<Rightarrow> nat \<Rightarrow> nat option \<times> nat option \<Rightarrow> nat option \<times> nat option" where
  "scan_markers [] i (upStart, downLine) = (upStart, downLine)"
| "scan_markers (l # ls) i (upStart, downLine) =
     (if TrimSpace l = migrateUpMarker then scan_markers ls (i + 1) (Some (i + 1), downLine)
      else if TrimSpace l = migrateDownMarker then scan_markers ls (i + 1) (upStart, Some i)
      else scan_markers ls (i + 1) (upStart, downLine))"

definition splitMigrationSQL :: "string \<Rightarrow> string \<times> string \<times> bool" where
  "splitMigrationSQL content =
     (let lines = Split content newline;
          (upStart, downLine) = scan_markers lines 0 (None, None)
      in case upStart of
           None \<Rightarrow> (content, [], False)
         | Some u \<Rightarrow>
             (case downLine of
                None \<Rightarrow> (Join (drop u lines) [newline], [], False)
              | Some d \<Rightarrow>
                  if d < u then (Join (drop u lines) [newline], [], False)
                  else (Join (drop u (take d lines)) [newline], Join (drop (d + 1) lines) [newline], True)))"

abbreviation up_sql :: "string \<Rightarrow> string" where "up_sql c \<equiv> fst (splitMigrationSQL c)"
abbreviation down_sql :: "string \<Rightarrow> string" where "down_sql c \<equiv> fst (snd (splitMigrationSQL c))"
abbreviation has_down :: "string \<Rightarrow> bool" where "has_down c \<equiv> snd (snd (splitMigrationSQL c))"


section \<open>Applying\<close>

text \<open>A table from before the checksums gets the column, empty in every row it has.\<close>

definition ensureChecksumColumn :: "'db mig_env \<Rightarrow> 'db mdb \<Rightarrow> 'db mdb \<times> mig_error option" where
  "ensureChecksumColumn E st =
     (if m_fails E MTableInfo then (st, Some MEnsure)
      else (case table st of
              OldTable rs \<Rightarrow> if m_fails E MAddColumn then (st, Some MEnsure) else (st\<lparr>table := Table rs\<rparr>, None)
            | _ \<Rightarrow> (st, None)))"

definition ensureMigrationsTable :: "'db mig_env \<Rightarrow> 'db mdb \<Rightarrow> 'db mdb \<times> mig_error option" where
  "ensureMigrationsTable E st =
     (if m_fails E MCreateTable then (st, Some MEnsure)
      else ensureChecksumColumn E (case table st of NoTable \<Rightarrow> st\<lparr>table := Table []\<rparr> | _ \<Rightarrow> st))"

definition recorded :: "string \<Rightarrow> 'db mdb \<Rightarrow> bool" where
  "recorded v st = list_ex (\<lambda>r. mr_version r = v) (rows st)"

text \<open>The transaction that runs a file's first half and records it; it has no effect unless it commits.\<close>

definition apply_tx :: "'db mig_env \<Rightarrow> string \<Rightarrow> string \<Rightarrow> string \<Rightarrow> 'db mdb \<Rightarrow> 'db mdb \<times> mig_error option" where
  "apply_tx E name version content st =
     (if m_fails E (MTx name) then (st, Some (MBegin name))
      else (case m_exec E (up_sql content) (app st) of
              None \<Rightarrow> (st, Some (MExec name))
            | Some db' \<Rightarrow>
                if m_fails E (MIns name) \<or> recorded version st then (st, Some (MRecord name))
                else if m_fails E (MTxCommit name) then (st, Some (MCommit name))
                else (st\<lparr>app := db', table := Table (rows st @ [\<lparr>mr_version = version, mr_applied = m_time E name,
                              mr_checksum = Some (m_sum E content)\<rparr>])\<rparr>, None)))"

fun apply_loop :: "'db mig_env \<Rightarrow> mig_dir \<Rightarrow> string \<Rightarrow> string list \<Rightarrow> 'db mdb \<Rightarrow> 'db mdb \<times> string list \<times> mig_error option" where
  "apply_loop E d pre [] st = (st, [], None)"
| "apply_loop E d pre (n # ns) st =
     (if m_fails E (MCount n) then (st, [], Some (MCheck n))
      else if recorded (pre @ n) st then apply_loop E d pre ns st
      else (case read_file d n of
              None \<Rightarrow> (st, [], Some (MRead n))
            | Some c \<Rightarrow>
                (case apply_tx E n (pre @ n) c st of
                   (st1, Some e) \<Rightarrow> (st1, [], Some e)
                 | (st1, None) \<Rightarrow> (let (st2, ap, e) = apply_loop E d pre ns st1 in (st2, n # ap, e)))))"

definition applyMigrations :: "'db mig_env \<Rightarrow> mig_dir \<Rightarrow> string \<Rightarrow> 'db mdb \<Rightarrow> 'db mdb \<times> string list \<times> mig_error option" where
  "applyMigrations E d versionPrefix st =
     (if md_read_error d then (st, [], Some MReadDir) else apply_loop E d versionPrefix (file_names d) st)"

definition Migrate :: "'db mig_env \<Rightarrow> mig_dir \<Rightarrow> 'db mdb \<Rightarrow> 'db mdb \<times> mig_error option" where
  "Migrate E embedded st =
     (case ensureMigrationsTable E st of
        (st1, Some e) \<Rightarrow> (st1, Some e)
      | (st1, None) \<Rightarrow> (let (st2, _, e) = applyMigrations E embedded [] st1 in (st2, e)))"

definition MigrateDirApplied :: "'db mig_env \<Rightarrow> mig_dir \<Rightarrow> 'db mdb \<Rightarrow> 'db mdb \<times> string list \<times> mig_error option" where
  "MigrateDirApplied E d st =
     (if md_missing d then (st, [], None)
      else if md_stat_error d then (st, [], Some MStat)
      else (case ensureMigrationsTable E st of
              (st1, Some e) \<Rightarrow> (st1, [], Some e)
            | (st1, None) \<Rightarrow> applyMigrations E d ''app:'' st1))"

definition MigrateDir :: "'db mig_env \<Rightarrow> mig_dir \<Rightarrow> 'db mdb \<Rightarrow> 'db mdb \<times> mig_error option" where
  "MigrateDir E d st = (let (st', _, e) = MigrateDirApplied E d st in (st', e))"

definition applyOneMigration :: "'db mig_env \<Rightarrow> mig_dir \<Rightarrow> string \<Rightarrow> 'db mdb \<Rightarrow> 'db mdb \<times> mig_error option" where
  "applyOneMigration E d name st =
     (case read_file d name of None \<Rightarrow> (st, Some (MRead name)) | Some c \<Rightarrow> apply_tx E name (''app:'' @ name) c st)"


section \<open>Status\<close>

record MigrationStatus =
  s_name :: string
  s_applied :: bool
  s_applied_at :: time
  s_has_down :: bool
  s_mismatch :: bool

fun status_loop :: "'db mig_env \<Rightarrow> mig_dir \<Rightarrow> string list \<Rightarrow> 'db mdb \<Rightarrow> mig_error + MigrationStatus list" where
  "status_loop E d [] st = Inr []"
| "status_loop E d (n # ns) st =
     (case read_file d n of
        None \<Rightarrow> Inl (MRead n)
      | Some c \<Rightarrow>
          if m_fails E (MSelect n) then Inl (MCheck n)
          else (let s = (case find (\<lambda>r. mr_version r = ''app:'' @ n) (rows st) of
                           None \<Rightarrow> \<lparr>s_name = n, s_applied = False, s_applied_at = 0, s_has_down = has_down c, s_mismatch = False\<rparr>
                         | Some r \<Rightarrow> \<lparr>s_name = n, s_applied = True, s_applied_at = mr_applied r, s_has_down = has_down c,
                              s_mismatch = (case mr_checksum r of None \<Rightarrow> False | Some h \<Rightarrow> h \<noteq> [] \<and> h \<noteq> m_sum E c)\<rparr>)
                in map_sum id (Cons s) (status_loop E d ns st)))"

definition Status :: "'db mig_env \<Rightarrow> mig_dir \<Rightarrow> 'db mdb \<Rightarrow> 'db mdb \<times> (mig_error + MigrationStatus list)" where
  "Status E d st =
     (if md_missing d then (st, Inr [])
      else if md_stat_error d then (st, Inl MStat)
      else (case ensureMigrationsTable E st of
              (st1, Some e) \<Rightarrow> (st1, Inl e)
            | (st1, None) \<Rightarrow>
                if md_read_error d then (st1, Inl MReadDir) else (st1, status_loop E d (file_names d) st1)))"

definition VerifyChecksums :: "'db mig_env \<Rightarrow> mig_dir \<Rightarrow> 'db mdb \<Rightarrow> 'db mdb \<times> (mig_error + string list)" where
  "VerifyChecksums E d st =
     (case Status E d st of
        (st1, Inl e) \<Rightarrow> (st1, Inl e)
      | (st1, Inr ss) \<Rightarrow> (st1, Inr (map s_name (filter s_mismatch ss))))"


section \<open>Reverting\<close>

text \<open>The applied application migrations, most recent first.\<close>

definition latest :: "'db mdb \<Rightarrow> string list" where
  "latest st = map mr_version (rev (sort_key mr_applied (sort_key mr_version
     (filter (\<lambda>r. HasPrefix (mr_version r) ''app:'') (rows st)))))"

fun down_loop :: "'db mig_env \<Rightarrow> mig_dir \<Rightarrow> string list \<Rightarrow> 'db mdb \<Rightarrow> 'db mdb \<times> string list \<times> mig_error option" where
  "down_loop E d [] st = (st, [], None)"
| "down_loop E d (v # vs) st =
     (let name = TrimPrefix v ''app:''
      in case read_file d name of
           None \<Rightarrow> (st, [], Some (MRead name))
         | Some c \<Rightarrow>
             if \<not> has_down c \<or> TrimSpace (down_sql c) = [] then (st, [], Some (MNoDown name))
             else if m_fails E (MDownTx name) then (st, [], Some (MBegin name))
             else (case m_exec E (down_sql c) (app st) of
                     None \<Rightarrow> (st, [], Some (MExec name))
                   | Some db' \<Rightarrow>
                       if m_fails E (MDel name) then (st, [], Some (MRecord name))
                       else if m_fails E (MDownCommit name) then (st, [], Some (MCommit name))
                       else (let (st2, rv, e) = down_loop E d vs
                                    (st\<lparr>app := db', table := Table (filter (\<lambda>r. mr_version r \<noteq> v) (rows st))\<rparr>)
                             in (st2, name # rv, e))))"

definition MigrateDirDown :: "'db mig_env \<Rightarrow> mig_dir \<Rightarrow> int \<Rightarrow> 'db mdb \<Rightarrow> 'db mdb \<times> string list \<times> mig_error option" where
  "MigrateDirDown E d n st =
     (if n \<le> 0 then (st, [], Some MBadCount)
      else if md_missing d then (st, [], None)
      else if md_stat_error d then (st, [], Some MStat)
      else (case ensureMigrationsTable E st of
              (st1, Some e) \<Rightarrow> (st1, [], Some e)
            | (st1, None) \<Rightarrow>
                if m_fails E MListApplied then (st1, [], Some MList)
                else down_loop E d (take (nat n) (latest st1)) st1))"

fun redo_loop :: "'db mig_env \<Rightarrow> mig_dir \<Rightarrow> string list \<Rightarrow> 'db mdb \<Rightarrow> 'db mdb \<times> string list \<times> mig_error option" where
  "redo_loop E d [] st = (st, [], None)"
| "redo_loop E d (n # ns) st =
     (case applyOneMigration E d n st of
        (st1, Some e) \<Rightarrow> (st1, [], Some e)
      | (st1, None) \<Rightarrow> (let (st2, ap, e) = redo_loop E d ns st1 in (st2, n # ap, e)))"

definition MigrateDirRedo :: "'db mig_env \<Rightarrow> mig_dir \<Rightarrow> int \<Rightarrow> 'db mdb \<Rightarrow> 'db mdb \<times> string list \<times> mig_error option" where
  "MigrateDirRedo E d n st =
     (case MigrateDirDown E d n st of
        (st1, _, Some e) \<Rightarrow> (st1, [], Some e)
      | (st1, reverted, None) \<Rightarrow> redo_loop E d (rev reverted) st1)"

section \<open>Moving to a version\<close>

text \<open>The leading digits of a name that are followed by an underscore.\<close>

definition version_number :: "string \<Rightarrow> int option" where
  "version_number name =
     (let ds = takeWhile is_digit name; rest = dropWhile is_digit name
      in if ds \<noteq> [] \<and> rest \<noteq> [] \<and> hd rest = CHR ''_'' then Atoi ds else None)"

definition resolveVersion :: "mig_dir \<Rightarrow> string \<Rightarrow> mig_error + string" where
  "resolveVersion d target =
     (if md_read_error d then Inl MReadDir
      else if list_ex (\<lambda>(n, c). c \<noteq> None \<and> n = target) (md_entries d) then Inr target
      else (case Atoi target of
              None \<Rightarrow> Inl (MNoMatch target)
            | Some targetN \<Rightarrow>
                (case map fst (filter (\<lambda>(n, c). c \<noteq> None \<and> version_number n = Some targetN) (md_entries d)) of
                   [] \<Rightarrow> Inl (MNoMatch target)
                 | [n] \<Rightarrow> Inr n
                 | _ \<Rightarrow> Inl (MAmbiguous target))))"

datatype direction = Up | Down | NoChange

definition MigrateDirTo :: "'db mig_env \<Rightarrow> mig_dir \<Rightarrow> string \<Rightarrow> 'db mdb \<Rightarrow> 'db mdb \<times> (mig_error + direction) \<times> string list \<times> mig_error option" where
  "MigrateDirTo E d target st =
     (if md_missing d then (st, Inl MNoDir, [], Some MNoDir)
      else if md_stat_error d then (st, Inl MStat, [], Some MStat)
      else (case ensureMigrationsTable E st of
         (st1, Some e) \<Rightarrow> (st1, Inl e, [], Some e)
       | (st1, None) \<Rightarrow>
           (case resolveVersion d target of
              Inl e \<Rightarrow> (st1, Inl e, [], Some e)
            | Inr targetName \<Rightarrow>
                (case Status E d st1 of
                   (st2, Inl e) \<Rightarrow> (st2, Inl e, [], Some e)
                 | (st2, Inr statuses) \<Rightarrow>
                     (let before = takeWhile (\<lambda>s. s_name s \<noteq> targetName) statuses;
                          from_target = dropWhile (\<lambda>s. s_name s \<noteq> targetName) statuses
                      in case from_target of
                           [] \<Rightarrow> (st2, Inl (MNoMatch targetName), [], Some (MNoMatch targetName))
                         | t # later \<Rightarrow>
                             if s_applied t
                             then (let n = length (filter s_applied later)
                                   in if n = 0 then (st2, Inr NoChange, [], None)
                                      else (let (st3, rv, e) = MigrateDirDown E d (int n) st2 in (st3, Inr Down, rv, e)))
                             else (let (st3, ap, e) = redo_loop E d (map s_name (filter (\<lambda>s. \<not> s_applied s) (before @ [t]))) st2
                                   in (st3, Inr Up, ap, e)))))))"


section \<open>Drift\<close>

datatype diff_kind = Unexplained | Missing | Altered

record DiffResult =
  df_table :: string
  df_kind :: diff_kind
  df_live :: string
  df_expected :: string

text \<open>\<open>schema\<close> lists the tables of the application part with their definitions; the bookkeeping table is
  one more. \<open>embedded\<close> are the server's own migrations and \<open>empty_db\<close> a fresh database.\<close>

definition tableDefinitions :: "('db \<Rightarrow> (string \<times> string) list) \<Rightarrow> 'db mdb \<Rightarrow> (string \<times> string) list" where
  "tableDefinitions schema st =
     schema (app st) @ (case table st of NoTable \<Rightarrow> [] | OldTable _ \<Rightarrow> [(''schema_migrations'', ''old'')] | Table _ \<Rightarrow> [(''schema_migrations'', ''new'')])"

definition diff_tables :: "(string \<times> string) list \<Rightarrow> (string \<times> string) list \<Rightarrow> (string \<times> string) list \<Rightarrow> DiffResult list" where
  "diff_tables reserved live expected =
     sort_key df_table
       (concat (map (\<lambda>(name, liveSQL).
            if name \<in> fst ` set reserved then []
            else (case map_of expected name of
                    None \<Rightarrow> [\<lparr>df_table = name, df_kind = Unexplained, df_live = liveSQL, df_expected = []\<rparr>]
                  | Some expectedSQL \<Rightarrow>
                      if liveSQL \<noteq> expectedSQL
                      then [\<lparr>df_table = name, df_kind = Altered, df_live = liveSQL, df_expected = expectedSQL\<rparr>] else [])) live)
        @ concat (map (\<lambda>(name, expectedSQL).
            if name \<in> fst ` set reserved \<or> name \<in> fst ` set live then []
            else [\<lparr>df_table = name, df_kind = Missing, df_live = [], df_expected = expectedSQL\<rparr>]) expected))"

definition Diff :: "'db mig_env \<Rightarrow> 'db mig_env \<Rightarrow> ('db \<Rightarrow> (string \<times> string) list) \<Rightarrow> 'db \<Rightarrow> mig_dir \<Rightarrow> mig_dir \<Rightarrow> 'db mdb
    \<Rightarrow> 'db mdb \<times> (mig_error + DiffResult list)" where
  "Diff E Eshadow schema empty_db embedded d st =
     (case Migrate Eshadow embedded \<lparr>app = empty_db, table = NoTable\<rparr> of
        (_, Some e) \<Rightarrow> (st, Inl e)
      | (sh, None) \<Rightarrow>
          (let reserved = tableDefinitions schema sh
           in case Status E d st of
                (st1, Inl e) \<Rightarrow> (st1, Inl e)
              | (st1, Inr statuses) \<Rightarrow>
                  (case redo_loop Eshadow d (map s_name (filter s_applied statuses)) sh of
                     (_, _, Some e) \<Rightarrow> (st1, Inl e)
                   | (sh2, _, None) \<Rightarrow>
                       if m_fails E MTables \<or> m_fails Eshadow MTables then (st1, Inl MSchema)
                       else (st1, Inr (diff_tables reserved (tableDefinitions schema st1) (tableDefinitions schema sh2))))))"

section \<open>What applying does\<close>

abbreviation app_version :: "string \<Rightarrow> string" where
  "app_version n \<equiv> ''app:'' @ n"

definition pending :: "mig_dir \<Rightarrow> 'db mdb \<Rightarrow> string list" where
  "pending d st = filter (\<lambda>n. \<not> recorded (app_version n) st) (file_names d)"

text \<open>Running the first halves of some files in order, and the rows that record them.\<close>

fun run_ups :: "'db mig_env \<Rightarrow> mig_dir \<Rightarrow> string list \<Rightarrow> 'db \<Rightarrow> 'db option" where
  "run_ups E d [] db = Some db"
| "run_ups E d (n # ns) db =
     (case read_file d n of
        None \<Rightarrow> None
      | Some c \<Rightarrow> (case m_exec E (up_sql c) db of None \<Rightarrow> None | Some db' \<Rightarrow> run_ups E d ns db'))"

definition up_row :: "'db mig_env \<Rightarrow> mig_dir \<Rightarrow> string \<Rightarrow> mig_row" where
  "up_row E d n = \<lparr>mr_version = app_version n, mr_applied = m_time E n, mr_checksum = map_option (m_sum E) (read_file d n)\<rparr>"

lemma up_row_simps [simp]: "mr_version (up_row E d n) = app_version n" "mr_applied (up_row E d n) = m_time E n"
  by (simp_all add: up_row_def)

lemma recorded_iff: "recorded v st \<longleftrightarrow> v \<in> mr_version ` set (rows st)"
  by (auto simp: recorded_def list_ex_iff)

lemma distinct_file_names: "distinct (map fst (md_entries d)) \<Longrightarrow> distinct (file_names d)"
  by (simp add: file_names_def distinct_map_filter)

lemma sorted_file_names: "sorted (file_names d)"
  by (simp add: file_names_def)

lemma run_ups_append: "run_ups E d (xs @ ys) db = Option.bind (run_ups E d xs db) (run_ups E d ys)"
  by (induction xs arbitrary: db) (auto split: option.splits)

lemma run_ups_cong: "m_exec E2 = m_exec E \<Longrightarrow> run_ups E2 d ns db = run_ups E d ns db"
  by (induction ns arbitrary: db) (auto split: option.splits)

lemma apply_tx_ok:
  "apply_tx E n (app_version n) c st = (st', None) \<Longrightarrow> read_file d n = Some c \<Longrightarrow>
     m_exec E (up_sql c) (app st) = Some (app st') \<and> table st' = Table (rows st @ [up_row E d n]) \<and> \<not> recorded (app_version n) st"
  by (auto simp: apply_tx_def up_row_def split: if_splits option.splits)

lemma apply_tx_error: "apply_tx E n v c st = (st', Some e) \<Longrightarrow> st' = st"
  by (auto simp: apply_tx_def split: if_splits option.splits)

lemma apply_loop_spec:
  assumes "distinct ns" "apply_loop E d ''app:'' ns st = (st', dn, e)"
  shows "\<exists>rest. filter (\<lambda>n. \<not> recorded (app_version n) st) ns = dn @ rest \<and> (e = None \<longrightarrow> rest = [])
     \<and> run_ups E d dn (app st) = Some (app st') \<and> rows st' = rows st @ map (up_row E d) dn
     \<and> (if dn = [] then st' = st else table st' = Table (rows st'))"
  using assms
proof (induction ns arbitrary: st dn)
  case Nil
  thus ?case by simp
next
  case (Cons n ns)
  have dist: "distinct ns" "n \<notin> set ns" using Cons.prems(1) by auto
  show ?case
  proof (cases "m_fails E (MCount n)")
    case True
    thus ?thesis using Cons.prems(2) by auto
  next
    case nofail: False
    show ?thesis
    proof (cases "recorded (app_version n) st")
      case True
      hence "apply_loop E d ''app:'' ns st = (st', dn, e)" using Cons.prems(2) nofail by simp
      from Cons.IH [OF dist(1) this] show ?thesis using True by simp
    next
      case new: False
      show ?thesis
      proof (cases "\<exists>c st1. read_file d n = Some c \<and> apply_tx E n (app_version n) c st = (st1, None)")
        case False
        hence "st' = st \<and> dn = [] \<and> e \<noteq> None"
          using Cons.prems(2) nofail new by (auto split: option.splits prod.splits dest: apply_tx_error)
        thus ?thesis by auto
      next
        case True
        then obtain c st1 where c: "read_file d n = Some c" "apply_tx E n (app_version n) c st = (st1, None)" by blast
        note tx = apply_tx_ok [OF c(2,1)]
        obtain dn' where dn': "apply_loop E d ''app:'' ns st1 = (st', dn', e)" "dn = n # dn'"
          using Cons.prems(2) nofail new c by (auto split: prod.splits)
        obtain rest where r: "filter (\<lambda>n. \<not> recorded (app_version n) st1) ns = dn' @ rest" "e = None \<longrightarrow> rest = []"
            "run_ups E d dn' (app st1) = Some (app st')" "rows st' = rows st1 @ map (up_row E d) dn'"
            "if dn' = [] then st' = st1 else table st' = Table (rows st')"
          using Cons.IH [OF dist(1) dn'(1)] by blast
        have "filter (\<lambda>n. \<not> recorded (app_version n) st1) ns = filter (\<lambda>n. \<not> recorded (app_version n) st) ns"
          using tx dist(2) by (intro filter_cong) (auto simp: recorded_iff)
        moreover have "rows st1 = rows st @ [up_row E d n]" "table st1 = Table (rows st1)" using tx by simp_all
        ultimately show ?thesis
          using r dn'(2) new c(1) tx by (intro exI [of _ rest]) (auto split: if_splits)
      qed
    qed
  qed
qed

lemma ensure_spec:
  "ensureMigrationsTable E st = (st1, e) \<Longrightarrow> rows st1 = rows st \<and> app st1 = app st \<and> (e = None \<longrightarrow> table st1 = Table (rows st))"
  by (auto simp: ensureMigrationsTable_def ensureChecksumColumn_def Let_def split: if_splits mig_table.splits)

lemma ensure_calm: "table st = Table rs \<Longrightarrow> \<not> m_fails E MCreateTable \<Longrightarrow> \<not> m_fails E MTableInfo \<Longrightarrow> ensureMigrationsTable E st = (st, None)"
  by (simp add: ensureMigrationsTable_def ensureChecksumColumn_def Let_def)

lemma pending_rows: "rows st1 = rows st \<Longrightarrow> pending d st1 = pending d st"
  by (simp add: pending_def recorded_iff)

lemma applied_spec:
  assumes d: "distinct (map fst (md_entries d))" "\<not> md_missing d" and a: "MigrateDirApplied E d st = (st', dn, e)"
  shows "\<exists>rest. pending d st = dn @ rest \<and> (e = None \<longrightarrow> rest = []) \<and> pending d st' = rest
     \<and> run_ups E d dn (app st) = Some (app st') \<and> rows st' = rows st @ map (up_row E d) dn
     \<and> (e = None \<longrightarrow> table st' = Table (rows st'))"
proof -
  have base: ?thesis if "rows st' = rows st" "app st' = app st" "dn = []" "e \<noteq> None"
    using that pending_rows by (intro exI [of _ "pending d st"]) auto
  obtain st1 e1 where s1: "ensureMigrationsTable E st = (st1, e1)" by fastforce
  note en = ensure_spec [OF s1]
  show ?thesis
  proof (cases "md_stat_error d \<or> e1 \<noteq> None \<or> md_read_error d")
    case True
    thus ?thesis using a d(2) s1 en by (intro base) (auto simp: MigrateDirApplied_def applyMigrations_def split: if_splits option.splits)
  next
    case False
    hence "apply_loop E d ''app:'' (file_names d) st1 = (st', dn, e)"
      using a d(2) s1 by (simp add: MigrateDirApplied_def applyMigrations_def)
    from apply_loop_spec [OF distinct_file_names [OF d(1)] this]
    obtain rest where r: "pending d st1 = dn @ rest" "e = None \<longrightarrow> rest = []" "run_ups E d dn (app st1) = Some (app st')"
        "rows st' = rows st1 @ map (up_row E d) dn" "if dn = [] then st' = st1 else table st' = Table (rows st')"
      unfolding pending_def by blast
    have "distinct (dn @ rest)" using r(1) distinct_file_names [OF d(1)] by (metis distinct_filter pending_def)
    have "app_version n \<in> mr_version ` up_row E d ` set dn \<longleftrightarrow> n \<in> set dn" for n
      by (auto simp: image_iff)
    hence "pending d st' = filter (\<lambda>n. n \<notin> set dn) (pending d st1)"
      unfolding pending_def recorded_iff r(4) filter_filter set_append set_map image_Un by (intro filter_cong) auto
    also have "\<dots> = rest" using \<open>distinct (dn @ rest)\<close> r(1) by (auto simp: filter_id_conv filter_empty_conv)
    finally show ?thesis using r en False pending_rows [of st1 st d] by (intro exI [of _ rest]) (auto split: if_splits)
  qed
qed

text \<open>
  C26. Applying is exact and resumable. A run that fails part way followed by one that succeeds has
  applied, over the two runs, exactly the pending files, each once and in file-name order: the
  database is the result of their first halves in that order, each is recorded once, and a third
  run changes nothing.
\<close>

theorem migrate_up_exact_and_resumable:
  assumes d: "distinct (map fst (md_entries d))" "\<not> md_missing d" "\<not> md_stat_error d" "\<not> md_read_error d"
    and one: "MigrateDirApplied E d st = (st1, dn1, e1)" and two: "MigrateDirApplied E2 d st1 = (st2, dn2, None)"
    and same: "m_exec E2 = m_exec E" and calm: "\<And>q. \<not> m_fails E3 q"
  shows "dn1 @ dn2 = pending d st \<and> run_ups E d (pending d st) (app st) = Some (app st2)
     \<and> map mr_version (rows st2) = map mr_version (rows st) @ map app_version (pending d st)
     \<and> MigrateDirApplied E3 d st2 = (st2, [], None)"
proof -
  obtain rest where r: "pending d st = dn1 @ rest" "pending d st1 = rest"
      "run_ups E d dn1 (app st) = Some (app st1)" "rows st1 = rows st @ map (up_row E d) dn1"
    using applied_spec [OF d(1,2) one] by blast
  have s: "rest = dn2" "pending d st2 = []" "run_ups E2 d dn2 (app st1) = Some (app st2)" "rows st2 = rows st1 @ map (up_row E2 d) dn2"
      "table st2 = Table (rows st2)"
    using applied_spec [OF d(1,2) two] r(2) by auto
  have none: "apply_loop E3 d ''app:'' ns st2 = (st2, [], None)" if "\<And>n. n \<in> set ns \<Longrightarrow> recorded (app_version n) st2" for ns
    using that calm by (induction ns) auto
  have "n \<in> set (file_names d) \<Longrightarrow> recorded (app_version n) st2" for n
    using s(2) by (auto simp: pending_def filter_empty_conv)
  hence "MigrateDirApplied E3 d st2 = (st2, [], None)"
    using none ensure_calm [OF s(5)] calm d by (simp add: MigrateDirApplied_def applyMigrations_def)
  moreover have "run_ups E d (dn1 @ dn2) (app st) = Some (app st2)"
    using r(3) s(3) run_ups_cong [OF same, of d dn2 "app st1"] by (simp add: run_ups_append)
  ultimately show ?thesis using r(1,4) s(1,4) by (simp add: comp_def)
qed


section \<open>What reverting does\<close>

lemma HasPrefix_app [simp]: "HasPrefix (p @ n) p"
  by (auto simp: HasPrefix_iff)

lemma TrimPrefix_app [simp]: "TrimPrefix (p @ n) p = n"
  by (simp add: TrimPrefix_def)

text \<open>A file whose second half undoes its first.\<close>

definition reversible :: "'db mig_env \<Rightarrow> mig_dir \<Rightarrow> string \<Rightarrow> bool" where
  "reversible E d n = (case read_file d n of
     None \<Rightarrow> False
   | Some c \<Rightarrow> has_down c \<and> TrimSpace (down_sql c) \<noteq> []
       \<and> (\<forall>x y. m_exec E (up_sql c) x = Some y \<longrightarrow> m_exec E (down_sql c) y = Some x))"

lemma down_loop_undoes:
  assumes "\<And>q. \<not> m_fails E q" and "\<And>n. n \<in> set dn \<Longrightarrow> reversible E d n" and "distinct dn"
    and "\<And>n. n \<in> set dn \<Longrightarrow> app_version n \<notin> mr_version ` set R"
    and "run_ups E d dn db = Some (app st)" and "table st = Table (R @ map (up_row E d) dn)"
  shows "down_loop E d (map app_version (rev dn)) st = (st\<lparr>app := db, table := Table R\<rparr>, rev dn, None)"
  using assms
proof (induction dn arbitrary: st rule: rev_induct)
  case Nil
  thus ?case by (cases st) simp
next
  case (snoc n dn)
  obtain db1 where db1: "run_ups E d dn db = Some db1" "run_ups E d [n] db1 = Some (app st)"
    using snoc.prems(5) by (auto simp: run_ups_append bind_eq_Some_conv)
  obtain c where c: "read_file d n = Some c" "m_exec E (up_sql c) db1 = Some (app st)"
    using db1(2) by (auto split: option.splits)
  have rev: "has_down c" "TrimSpace (down_sql c) \<noteq> []" "m_exec E (down_sql c) (app st) = Some db1"
    using snoc.prems(2) [of n] c by (auto simp: reversible_def)
  let ?st = "st\<lparr>app := db1, table := Table (R @ map (up_row E d) dn)\<rparr>"
  have others: "\<forall>r \<in> set (R @ map (up_row E d) dn). mr_version r \<noteq> app_version n"
    using snoc.prems(3,4) by (force simp: image_iff)
  hence "filter (\<lambda>r. mr_version r \<noteq> app_version n) (rows st) = R @ map (up_row E d) dn"
    using snoc.prems(6) by (simp add: filter_id_conv)
  moreover have "down_loop E d (map app_version (rev dn)) ?st = (?st\<lparr>app := db, table := Table R\<rparr>, rev dn, None)"
    using snoc.prems db1(1) by (intro snoc.IH) auto
  ultimately show ?case
    using c rev snoc.prems(1) TrimPrefix_app [of "''app:''" n] by (simp add: Let_def del: TrimPrefix_app)
qed

text \<open>Sorting by time, then version: rows recorded later and in name order come last.\<close>

lemma sort_latest:
  assumes later: "\<forall>a \<in> set A. \<forall>b \<in> set N. mr_applied a < mr_applied b"
    and v: "sorted (map mr_version N)" and t: "sorted (map mr_applied N)"
  shows "sort_key mr_applied (sort_key mr_version (A @ N)) = sort_key mr_applied (sort_key mr_version A) @ N"
proof (rule properties_for_sort_key)
  show "mset (sort_key mr_applied (sort_key mr_version A) @ N) = mset (sort_key mr_version (A @ N))" by simp
  show "sorted (map mr_applied (sort_key mr_applied (sort_key mr_version A) @ N))"
    using later t by (fastforce simp: sorted_append)
  fix k assume k: "k \<in> set (sort_key mr_applied (sort_key mr_version A) @ N)"
  let ?P = "\<lambda>x. mr_applied k = mr_applied x"
  have s: "filter ?P (sort_key mr_version xs) = sort_key mr_version (filter ?P xs)" for xs by (rule filter_sort)
  have st: "filter ?P (sort_key mr_applied xs) = filter ?P xs" for xs
    using sort_key_stable [of mr_applied "mr_applied k" xs] by (simp add: eq_commute)
  have N: "sort_key mr_version (filter ?P N) = filter ?P N"
    using v by (intro sort_key_id_if_sorted) (simp add: sorted_filter)
  show "filter ?P (sort_key mr_applied (sort_key mr_version A) @ N) = filter ?P (sort_key mr_version (A @ N))"
  proof (cases "k \<in> set A")
    case True
    hence "filter ?P N = []" using later by (fastforce simp: filter_empty_conv)
    thus ?thesis by (simp add: s st)
  next
    case False
    hence "filter ?P A = []" using later k by (fastforce simp: filter_empty_conv)
    thus ?thesis by (simp add: s st N)
  qed
qed


lemma append_le_same: "(p @ a \<le> p @ b) = (a \<le> (b :: string))"
  by (induction p) auto

lemma latest_after_up:
  assumes r: "rows st1 = rows st @ map (up_row E d) dn" and dn: "sorted dn" and clock: "sorted (map (m_time E) dn)"
    and later: "\<And>r n. r \<in> set (rows st) \<Longrightarrow> HasPrefix (mr_version r) ''app:'' \<Longrightarrow> n \<in> set dn \<Longrightarrow> mr_applied r < m_time E n"
  shows "latest st1 = map app_version (rev dn) @ latest st"
proof -
  let ?A = "filter (\<lambda>r. HasPrefix (mr_version r) ''app:'') (rows st)" and ?N = "map (up_row E d) dn"
  have n: "filter (\<lambda>r. HasPrefix (mr_version r) ''app:'') ?N = ?N"
    using HasPrefix_app [of "''app:''"] by (simp add: filter_id_conv del: HasPrefix_app)
  have v: "sorted (map mr_version ?N)"
  proof -
    have "sorted xs \<Longrightarrow> sorted (map (\<lambda>n. p @ n) xs)" for p :: string and xs
      by (induction xs) (auto simp: append_le_same)
    from this [OF dn, of "''app:''"] show ?thesis by (simp add: comp_def)
  qed
  have t: "sorted (map mr_applied ?N)" using clock by (simp add: comp_def)
  have l: "\<forall>a \<in> set ?A. \<forall>b \<in> set ?N. mr_applied a < mr_applied b" using later by auto
  show ?thesis
    unfolding latest_def r filter_append n sort_latest [OF l v t] by (simp add: rev_map comp_def)
qed



section \<open>Concrete runs\<close>

definition log_env :: "(string \<Rightarrow> time) \<Rightarrow> string list mig_env" where
  "log_env clock = \<lparr>m_fails = (\<lambda>_. False),
     m_exec = (\<lambda>sql db. case sql of
        CHR ''+'' # t \<Rightarrow> Some (t # db)
      | CHR ''-'' # t \<Rightarrow> if db \<noteq> [] \<and> hd db = t then Some (tl db) else None
      | _ \<Rightarrow> None),
     m_sum = id, m_time = clock\<rparr>"

definition mig_file :: "string \<Rightarrow> string" where
  "mig_file t = Join [migrateUpMarker, ''+'' @ t, migrateDownMarker, ''-'' @ t] [newline]"

definition mig_files :: "string list \<Rightarrow> mig_dir" where
  "mig_files ns = \<lparr>md_missing = False, md_stat_error = False, md_read_error = False,
     md_entries = map (\<lambda>n. (n, Some (mig_file n))) ns, md_unreadable = (\<lambda>_. False)\<rparr>"

definition empty_mdb :: "string list mdb" where
  "empty_mdb = \<lparr>app = [], table = NoTable\<rparr>"

lemma mig_file_reversible:
  "m_exec (log_env clock) (''+'' @ t) x = Some y \<Longrightarrow> m_exec (log_env clock) (''-'' @ t) y = Some x"
  by (auto simp: log_env_def)

text \<open>The state after an upgrade with two files, and another after a third file arrived in between.\<close>

definition late_merge :: "string list mdb" where
  "late_merge = fst (MigrateDirApplied (log_env (\<lambda>_. 2)) (mig_files [''0001_a'', ''0002_b'', ''0003_c''])
     (fst (MigrateDirApplied (log_env (\<lambda>_. 1)) (mig_files [''0001_a'', ''0003_c'']) empty_mdb)))"

text \<open>
  Moving to a version can revert the version itself. With files 1, 2 and 3 all applied, file 2 last
  (it arrived in the directory after 3 had been applied), moving to version 2 counts the one
  applied file after it, reverts the most recently applied one, which is 2, and leaves 1 and 3.
\<close>

theorem migrate_to_reverts_the_target:
  "map s_applied (projr (snd (Status (log_env (\<lambda>_. 3)) (mig_files [''0001_a'', ''0002_b'', ''0003_c'']) late_merge))) = [True, True, True]
   \<and> (case MigrateDirTo (log_env (\<lambda>_. 3)) (mig_files [''0001_a'', ''0002_b'', ''0003_c'']) ''2'' late_merge of
        (st, dir, touched, e) \<Rightarrow> dir = Inr Down \<and> touched = [''0002_b''] \<and> e = None
          \<and> map mr_version (rows st) = [''app:0001_a'', ''app:0003_c''])"
  by code_simp

lemma migrate_up_exact_and_resumable_witness:
  "pending (mig_files [''0001_a'', ''0002_b'']) empty_mdb = [''0001_a'', ''0002_b'']
   \<and> run_ups (log_env (\<lambda>_. 1)) (mig_files [''0001_a'', ''0002_b'']) [''0001_a'', ''0002_b''] [] =
       Some (app (fst (MigrateDirApplied (log_env (\<lambda>_. 1)) (mig_files [''0001_a'', ''0002_b'']) empty_mdb)))"
proof -
  let ?d = "mig_files [''0001_a'', ''0002_b'']" and ?E = "log_env (\<lambda>_. 1)"
  let ?bad = "?E\<lparr>m_fails := (\<lambda>q. q = MTx ''0002_b'')\<rparr>"
  let ?st1 = "fst (MigrateDirApplied ?bad ?d empty_mdb)"
  have d: "distinct (map fst (md_entries ?d))" "\<not> md_missing ?d" "\<not> md_stat_error ?d" "\<not> md_read_error ?d" by (simp_all add: mig_files_def)
  have one: "MigrateDirApplied ?bad ?d empty_mdb = (?st1, [''0001_a''], Some (MBegin ''0002_b''))"
    by (rule prod_eqI; code_simp)
  have two: "MigrateDirApplied ?E ?d ?st1 = (fst (MigrateDirApplied ?E ?d empty_mdb), [''0002_b''], None)"
    by (rule prod_eqI; code_simp)
  have p: "pending ?d empty_mdb = [''0001_a'', ''0002_b'']" by code_simp
  have c: "\<And>q. \<not> m_fails ?E q" by (simp add: log_env_def)
  have s: "m_exec ?E = m_exec ?bad" by simp
  have a: "app empty_mdb = []" by (simp add: empty_mdb_def)
  have x: "run_ups ?bad ?d ns db = run_ups ?E ?d ns db" for ns db by (rule run_ups_cong) simp
  show ?thesis
    using migrate_up_exact_and_resumable [OF d one two s c] unfolding p a x by simp
qed


end
