(* ===== verification/Audit_Log.thy ===== *)
theory Audit_Log
  imports Maubase_Prelude
begin

text \<open>
  The audit trail: \<^verbatim>\<open>internal/audit/audit.go\<close> on the table of migration 0004. An entry copies the
  identities it names, so it depends on no other table. The columns that may be \<^verbatim>\<open>NULL\<close> are options;
  metadata (strings, flags and counts, which JSON stores and reads back as they are) is the Go map it
  came from. The identifier drawn, the time of the insert and whether the statement fails are arguments.
\<close>

section \<open>Entries\<close>

datatype audit_event =
    EventLogin | EventLoginFailed | EventLoginRateLimited | EventLogout | EventOwnerCreate | EventOwnerDelete
  | EventSessionsPurged | EventSQLExecuted | EventUserCreate | EventUserDelete | EventUserSessionsRevoked
  | EventCustomerSignup | EventCustomerLogin | EventCustomerLoginFailed | EventCustomerLogout
  | EventCustomerPasswordResetRequested | EventCustomerPasswordResetCompleted | EventCustomerAccountDeleted
  | EventCustomerSocialSignIn

datatype meta_value = MText string | MBool bool | MCount nat

type_synonym metadata = "string \<rightharpoonup> meta_value"

text \<open>\<^verbatim>\<open>Actor\<close> and \<^verbatim>\<open>Target\<close>: an identifier and an address, both empty for nobody.\<close>

record party =
  p_id :: string
  p_email :: string

definition nobody :: party where
  "nobody = \<lparr>p_id = [], p_email = []\<rparr>"

record audit_row =
  au_id :: string
  au_event :: audit_event
  au_actor_id :: "string option"
  au_actor_email :: "string option"
  au_target_id :: "string option"
  au_target_email :: "string option"
  au_metadata :: "metadata option"
  au_created :: time

type_synonym audit_table = "audit_row list"

record Entry =
  en_id :: string
  en_event :: audit_event
  en_actor :: party
  en_target :: party
  en_metadata :: "metadata option"
  en_created :: time


section \<open>Operations\<close>

record audit_env =
  au_uuid :: string
  au_now :: time
  au_insert_fails :: bool
  au_list_fails :: bool

definition nullIfEmpty :: "string \<Rightarrow> string option" where
  "nullIfEmpty s = (if s = [] then None else Some s)"

definition audit_row_for :: "audit_env \<Rightarrow> audit_event \<Rightarrow> party \<Rightarrow> party \<Rightarrow> metadata option \<Rightarrow> audit_row" where
  "audit_row_for E ev actor target md =
     \<lparr>au_id = au_uuid E, au_event = ev, au_actor_id = nullIfEmpty (p_id actor), au_actor_email = nullIfEmpty (p_email actor),
      au_target_id = nullIfEmpty (p_id target), au_target_email = nullIfEmpty (p_email target),
      au_metadata = md, au_created = au_now E\<rparr>"

text \<open>The result says whether the entry was stored; a taken identifier violates the primary key.\<close>

definition Record :: "audit_env \<Rightarrow> audit_event \<Rightarrow> party \<Rightarrow> party \<Rightarrow> metadata option \<Rightarrow> audit_table \<Rightarrow> audit_table \<times> bool" where
  "Record E ev actor target md t =
     (if au_insert_fails E \<or> list_ex (\<lambda>r. au_id r = au_uuid E) t then (t, False)
      else (t @ [audit_row_for E ev actor target md], True))"

text \<open>A failure is only written to the process log.\<close>

definition RecordLogged :: "audit_env \<Rightarrow> audit_event \<Rightarrow> party \<Rightarrow> party \<Rightarrow> metadata option \<Rightarrow> audit_table \<Rightarrow> audit_table" where
  "RecordLogged E ev actor target md t = fst (Record E ev actor target md t)"

definition null_string :: "string option \<Rightarrow> string" where
  "null_string s = (case s of None \<Rightarrow> [] | Some x \<Rightarrow> x)"

definition to_entry :: "audit_row \<Rightarrow> Entry" where
  "to_entry r =
     \<lparr>en_id = au_id r, en_event = au_event r,
      en_actor = \<lparr>p_id = null_string (au_actor_id r), p_email = null_string (au_actor_email r)\<rparr>,
      en_target = \<lparr>p_id = null_string (au_target_id r), p_email = null_string (au_target_email r)\<rparr>,
      en_metadata = au_metadata r, en_created = au_created r\<rparr>"

text \<open>\<^verbatim>\<open>ORDER BY created_at DESC, id DESC\<close>.\<close>

definition newest_first :: "audit_table \<Rightarrow> audit_table" where
  "newest_first t = rev (sort_key au_created (sort_key au_id t))"

text \<open>A negative limit is no limit and a negative offset is none, as in SQLite.\<close>

definition ListAudit :: "audit_env \<Rightarrow> int \<Rightarrow> int \<Rightarrow> audit_table \<Rightarrow> Entry list option" where
  "ListAudit E limit offset t =
     (if au_list_fails E then None
      else (let rows = drop (nat offset) (newest_first t)
            in Some (map to_entry (if limit < 0 then rows else take (nat limit) rows))))"


section \<open>The trail only grows\<close>

definition audit_ok :: "audit_table \<Rightarrow> bool" where
  "audit_ok t \<longleftrightarrow> distinct (map au_id t)"

datatype audit_call = Call audit_env audit_event party party "metadata option"

fun audit_exec :: "audit_call \<Rightarrow> audit_table \<Rightarrow> audit_table" where
  "audit_exec (Call E ev actor target md) t = RecordLogged E ev actor target md t"

definition audit_run :: "audit_call list \<Rightarrow> audit_table \<Rightarrow> audit_table" where
  "audit_run cs t = fold audit_exec cs t"

lemma null_string_nullIfEmpty [simp]: "null_string (nullIfEmpty s) = s"
  by (simp add: null_string_def nullIfEmpty_def)

lemma to_entry_row:
  "to_entry (audit_row_for E ev a g md) =
     \<lparr>en_id = au_uuid E, en_event = ev, en_actor = a, en_target = g, en_metadata = md, en_created = au_now E\<rparr>"
  by (simp add: to_entry_def audit_row_for_def)

lemma taken_iff: "list_ex (\<lambda>r. au_id r = i) t \<longleftrightarrow> i \<in> au_id ` set t"
  by (auto simp: list_ex_iff)

lemma RecordLogged_cases:
  obtains (failed) "RecordLogged E ev a g md t = t"
  | (stored) "RecordLogged E ev a g md t = t @ [audit_row_for E ev a g md]" "au_uuid E \<notin> au_id ` set t"
  by (cases "au_insert_fails E \<or> au_uuid E \<in> au_id ` set t") (auto simp: RecordLogged_def Record_def taken_iff)

lemma RecordLogged_stored:
  "\<not> au_insert_fails E \<Longrightarrow> au_uuid E \<notin> au_id ` set t \<Longrightarrow>
   RecordLogged E ev a g md t = t @ [audit_row_for E ev a g md]"
  by (simp add: RecordLogged_def Record_def taken_iff)

lemma audit_ok_RecordLogged [keeps]: "audit_ok t \<Longrightarrow> audit_ok (RecordLogged E ev a g md t)"
  by (cases E ev a g md t rule: RecordLogged_cases) (auto simp: audit_ok_def audit_row_for_def)

lemma RecordLogged_prefix: "\<exists>new. RecordLogged E ev a g md t = t @ new"
  by (cases E ev a g md t rule: RecordLogged_cases) auto

lemma audit_run_grows: "audit_ok t \<Longrightarrow> \<exists>new. audit_run cs t = t @ new \<and> audit_ok (audit_run cs t)"
proof (induction cs arbitrary: t)
  case Nil
  then show ?case by (simp add: audit_run_def)
next
  case (Cons c cs)
  obtain E ev a g md where c: "c = Call E ev a g md" by (cases c)
  obtain new where new: "RecordLogged E ev a g md t = t @ new" using RecordLogged_prefix by blast
  have "audit_ok (t @ new)" using audit_ok_RecordLogged [OF Cons.prems, of E ev a g md] new by simp
  from Cons.IH [OF this] new c show ?case by (auto simp: audit_run_def)
qed

lemma set_newest_first [simp]: "set (newest_first t) = set t" "length (newest_first t) = length t"
  by (simp_all add: newest_first_def)

lemma newest_first_ordered: "sorted_wrt (\<lambda>x y. au_created x \<ge> au_created y) (newest_first t)"
  using sorted_sort_key [of au_created "sort_key au_id t"]
  by (simp add: newest_first_def sorted_wrt_rev sorted_map)

text \<open>The entry with the latest time comes first and the order of the others does not depend on it.\<close>

lemma sort_key_latest:
  assumes "\<forall>y \<in> set xs. f y \<noteq> (k :: 'k :: linorder) \<longrightarrow> f y < k" and "filter (\<lambda>y. f y = k) xs = [x]"
  shows "sort_key f xs = sort_key f (filter (\<lambda>y. f y \<noteq> k) xs) @ [x]"
proof -
  let ?S = "sort_key f xs"
  have x: "x \<in> set ?S" "f x = k"
  proof -
    have "x \<in> set (filter (\<lambda>y. f y = k) xs)" unfolding assms(2) by simp
    then show "x \<in> set ?S" "f x = k" by simp_all
  qed
  obtain us vs where S: "?S = us @ x # vs" using x(1) split_list by metis
  have k: "filter (\<lambda>y. f y = k) ?S = [x]" using assms(2) by (simp add: filter_sort)
  have "f y = k" if "y \<in> set vs" for y
  proof -
    have "k \<le> f y" using sorted_sort_key [of f xs] that x(2) by (simp add: S sorted_append)
    moreover have "y \<in> set xs" using that S by (metis Un_iff list.set_intros(2) set_append set_sort)
    ultimately show ?thesis using assms(1) by force
  qed
  then have "filter (\<lambda>y. f y = k) vs = vs" by (simp add: filter_id_conv)
  with k x(2) have none: "filter (\<lambda>y. f y = k) us = []" "vs = []"
    unfolding S by (auto simp: append_eq_Cons_conv)
  then have "filter (\<lambda>y. f y \<noteq> k) ?S = us" using x(2) by (auto simp: S filter_id_conv filter_empty_conv)
  then have "us = sort_key f (filter (\<lambda>y. f y \<noteq> k) xs)" unfolding filter_sort by (rule sym)
  with none(2) S show ?thesis by simp
qed

lemma newest_first_append:
  assumes "\<forall>r \<in> set t. au_created r < au_created x"
  shows "newest_first (t @ [x]) = x # newest_first t"
proof -
  let ?k = "au_created x" and ?T = "sort_key au_id (t @ [x])"
  have "filter (\<lambda>r. au_created r = ?k) t = []" "filter (\<lambda>r. au_created r \<noteq> ?k) t = t"
    using assms by (auto simp: filter_empty_conv filter_id_conv)
  then have "filter (\<lambda>r. au_created r = ?k) ?T = [x]" "filter (\<lambda>r. au_created r \<noteq> ?k) ?T = sort_key au_id t"
    by (simp_all add: filter_sort)
  with sort_key_latest [of ?T au_created ?k x] assms show ?thesis by (auto simp: newest_first_def)
qed

text \<open>
  What was recorded is what is listed. Whatever is recorded afterwards, a stored entry stays in
  the trail as it was and in its place; and read back while it is the newest, it is the first of
  the listing, with the very parties it was recorded with, empty where they were empty.
\<close>

theorem audit_entry_kept_and_listed:
  assumes "audit_ok t" and "Record E ev actor target md t = (t', True)"
    and "\<forall>r \<in> set t. au_created r < au_now E" and "\<not> au_list_fails L" and "0 < n"
  shows "(\<exists>es. ListAudit L n 0 t' = Some
        (\<lparr>en_id = au_uuid E, en_event = ev, en_actor = actor, en_target = target, en_metadata = md, en_created = au_now E\<rparr> # es))
    \<and> (\<exists>later. audit_run cs t' = t @ [audit_row_for E ev actor target md] @ later)"
proof -
  let ?r = "audit_row_for E ev actor target md"
  from assms(2) have t': "t' = t @ [?r]" "t' = RecordLogged E ev actor target md t"
    by (auto simp: Record_def RecordLogged_def split: if_splits)
  have "newest_first t' = ?r # newest_first t"
    unfolding t'(1) by (rule newest_first_append) (use assms(3) in \<open>simp add: audit_row_for_def\<close>)
  moreover obtain m where "nat n = Suc m" using assms(5) by (metis gr0_implies_Suc zero_less_nat_eq)
  ultimately have "\<exists>es. ListAudit L n 0 t' = Some (to_entry ?r # es)"
    using assms(4,5) by (simp add: ListAudit_def)
  moreover have "audit_ok t'" using audit_ok_RecordLogged [OF assms(1)] t'(2) by simp
  then obtain later where "audit_run cs t' = t' @ later" using audit_run_grows by blast
  ultimately show ?thesis using t'(1) by (simp add: to_entry_row)
qed

abbreviation audit_at :: "string \<Rightarrow> time \<Rightarrow> audit_env" where
  "audit_at i now \<equiv> \<lparr>au_uuid = i, au_now = now, au_insert_fails = False, au_list_fails = False\<rparr>"

theorem audit_entry_kept_and_listed_witness:
  "\<exists>es. ListAudit (audit_at ''c'' 7) 1 0
      (fst (Record (audit_at ''b'' 6) EventLogout nobody nobody None
             (fst (Record (audit_at ''a'' 5) EventLogin \<lparr>p_id = ''1'', p_email = []\<rparr> nobody None [])))) = Some
      (\<lparr>en_id = ''b'', en_event = EventLogout, en_actor = nobody, en_target = nobody, en_metadata = None, en_created = 6\<rparr> # es)"
proof -
  let ?t = "fst (Record (audit_at ''a'' 5) EventLogin \<lparr>p_id = ''1'', p_email = []\<rparr> nobody None [])"
  have t: "?t = [audit_row_for (audit_at ''a'' 5) EventLogin \<lparr>p_id = ''1'', p_email = []\<rparr> nobody None]"
    by (simp add: Record_def)
  show ?thesis
    using audit_entry_kept_and_listed [of ?t "audit_at ''b'' 6" EventLogout nobody nobody None
        "fst (Record (audit_at ''b'' 6) EventLogout nobody nobody None ?t)" "audit_at ''c'' 7" 1 "[]"]
    by (simp add: t audit_ok_def Record_def audit_row_for_def)
qed

end
