(* ===== verification/Providers.thy ===== *)
theory Providers
  imports Maubase_Prelude
begin

text \<open>
  What the server asks of the outside: the social sign-in providers of \<^verbatim>\<open>internal/social/provider.go\<close>
  and the e-mail senders of \<^verbatim>\<open>internal/email\<close>. The OAuth 2 client library and the network are
  parameters: what an endpoint answered is an argument, \<^term>\<open>None\<close> when the request failed, otherwise the
  status and the decoded body (\<^term>\<open>None\<close> again when the body is not JSON of the expected shape).
\<close>

section \<open>Social providers\<close>

record Identity =
  ProviderUserID :: string
  Email :: string

type_synonym 'a answer = "(nat \<times> 'a option) option"

record provider =
  pv_name :: string
  AuthCodeURL :: "string \<Rightarrow> string"
  Exchange :: "string \<Rightarrow> string option"
  FetchIdentity :: "string \<Rightarrow> Identity option"

definition getJSON :: "'a answer \<Rightarrow> 'a option" where
  "getJSON resp =
     (case resp of
        None \<Rightarrow> None
      | Some (status, body) \<Rightarrow> if status \<noteq> 200 then None else body)"

definition google_fetch :: "(string \<times> string) answer \<Rightarrow> Identity option" where
  "google_fetch userinfo =
     (case userinfo of
        None \<Rightarrow> None
      | Some (status, body) \<Rightarrow>
          if status \<noteq> 200 then None
          else (case body of
                  None \<Rightarrow> None
                | Some (sub, email) \<Rightarrow> if sub = [] then None else Some \<lparr>ProviderUserID = sub, Email = email\<rparr>))"

text \<open>The identifier is a 64-bit integer and the addresses carry the flags primary and verified.\<close>

fun primary_verified :: "(string \<times> bool \<times> bool) list \<Rightarrow> string \<Rightarrow> string" where
  "primary_verified [] email = email"
| "primary_verified ((e, primary, verified) # es) email =
     (if primary \<and> verified then e else primary_verified es email)"

definition github_fetch :: "(int \<times> string) answer \<Rightarrow> (string \<times> bool \<times> bool) list answer \<Rightarrow> Identity option" where
  "github_fetch user emails =
     (case getJSON user of
        None \<Rightarrow> None
      | Some (i, profile_email) \<Rightarrow>
          if i = 0 then None
          else (let email = (if profile_email = []
                             then (case getJSON emails of None \<Rightarrow> [] | Some es \<Rightarrow> primary_verified es [])
                             else profile_email)
                in Some \<lparr>ProviderUserID = Itoa i, Email = email\<rparr>))"

definition NewGoogle :: "(string \<Rightarrow> string) \<Rightarrow> (string \<Rightarrow> string option) \<Rightarrow> (string \<Rightarrow> (string \<times> string) answer) \<Rightarrow> provider" where
  "NewGoogle url exchange userinfo =
     \<lparr>pv_name = ''google'', AuthCodeURL = url, Exchange = exchange, FetchIdentity = (\<lambda>tok. google_fetch (userinfo tok))\<rparr>"

definition NewGitHub :: "(string \<Rightarrow> string) \<Rightarrow> (string \<Rightarrow> string option) \<Rightarrow> (string \<Rightarrow> (int \<times> string) answer) \<Rightarrow>
    (string \<Rightarrow> (string \<times> bool \<times> bool) list answer) \<Rightarrow> provider" where
  "NewGitHub url exchange user emails =
     \<lparr>pv_name = ''github'', AuthCodeURL = url, Exchange = exchange,
      FetchIdentity = (\<lambda>tok. github_fetch (user tok) (emails tok))\<rparr>"

text \<open>Both providers name an account, and GitHub's secondary address list adds only a confirmed main address.\<close>

lemma fetched_identity_named:
  "google_fetch userinfo = Some idn \<Longrightarrow> ProviderUserID idn \<noteq> []"
  by (auto simp: google_fetch_def split: option.splits if_splits)

lemma primary_verified_mem:
  "primary_verified es email = email \<or> (primary_verified es email, True, True) \<in> set es"
  by (induction es email rule: primary_verified.induct) (auto split: if_splits)

lemma github_fetch_email:
  assumes "github_fetch user emails = Some idn" and "Email idn \<noteq> []"
  shows "(\<exists>i. getJSON user = Some (i, Email idn)) \<or> (\<exists>es. getJSON emails = Some es \<and> (Email idn, True, True) \<in> set es)"
proof -
  obtain i e where u: "getJSON user = Some (i, e)" "i \<noteq> 0"
    using assms(1) by (auto simp: github_fetch_def split: option.splits if_splits)
  show ?thesis
  proof (cases "e = []")
    case False
    with assms u show ?thesis by (auto simp: github_fetch_def Let_def)
  next
    case True
    with assms u obtain es where "getJSON emails = Some es" "Email idn = primary_verified es []"
      by (auto simp: github_fetch_def Let_def split: option.splits)
    with primary_verified_mem [of es "[]"] assms(2) show ?thesis by auto
  qed
qed


section \<open>E-mail\<close>

record mail =
  m_to :: string
  m_subject :: string
  m_html :: string

text \<open>
  The Resend sender reports what the HTTP call did (\<^term>\<open>None\<close>: the call failed); the unconfigured
  sender refuses every message; the fake one records it. The list holds the accepted messages.
\<close>

datatype Sender = ResendSender "mail \<Rightarrow> nat option" | NoopSender | FakeSender

fun Send :: "Sender \<Rightarrow> mail \<Rightarrow> mail list \<Rightarrow> mail list \<times> bool" where
  "Send (ResendSender post) m out =
     (case post m of
        None \<Rightarrow> (out, False)
      | Some status \<Rightarrow> if status \<ge> 300 then (out, False) else (out @ [m], True))"
| "Send NoopSender m out = (out, False)"
| "Send FakeSender m out = (out @ [m], True)"

lemma Send_out: "fst (Send s m out) = (if snd (Send s m out) then out @ [m] else out)"
  by (cases s) (auto split: option.splits)

end
