(* ===== verification/Server_Handlers.thy ===== *)
theory Server_Handlers
  imports Rate_Limiter Auth_Service Owner_Auth OAuth_Storage Data_API File_Storage Audit_Log Providers
begin

text \<open>
  The HTTP server of \<^verbatim>\<open>internal/server\<close>: the handlers that join the identity planes, the OAuth
  storage, the data API, the file storage, the audit trail and the mail sender, the middleware in front
  of them and the routes. The state is the product of the components' states. Whatever a request meets
  of the outside (which statements fail, the values drawn, the time, the providers' answers) is the
  environment of that request, and time stands still while one request is served.
\<close>

section \<open>Requests and responses\<close>

record http_cookie =
  ck_name :: string
  ck_value :: string
  ck_path :: string
  ck_expires :: "time option"
  ck_max_age :: int
  ck_http_only :: bool
  ck_secure :: bool
  ck_lax :: bool

text \<open>
  A JSON object with the fields of its members in order; \<^term>\<open>None\<close> for a body that is no object. The
  body \<^verbatim>\<open>null\<close> decodes like the empty object.
\<close>

datatype json_field = MemString string | MemNull | MemOther

record http_req =
  hq_remote :: string
  hq_authorization :: string
  hq_cookies :: "(string \<times> string) list"
  hq_query :: "(string \<times> string) list"
  hq_json :: "(string \<times> json_field) list option"

datatype http_body =
    BNone | BText string | BError string | BMessage message | BAuthError auth_error | BOwnerError owner_error
  | BUser string string time | BWrappedUser string string time | BExpires time
  | BExport "string \<times> string \<times> time" "(string \<times> row list) list" "file_json list"
  | BConsents "(string \<times> string \<times> string list) list"
  | BOwner "string \<times> string \<times> string \<times> time" | BOwners "(string \<times> string \<times> string \<times> time) list"
  | BAudit "Entry list" | BPurged nat nat nat | BRedirect string | BRetryAfter int string

record http_response =
  rs_code :: nat
  rs_cookies :: "http_cookie list"
  rs_body :: http_body

text \<open>A handler that panics is cut off by the recovering middleware of the router.\<close>

datatype outcome = Answer http_response | Panicked

abbreviation reply :: "nat \<Rightarrow> http_body \<Rightarrow> outcome" where
  "reply c b \<equiv> Answer \<lparr>rs_code = c, rs_cookies = [], rs_body = b\<rparr>"

abbreviation reply_with :: "http_cookie list \<Rightarrow> nat \<Rightarrow> http_body \<Rightarrow> outcome" where
  "reply_with cs c b \<equiv> Answer \<lparr>rs_code = c, rs_cookies = cs, rs_body = b\<rparr>"

definition lax_cookie :: "string \<Rightarrow> string \<Rightarrow> time option \<Rightarrow> int \<Rightarrow> http_cookie" where
  "lax_cookie n v e age =
     \<lparr>ck_name = n, ck_value = v, ck_path = ''/'', ck_expires = e, ck_max_age = age,
      ck_http_only = True, ck_secure = True, ck_lax = True\<rparr>"

abbreviation SessionCookieName :: string where "SessionCookieName \<equiv> ''maubase_session''"

abbreviation OwnerSessionCookieName :: string where "OwnerSessionCookieName \<equiv> ''maubase_owner_session''"

definition SetCookie :: "session \<Rightarrow> http_cookie" where
  "SetCookie s = lax_cookie SessionCookieName (ses_token s) (Some (ses_expires s)) 0"

definition ClearCookie :: http_cookie where
  "ClearCookie = lax_cookie SessionCookieName [] (Some 0) 0"

definition ownerSetCookie :: "owner_session \<Rightarrow> http_cookie" where
  "ownerSetCookie s = lax_cookie OwnerSessionCookieName (osn_token s) (Some (osn_expires s)) 0"

definition ownerClearCookie :: http_cookie where
  "ownerClearCookie = lax_cookie OwnerSessionCookieName [] (Some 0) 0"

definition cookie_of :: "http_req \<Rightarrow> string \<Rightarrow> string option" where
  "cookie_of r n = map_of (hq_cookies r) n"

definition query_get :: "http_req \<Rightarrow> string \<Rightarrow> string" where
  "query_get r n = (case map_of (hq_query r) n of None \<Rightarrow> [] | Some v \<Rightarrow> v)"

text \<open>
  Decoding into a structure of string fields: member names match without regard to case, an unknown
  one or a value that is no string refuses the body, \<^verbatim>\<open>null\<close> leaves the field, the last member wins.
\<close>

definition field_value :: "(string \<times> json_field) list \<Rightarrow> string \<Rightarrow> string" where
  "field_value ms n = fold (\<lambda>(k, v) acc. if ToLower k = n then (case v of MemString s \<Rightarrow> s | _ \<Rightarrow> acc) else acc) ms []"

definition decodeJSON :: "string list \<Rightarrow> http_req \<Rightarrow> (string \<Rightarrow> string) option" where
  "decodeJSON names r =
     (case hq_json r of
        None \<Rightarrow> None
      | Some ms \<Rightarrow>
          if list_all (\<lambda>(k, v). ToLower k \<in> set names \<and> v \<noteq> MemOther) ms then Some (field_value ms) else None)"

abbreviation bad_body :: outcome where
  "bad_body \<equiv> reply 400 (BError ''invalid request body'')"

abbreviation unauthorized :: outcome where
  "unauthorized \<equiv> reply 401 (BError ''unauthorized'')"

abbreviation internal :: outcome where
  "internal \<equiv> reply 500 (BError ''internal error'')"

definition writeAuthError :: "auth_error \<Rightarrow> outcome" where
  "writeAuthError e =
     reply (case e of
              ErrEmailTaken \<Rightarrow> 409
            | ErrInvalidCredentials \<Rightarrow> 401 | ErrSessionNotFound \<Rightarrow> 401
            | ErrWeakPassword \<Rightarrow> 400 | ErrInvalidEmail \<Rightarrow> 400 | ErrResetTokenInvalid \<Rightarrow> 400
            | _ \<Rightarrow> 500) (BAuthError e)"

definition writeOwnerAuthError :: "owner_error \<Rightarrow> outcome" where
  "writeOwnerAuthError e =
     reply (case e of
              OErrEmailTaken \<Rightarrow> 409
            | OErrInvalidCredentials \<Rightarrow> 401 | OErrSessionNotFound \<Rightarrow> 401
            | OErrWeakPassword \<Rightarrow> 400 | OErrInvalidEmail \<Rightarrow> 400 | OErrInvalidRole \<Rightarrow> 400
            | OErrLastOwner \<Rightarrow> 409 | OErrOwnerNotFound \<Rightarrow> 404
            | _ \<Rightarrow> 500) (BOwnerError e)"

definition sessionTokenFromRequest :: "http_req \<Rightarrow> string" where
  "sessionTokenFromRequest r =
     (if HasPrefix (hq_authorization r) ''Bearer '' then TrimPrefix (hq_authorization r) ''Bearer ''
      else (case cookie_of r SessionCookieName of Some v \<Rightarrow> v | None \<Rightarrow> []))"


section \<open>State and environment\<close>

record 'fs state =
  acct :: auth
  own :: owners
  oau :: oauth
  rest :: api
  stor :: "'fs storage"
  trail :: audit_table
  outbox :: "mail list"
  loginLimiter :: limiter
  registerLimiter :: limiter
  ownerLoginLimiter :: limiter

record 'fs venv =
  v_now :: time
  v_auth :: Auth_Service.env
  v_owner :: owner_env
  v_oauth :: "oauth_stmt \<Rightarrow> bool"
  v_engine :: engine
  v_server :: server
  v_backend :: "'fs backend"
  v_file :: file_env
  v_remove :: "string \<Rightarrow> fs_op \<Rightarrow> bool"
  v_audit :: audit_env
  v_sender :: Sender
  v_reset_url :: string
  v_providers :: "(string \<times> provider) list"
  v_social_redirect :: string
  v_uuid :: string
  v_session_id :: string
  v_token :: "string option"
  v_draws :: draws
  v_state :: "string option"

record ctx =
  cx_user :: "user_row option"
  cx_owner :: "owner_row option"

type_synonym 'fs handler = "'fs venv \<Rightarrow> ctx \<Rightarrow> http_req \<Rightarrow> 'fs state \<Rightarrow> 'fs state \<times> outcome"

definition audit_note :: "'fs venv \<Rightarrow> audit_event \<Rightarrow> party \<Rightarrow> party \<Rightarrow> metadata option \<Rightarrow> 'fs state \<Rightarrow> 'fs state" where
  "audit_note V ev actor target md st = st\<lparr>trail := RecordLogged (v_audit V) ev actor target md (trail st)\<rparr>"

abbreviation user_party :: "user_row \<Rightarrow> party" where
  "user_party u \<equiv> \<lparr>p_id = user_id u, p_email = user_email u\<rparr>"

abbreviation owner_party :: "owner_row \<Rightarrow> party" where
  "owner_party o' \<equiv> \<lparr>p_id = own_id o', p_email = own_email o'\<rparr>"

section \<open>The customer plane\<close>

definition handleSignUp :: "'fs handler" where
  "handleSignUp V c r st =
     (case decodeJSON [''email'', ''password''] r of
        None \<Rightarrow> (st, bad_body)
      | Some f \<Rightarrow>
          (case SignUp (v_auth V) (v_now V) (v_uuid V) (f ''email'') (f ''password'') (acct st) of
             (a, Inl e) \<Rightarrow> (st\<lparr>acct := a\<rparr>, writeAuthError e)
           | (a, Inr u) \<Rightarrow>
               (let st1 = audit_note V EventCustomerSignup (user_party u) (user_party u) None (st\<lparr>acct := a\<rparr>);
                    body = BWrappedUser (user_id u) (user_email u) (user_created u)
                in case Login (v_auth V) (v_now V) (v_token V) (v_session_id V) (f ''email'') (f ''password'') (acct st1) of
                     (a', Inl _) \<Rightarrow> (st1\<lparr>acct := a'\<rparr>, reply 201 body)
                   | (a', Inr ses) \<Rightarrow> (st1\<lparr>acct := a'\<rparr>, reply_with [SetCookie ses] 201 body))))"

definition handleLogin :: "'fs handler" where
  "handleLogin V c r st =
     (case decodeJSON [''email'', ''password''] r of
        None \<Rightarrow> (st, bad_body)
      | Some f \<Rightarrow>
          (case Login (v_auth V) (v_now V) (v_token V) (v_session_id V) (f ''email'') (f ''password'') (acct st) of
             (a, Inl e) \<Rightarrow>
               (audit_note V EventCustomerLoginFailed nobody \<lparr>p_id = [], p_email = f ''email''\<rparr> None (st\<lparr>acct := a\<rparr>), writeAuthError e)
           | (a, Inr ses) \<Rightarrow>
               (audit_note V EventCustomerLogin \<lparr>p_id = ses_user ses, p_email = f ''email''\<rparr> nobody None (st\<lparr>acct := a\<rparr>),
                reply_with [SetCookie ses] 200 (BExpires (ses_expires ses)))))"

text \<open>\<^verbatim>\<open>url.QueryEscape\<close>.\<close>

definition hex_upper :: "nat \<Rightarrow> char" where
  "hex_upper n = ''0123456789ABCDEF'' ! n"

definition escape_char :: "char \<Rightarrow> string" where
  "escape_char c =
     (if is_digit c \<or> is_lower c \<or> is_upper c \<or> c \<in> {CHR ''-'', CHR ''_'', CHR ''.'', CHR ''~''} then [c]
      else if c = CHR '' '' then ''+''
      else [CHR ''%'', hex_upper (of_char c div 16), hex_upper (of_char c mod 16)])"

definition QueryEscape :: "string \<Rightarrow> string" where
  "QueryEscape s = concat (map escape_char s)"

definition reset_mail :: "string \<Rightarrow> string \<Rightarrow> string \<Rightarrow> mail" where
  "reset_mail url to tok =
     \<lparr>m_to = to, m_subject = ''Reset your password'',
      m_html = ''<p>Someone requested a password reset for this account.</p><p><a href='' @ [CHR 0x22]
        @ (url @ ''?token='' @ QueryEscape tok) @ [CHR 0x22]
        @ ''>Reset your password</a></p><p>This link expires in one hour. If you didn'' @ [CHR 0x27]
        @ ''t request this, you can ignore this email.</p>''\<rparr>"

definition handleForgotPassword :: "'fs handler" where
  "handleForgotPassword V c r st =
     (case decodeJSON [''email''] r of
        None \<Rightarrow> (st, bad_body)
      | Some f \<Rightarrow>
          (case CreateResetToken (v_auth V) (v_now V) (v_token V) (v_uuid V) (f ''email'') (acct st) of
             (a, Inl _) \<Rightarrow> (st\<lparr>acct := a\<rparr>, reply 204 BNone)
           | (a, Inr None) \<Rightarrow> (st\<lparr>acct := a\<rparr>, reply 204 BNone)
           | (a, Inr (Some (rawToken, userID))) \<Rightarrow>
               (let st1 = audit_note V EventCustomerPasswordResetRequested nobody
                            \<lparr>p_id = userID, p_email = f ''email''\<rparr> None (st\<lparr>acct := a\<rparr>)
                in (st1\<lparr>outbox := fst (Send (v_sender V) (reset_mail (v_reset_url V) (f ''email'') rawToken) (outbox st1))\<rparr>,
                    reply 204 BNone))))"

definition handleResetPassword :: "'fs handler" where
  "handleResetPassword V c r st =
     (case decodeJSON [''token'', ''password''] r of
        None \<Rightarrow> (st, bad_body)
      | Some f \<Rightarrow>
          (case ResetPassword (v_auth V) (v_now V) (f ''token'') (f ''password'') (acct st) of
             (a, Inl e) \<Rightarrow> (st\<lparr>acct := a\<rparr>, writeAuthError e)
           | (a, Inr userID) \<Rightarrow>
               (let st1 = audit_note V EventCustomerPasswordResetCompleted \<lparr>p_id = userID, p_email = []\<rparr>
                            \<lparr>p_id = userID, p_email = []\<rparr> None (st\<lparr>acct := a\<rparr>)
                in (st1\<lparr>oau := fst (RevokeForSubject (v_oauth V) userID (oau st1))\<rparr>, reply 204 BNone))))"

definition handleLogout :: "'fs handler" where
  "handleLogout V c r st =
     (let token = sessionTokenFromRequest r
      in if token = [] then (st, reply_with [ClearCookie] 204 BNone)
         else (let st1 = (case ValidateSession (v_auth V) (v_now V) token (acct st) of
                            Inl _ \<Rightarrow> st
                          | Inr u \<Rightarrow> audit_note V EventCustomerLogout (user_party u) nobody None st)
               in (st1\<lparr>acct := fst (Logout (v_auth V) token (acct st1))\<rparr>, reply_with [ClearCookie] 204 BNone)))"

definition handleMe :: "'fs handler" where
  "handleMe V c r st =
     (case cx_user c of
        None \<Rightarrow> (st, unauthorized)
      | Some u \<Rightarrow> (st, reply 200 (BUser (user_id u) (user_email u) (user_created u))))"

definition handleExportAccount :: "'fs handler" where
  "handleExportAccount V c r st =
     (case cx_user c of
        None \<Rightarrow> (st, unauthorized)
      | Some u \<Rightarrow>
          (case ExportOwned (v_engine V) (v_server V) (user_id u) (rest st) of
             Inl _ \<Rightarrow> (st, internal)
           | Inr records \<Rightarrow>
               (case ExportOwnedFiles (v_file V) (user_id u) (stor st) of
                  None \<Rightarrow> (st, internal)
                | Some fs \<Rightarrow> (st, reply 200 (BExport (user_id u, user_email u, user_created u) records fs)))))"

text \<open>
  Deleting the account's row cascades, by the references of migrations 0001 to 0008, also to its
  consents and to the metadata of its files.
\<close>

definition cascade_user :: "string \<Rightarrow> 'fs state \<Rightarrow> 'fs state" where
  "cascade_user i st =
     st\<lparr>oau := (oau st)\<lparr>consents := filter (\<lambda>x. cs_user x \<noteq> i) (consents (oau st))\<rparr>,
        stor := (stor st)\<lparr>files := filter (\<lambda>m. f_owner m \<noteq> i) (files (stor st))\<rparr>\<rparr>"

definition delete_user :: "'fs venv \<Rightarrow> string \<Rightarrow> 'fs state \<Rightarrow> 'fs state \<times> bool" where
  "delete_user V i st =
     (case DeleteUser (v_auth V) i (acct st) of
        (a, Inl _) \<Rightarrow> (st\<lparr>acct := a\<rparr>, False)
      | (a, Inr _) \<Rightarrow> (cascade_user i (st\<lparr>acct := a\<rparr>), True))"

definition handleDeleteAccount :: "'fs handler" where
  "handleDeleteAccount V c r st =
     (case cx_user c of
        None \<Rightarrow> (st, unauthorized)
      | Some u \<Rightarrow>
          (case DeleteOwned (v_engine V) (v_server V) (user_id u) (rest st) of
             (a, EraseFailed) \<Rightarrow> (st\<lparr>rest := a\<rparr>, internal)
           | (a, ErasePanicked) \<Rightarrow> (st\<lparr>rest := a\<rparr>, Panicked)
           | (a, Erased) \<Rightarrow>
               (case DeleteOwnedFiles (v_backend V) (v_file V) (v_remove V) (user_id u) (stor st) of
                  (s, False) \<Rightarrow> (st\<lparr>rest := a, stor := s\<rparr>, internal)
                | (s, True) \<Rightarrow>
                    (case RevokeForSubject (v_oauth V) (user_id u) (oau st) of
                       (oo, Inl _) \<Rightarrow> (st\<lparr>rest := a, stor := s, oau := oo\<rparr>, internal)
                     | (oo, Inr _) \<Rightarrow>
                         (case delete_user V (user_id u) (st\<lparr>rest := a, stor := s, oau := oo\<rparr>) of
                            (st', False) \<Rightarrow> (st', internal)
                          | (st', True) \<Rightarrow>
                              (audit_note V EventCustomerAccountDeleted (user_party u) (user_party u) None st',
                               reply_with [ClearCookie] 204 BNone))))))"

definition handleListConsents :: "'fs handler" where
  "handleListConsents V c r st =
     (case cx_user c of
        None \<Rightarrow> (st, unauthorized)
      | Some u \<Rightarrow>
          (case ListConsents (v_oauth V) (user_id u) (oau st) of
             Inl _ \<Rightarrow> (st, internal)
           | Inr cs \<Rightarrow> (st, reply 200 (BConsents cs))))"

definition handleRevokeConsent :: "string \<Rightarrow> 'fs handler" where
  "handleRevokeConsent clientID V c r st =
     (case cx_user c of
        None \<Rightarrow> (st, unauthorized)
      | Some u \<Rightarrow>
          (case RevokeConsent (v_oauth V) (user_id u) clientID (oau st) of
             (oo, Inl _) \<Rightarrow> (st\<lparr>oau := oo\<rparr>, internal)
           | (oo, Inr _) \<Rightarrow> (st\<lparr>oau := oo\<rparr>, reply 204 BNone)))"

definition requireAuth :: "'fs handler \<Rightarrow> 'fs handler" where
  "requireAuth nxt V c r st =
     (let token = sessionTokenFromRequest r
      in if token = [] then (st, unauthorized)
         else (case ValidateSession (v_auth V) (v_now V) token (acct st) of
                 Inl _ \<Rightarrow> (st, unauthorized)
               | Inr u \<Rightarrow> nxt V (c\<lparr>cx_user := Some u\<rparr>) r st))"


section \<open>Social sign-in\<close>

definition socialStateCookieName :: "string \<Rightarrow> string" where
  "socialStateCookieName provider = ''maubase_social_state_'' @ provider"

definition clearSocialStateCookie :: "string \<Rightarrow> http_cookie" where
  "clearSocialStateCookie provider = lax_cookie (socialStateCookieName provider) [] None (- 1)"

definition handleSocialStart :: "string \<Rightarrow> 'fs handler" where
  "handleSocialStart providerName V c r st =
     (case map_of (v_providers V) providerName of
        None \<Rightarrow> (st, reply 404 (BText ''404 page not found''))
      | Some p \<Rightarrow>
          (case v_state V of
             None \<Rightarrow> (st, internal)
           | Some state \<Rightarrow>
               (st, reply_with [lax_cookie (socialStateCookieName providerName) state None 300] 303 (BRedirect (AuthCodeURL p state)))))"

text \<open>Who is signed in already; an invalid session counts as nobody.\<close>

definition current_user_id :: "'fs venv \<Rightarrow> http_req \<Rightarrow> 'fs state \<Rightarrow> string" where
  "current_user_id V r st =
     (let token = sessionTokenFromRequest r
      in if token = [] then []
         else (case ValidateSession (v_auth V) (v_now V) token (acct st) of Inl _ \<Rightarrow> [] | Inr u \<Rightarrow> user_id u))"

definition handleSocialCallback :: "string \<Rightarrow> 'fs handler" where
  "handleSocialCallback providerName V c r st =
     (case map_of (v_providers V) providerName of
        None \<Rightarrow> (st, reply 404 (BText ''404 page not found''))
      | Some p \<Rightarrow>
          (let clear = clearSocialStateCookie providerName;
               state = query_get r ''state'';
               code = query_get r ''code''
           in if state = [] \<or> cookie_of r (socialStateCookieName providerName) \<noteq> Some state
              then (st, reply_with [clear] 400 (BText ''invalid or missing state''))
              else if query_get r ''error'' \<noteq> []
              then (st, reply_with [clear] 400 (BText (''authorization denied: '' @ query_get r ''error'')))
              else if code = [] then (st, reply_with [clear] 400 (BText ''missing code''))
              else (case Exchange p code of
                      None \<Rightarrow> (st, reply_with [clear] 502 (BText ''token exchange failed''))
                    | Some tok \<Rightarrow>
                        (case FetchIdentity p tok of
                           None \<Rightarrow> (st, reply_with [clear] 502 (BText ''failed to fetch profile''))
                         | Some idn \<Rightarrow>
                             if ProviderUserID idn = [] then (st, reply_with [clear] 502 (BText ''failed to fetch profile''))
                             else
                               (let current = current_user_id V r st
                                in case LoginOrCreateViaSocial (v_auth V) (v_now V) (v_draws V) (pv_name p)
                                          (ProviderUserID idn) (Email idn) current (acct st) of
                                     (a, Inl e) \<Rightarrow>
                                       (st\<lparr>acct := a\<rparr>,
                                        if e = ErrSocialIdentityLinkedElsewhere then reply_with [clear] 409 (BAuthError e)
                                        else reply_with [clear] 500 (BError ''internal error''))
                                   | (a, Inr (ses, newAccount)) \<Rightarrow>
                                       (audit_note V EventCustomerSocialSignIn \<lparr>p_id = ses_user ses, p_email = []\<rparr>
                                          \<lparr>p_id = ses_user ses, p_email = []\<rparr>
                                          (Some [''provider'' \<mapsto> MText (pv_name p), ''new_account'' \<mapsto> MBool newAccount,
                                                 ''already_signed_in'' \<mapsto> MBool (current \<noteq> [])]) (st\<lparr>acct := a\<rparr>),
                                        reply_with [clear, SetCookie ses] 303 (BRedirect (v_social_redirect V))))))))"

section \<open>The owner plane\<close>

abbreviation owner_json :: "owner_row \<Rightarrow> string \<times> string \<times> string \<times> time" where
  "owner_json o' \<equiv> (own_id o', own_email o', own_role o', own_created o')"

definition handleOwnerLogin :: "'fs handler" where
  "handleOwnerLogin V c r st =
     (case decodeJSON [''email'', ''password''] r of
        None \<Rightarrow> (st, bad_body)
      | Some f \<Rightarrow>
          (case ownerLogin (v_owner V) (v_now V) (v_token V) (v_session_id V) (f ''email'') (f ''password'') (own st) of
             (a, Inl e) \<Rightarrow>
               (audit_note V EventLoginFailed nobody \<lparr>p_id = [], p_email = f ''email''\<rparr> None (st\<lparr>own := a\<rparr>), writeOwnerAuthError e)
           | (a, Inr ses) \<Rightarrow>
               (audit_note V EventLogin \<lparr>p_id = osn_owner ses, p_email = f ''email''\<rparr> nobody None (st\<lparr>own := a\<rparr>),
                reply_with [ownerSetCookie ses] 200 (BExpires (osn_expires ses)))))"

definition handleOwnerLogout :: "'fs handler" where
  "handleOwnerLogout V c r st =
     (case cookie_of r OwnerSessionCookieName of
        None \<Rightarrow> (st, reply_with [ownerClearCookie] 204 BNone)
      | Some token \<Rightarrow>
          (let st1 = (case ownerValidateSession (v_owner V) (v_now V) token (own st) of
                        Inl _ \<Rightarrow> st
                      | Inr o' \<Rightarrow> audit_note V EventLogout (owner_party o') nobody None st)
           in (st1\<lparr>own := fst (ownerLogout (v_owner V) token (own st1))\<rparr>, reply_with [ownerClearCookie] 204 BNone)))"

text \<open>The owner in the context is a pointer: a handler that finds none there panics when it uses it.\<close>

definition handleOwnerMe :: "'fs handler" where
  "handleOwnerMe V c r st =
     (case cx_owner c of None \<Rightarrow> (st, Panicked) | Some o' \<Rightarrow> (st, reply 200 (BOwner (owner_json o'))))"

definition handleListOwners :: "'fs handler" where
  "handleListOwners V c r st =
     (case ListOwners (v_owner V) (own st) of
        Inl _ \<Rightarrow> (st, reply 500 (BText ''internal error''))
      | Inr os \<Rightarrow> (st, reply 200 (BOwners (map owner_json os))))"

definition handleCreateOwner :: "'fs handler" where
  "handleCreateOwner V c r st =
     (case decodeJSON [''email'', ''password'', ''role''] r of
        None \<Rightarrow> (st, bad_body)
      | Some f \<Rightarrow>
          (case CreateOwner (v_owner V) (v_now V) (v_uuid V) (f ''email'') (f ''password'') (f ''role'') (own st) of
             (a, Inl e) \<Rightarrow> (st\<lparr>own := a\<rparr>, writeOwnerAuthError e)
           | (a, Inr o') \<Rightarrow>
               (case cx_owner c of
                  None \<Rightarrow> (st\<lparr>own := a\<rparr>, Panicked)
                | Some actor \<Rightarrow>
                    (audit_note V EventOwnerCreate (owner_party actor) (owner_party o')
                       (Some [''role'' \<mapsto> MText (own_role o')]) (st\<lparr>own := a\<rparr>),
                     reply 201 (BOwner (owner_json o'))))))"

definition handleDeleteOwner :: "string \<Rightarrow> 'fs handler" where
  "handleDeleteOwner i V c r st =
     (case DeleteOwner (v_owner V) i (own st) of
        (a, Inl e) \<Rightarrow> (st\<lparr>own := a\<rparr>, writeOwnerAuthError e)
      | (a, Inr deleted) \<Rightarrow>
          (case cx_owner c of
             None \<Rightarrow> (st\<lparr>own := a\<rparr>, Panicked)
           | Some actor \<Rightarrow>
               (audit_note V EventOwnerDelete (owner_party actor) (owner_party deleted)
                  (Some [''role'' \<mapsto> MText (own_role deleted)]) (st\<lparr>own := a\<rparr>),
                reply 204 BNone)))"

definition parseAuditPagination :: "http_req \<Rightarrow> message + int \<times> int" where
  "parseAuditPagination r =
     (let v = query_get r ''limit'';
          lim = (if v = [] then Inr 50
                 else case Atoi v of
                        None \<Rightarrow> Inl (BadLimit v)
                      | Some n \<Rightarrow> if n \<le> 0 then Inl (BadLimit v)
                                  else if n > 200 then Inl (LimitExceeds n) else Inr n)
      in case lim of
           Inl e \<Rightarrow> Inl e
         | Inr limit \<Rightarrow>
             (let w = query_get r ''offset''
              in if w = [] then Inr (limit, 0)
                 else case Atoi w of
                        None \<Rightarrow> Inl (BadOffset w)
                      | Some n \<Rightarrow> if n < 0 then Inl (BadOffset w) else Inr (limit, n)))"

definition handleListAuditLog :: "'fs handler" where
  "handleListAuditLog V c r st =
     (case parseAuditPagination r of
        Inl e \<Rightarrow> (st, reply 400 (BMessage e))
      | Inr (limit, offset) \<Rightarrow>
          (case ListAudit (v_audit V) limit offset (trail st) of
             None \<Rightarrow> (st, reply 500 (BText ''internal error''))
           | Some es \<Rightarrow> (st, reply 200 (BAudit es))))"

definition requireOwnerRole :: "Role \<Rightarrow> 'fs handler \<Rightarrow> 'fs handler" where
  "requireOwnerRole least nxt V c r st =
     (case cookie_of r OwnerSessionCookieName of
        None \<Rightarrow> (st, unauthorized)
      | Some token \<Rightarrow>
          (case ownerValidateSession (v_owner V) (v_now V) token (own st) of
             Inl _ \<Rightarrow> (st, unauthorized)
           | Inr o' \<Rightarrow>
               if \<not> AtLeast (own_role o') least then (st, reply 403 (BError ''insufficient role''))
               else nxt V (c\<lparr>cx_owner := Some o'\<rparr>) r st))"

definition handlePurgeSessions :: "'fs handler" where
  "handlePurgeSessions V c r st =
     (case PurgeExpiredSessions (v_auth V) (v_now V) (acct st) of
        (a, Inl _) \<Rightarrow> (st\<lparr>acct := a\<rparr>, internal)
      | (a, Inr n) \<Rightarrow>
          (case ownerPurgeExpired (v_owner V) (v_now V) (own st) of
             (b, Inl _) \<Rightarrow> (st\<lparr>acct := a, own := b\<rparr>, internal)
           | (b, Inr m) \<Rightarrow>
               (case PurgeExpiredResetTokens (v_auth V) (v_now V) a of
                  (a', Inl _) \<Rightarrow> (st\<lparr>acct := a', own := b\<rparr>, internal)
                | (a', Inr k) \<Rightarrow>
                    (audit_note V EventSessionsPurged (case cx_owner c of None \<Rightarrow> nobody | Some o' \<Rightarrow> owner_party o') nobody
                       (Some [''sessions'' \<mapsto> MCount n, ''owner_sessions'' \<mapsto> MCount m, ''reset_tokens'' \<mapsto> MCount k])
                       (st\<lparr>acct := a', own := b\<rparr>),
                     reply 200 (BPurged n m k)))))"


section \<open>Throttling and routes\<close>

text \<open>\<^verbatim>\<open>net.SplitHostPort\<close>, of which only the host is used.\<close>

definition last_colon :: "string \<Rightarrow> nat option" where
  "last_colon s = (if CHR '':'' \<in> set s then Some (length s - Suc (length (takeWhile (\<lambda>x. x \<noteq> CHR '':'') (rev s)))) else None)"

definition SplitHost :: "string \<Rightarrow> string option" where
  "SplitHost s =
     (case last_colon s of
        None \<Rightarrow> None
      | Some i \<Rightarrow>
          if take 1 s = ''[''
          then (let e = length (takeWhile (\<lambda>x. x \<noteq> CHR '']'') s)
                in if e \<ge> length s \<or> e + 1 \<noteq> i then None
                   else if CHR ''['' \<in> set (drop 1 s) \<or> CHR '']'' \<in> set (drop (e + 1) s) then None
                   else Some (take (e - 1) (drop 1 s)))
          else if CHR '':'' \<in> set (take i s) \<or> CHR ''['' \<in> set s \<or> CHR '']'' \<in> set s then None
          else Some (take i s))"

definition clientIP :: "http_req \<Rightarrow> string" where
  "clientIP r = (case SplitHost (hq_remote r) of None \<Rightarrow> hq_remote r | Some h \<Rightarrow> h)"

definition too_many :: "int \<Rightarrow> string \<Rightarrow> outcome" where
  "too_many retry msg = reply 429 (BRetryAfter retry msg)"

definition rateLimitLogin :: "'fs handler \<Rightarrow> 'fs handler" where
  "rateLimitLogin nxt V c r st =
     (case rateLimitMiddleware (clientIP r) (v_now V) (loginLimiter st) of
        (l, Forward) \<Rightarrow> nxt V c r (st\<lparr>loginLimiter := l\<rparr>)
      | (l, TooManyRequests n) \<Rightarrow> (st\<lparr>loginLimiter := l\<rparr>, too_many n ''too many login attempts''))"

definition rateLimitRegister :: "'fs handler \<Rightarrow> 'fs handler" where
  "rateLimitRegister nxt V c r st =
     (case rateLimitMiddleware (clientIP r) (v_now V) (registerLimiter st) of
        (l, Forward) \<Rightarrow> nxt V c r (st\<lparr>registerLimiter := l\<rparr>)
      | (l, TooManyRequests n) \<Rightarrow> (st\<lparr>registerLimiter := l\<rparr>, too_many n ''too many registration attempts''))"

definition rateLimitOwnerLogin :: "'fs handler \<Rightarrow> 'fs handler" where
  "rateLimitOwnerLogin nxt V c r st =
     (case rateLimitMiddleware (clientIP r) (v_now V) (ownerLoginLimiter st) of
        (l, Forward) \<Rightarrow> nxt V c r (st\<lparr>ownerLoginLimiter := l\<rparr>)
      | (l, TooManyRequests n) \<Rightarrow>
          (audit_note V EventLoginRateLimited nobody nobody (Some [''client_ip'' \<mapsto> MText (clientIP r)])
             (st\<lparr>ownerLoginLimiter := l\<rparr>), too_many n ''too many login attempts''))"

text \<open>The routes of the server's own handlers. The mounted sub-servers are the other theories' subject.\<close>

datatype route =
    PostSignup | PostLogin | PostLogout | PostForgotPassword | PostResetPassword
  | GetSocial string | GetSocialCallback string
  | GetMe | GetExport | DeleteMe | GetConsents | DeleteConsent string
  | PostOwnerLogin | PostOwnerLogout | GetOwnerMe | GetOwners | PostOwner | DeleteOwnerRoute string
  | GetAuditLog | PostPurgeSessions | GetHealthz

fun endpoint :: "route \<Rightarrow> 'fs handler" where
  "endpoint PostSignup = handleSignUp"
| "endpoint PostLogin = rateLimitLogin handleLogin"
| "endpoint PostLogout = handleLogout"
| "endpoint PostForgotPassword = rateLimitLogin handleForgotPassword"
| "endpoint PostResetPassword = rateLimitLogin handleResetPassword"
| "endpoint (GetSocial p) = rateLimitLogin (handleSocialStart p)"
| "endpoint (GetSocialCallback p) = handleSocialCallback p"
| "endpoint GetMe = requireAuth handleMe"
| "endpoint GetExport = requireAuth handleExportAccount"
| "endpoint DeleteMe = requireAuth handleDeleteAccount"
| "endpoint GetConsents = requireAuth handleListConsents"
| "endpoint (DeleteConsent cid) = requireAuth (handleRevokeConsent cid)"
| "endpoint PostOwnerLogin = rateLimitOwnerLogin handleOwnerLogin"
| "endpoint PostOwnerLogout = handleOwnerLogout"
| "endpoint GetOwnerMe = requireOwnerRole ''viewer'' handleOwnerMe"
| "endpoint GetOwners = requireOwnerRole ''admin'' handleListOwners"
| "endpoint PostOwner = requireOwnerRole ''admin'' (requireOwnerRole ''owner'' handleCreateOwner)"
| "endpoint (DeleteOwnerRoute i) = requireOwnerRole ''admin'' (requireOwnerRole ''owner'' (handleDeleteOwner i))"
| "endpoint GetAuditLog = requireOwnerRole ''admin'' handleListAuditLog"
| "endpoint PostPurgeSessions = requireOwnerRole ''admin'' handlePurgeSessions"
| "endpoint GetHealthz = (\<lambda>V c r st. (st, reply 200 (BText ''ok'')))"

definition serve :: "route \<Rightarrow> 'fs venv \<Rightarrow> http_req \<Rightarrow> 'fs state \<Rightarrow> 'fs state \<times> outcome" where
  "serve rt V r st = endpoint rt V \<lparr>cx_user = None, cx_owner = None\<rparr> r st"

section \<open>Every request is a run of component steps\<close>

text \<open>The identifiers a request draws for an account.\<close>

definition drawn :: "'fs venv \<Rightarrow> string set" where
  "drawn V = {v_uuid V, d_user (v_draws V)}"

text \<open>
  A property of the server's state that the components' own steps keep. What the middleware and the
  handlers do is built from those steps, so every request keeps it. \<open>N\<close> holds the identifiers that new
  accounts may get; a grant may only be stored for a subject that has one or for an account.
\<close>

locale server_invariant =
  fixes I :: "'fs state \<Rightarrow> bool" and N :: "string set"
  assumes acct_step: "I st \<Longrightarrow> auth_step E (acct st) a \<Longrightarrow> set (account_ids a) \<subseteq> set (account_ids (acct st)) \<union> N
      \<Longrightarrow> I (st\<lparr>acct := a\<rparr>)"
    and own_step: "I st \<Longrightarrow> owner_step W (own st) b \<Longrightarrow> I (st\<lparr>own := b\<rparr>)"
    and oau_step: "I st \<Longrightarrow> grant_subjects w \<subseteq> grant_subjects (oau st) \<union> set (account_ids (acct st)) \<Longrightarrow> I (st\<lparr>oau := w\<rparr>)"
    and rest_step: "I st \<Longrightarrow> I (st\<lparr>rest := d\<rparr>)"
    and erase_step: "I st \<Longrightarrow> I (st\<lparr>stor := fst (DeleteOwnedFiles B F q u (stor st))\<rparr>)"
    and cascade_step: "I st \<Longrightarrow> I (st\<lparr>stor := (stor st)\<lparr>files := filter P (files (stor st))\<rparr>\<rparr>)"
    and audit_step: "I st \<Longrightarrow> I (audit_note V ev p g md st)"
    and mail_step: "I st \<Longrightarrow> I (st\<lparr>outbox := m\<rparr>)"
    and login_limiter: "I st \<Longrightarrow> I (st\<lparr>loginLimiter := l\<rparr>)"
    and owner_limiter: "I st \<Longrightarrow> I (st\<lparr>ownerLoginLimiter := l\<rparr>)"
    and register_limiter: "I st \<Longrightarrow> I (st\<lparr>registerLimiter := l\<rparr>)"
    and upload_step: "I st \<Longrightarrow> I (st\<lparr>stor := fst (handleUpload B F u body (stor st))\<rparr>)"
    and remove_step: "I st \<Longrightarrow> I (st\<lparr>stor := fst (handleFileDelete B F u i (stor st))\<rparr>)"
begin

lemma acct_result:
  "I st \<Longrightarrow> auth_step E (acct st) (fst x) \<Longrightarrow> set (account_ids (fst x)) \<subseteq> set (account_ids (acct st)) \<union> N \<Longrightarrow> x = (a, res)
    \<Longrightarrow> I (st\<lparr>acct := a\<rparr>)"
  using acct_step by simp

lemma oau_old: "I st \<Longrightarrow> grant_subjects w \<subseteq> grant_subjects (oau st) \<Longrightarrow> I (st\<lparr>oau := w\<rparr>)"
  using oau_step by blast

lemma own_result: "I st \<Longrightarrow> owner_step W (own st) (fst x) \<Longrightarrow> x = (b, res) \<Longrightarrow> I (st\<lparr>own := b\<rparr>)"
  using own_step by simp

lemma keeps_SignUp: "I st \<Longrightarrow> v_uuid V \<in> N \<Longrightarrow> I (fst (handleSignUp V c r st))"
proof (cases "decodeJSON [''email'', ''password''] r")
  case (Some f)
  assume i: "I st" and n: "v_uuid V \<in> N"
  obtain a res where s: "SignUp (v_auth V) (v_now V) (v_uuid V) (f ''email'') (f ''password'') (acct st) = (a, res)" by fastforce
  have a: "I (st\<lparr>acct := a\<rparr>)" using acct_result [OF i auth_step.intros(1) account_ids_new(1) [OF n] s] .
  show ?thesis
  proof (cases res)
    case (Inr u)
    let ?st1 = "audit_note V EventCustomerSignup (user_party u) (user_party u) None (st\<lparr>acct := a\<rparr>)"
    obtain a' res' where l: "Login (v_auth V) (v_now V) (v_token V) (v_session_id V) (f ''email'') (f ''password'') (acct ?st1) = (a', res')" by fastforce
    have "I (?st1\<lparr>acct := a'\<rparr>)" using acct_result [OF audit_step [OF a] auth_step.intros(2) account_ids_old(1) l] .
    with Some s Inr l show ?thesis by (cases res') (simp_all add: handleSignUp_def Let_def)
  qed (use Some s a in \<open>simp add: handleSignUp_def\<close>)
qed (simp add: handleSignUp_def)

lemma keeps_Login: "I st \<Longrightarrow> I (fst (handleLogin V c r st))"
proof (cases "decodeJSON [''email'', ''password''] r")
  case (Some f)
  assume i: "I st"
  obtain a res where s: "Login (v_auth V) (v_now V) (v_token V) (v_session_id V) (f ''email'') (f ''password'') (acct st) = (a, res)" by fastforce
  have "I (st\<lparr>acct := a\<rparr>)" using acct_result [OF i auth_step.intros(2) account_ids_old(1) s] .
  with Some s show ?thesis by (cases res) (simp_all add: handleLogin_def audit_step)
qed (simp add: handleLogin_def)

lemma keeps_Forgot: "I st \<Longrightarrow> I (fst (handleForgotPassword V c r st))"
proof (cases "decodeJSON [''email''] r")
  case (Some f)
  assume i: "I st"
  obtain a res where s: "CreateResetToken (v_auth V) (v_now V) (v_token V) (v_uuid V) (f ''email'') (acct st) = (a, res)" by fastforce
  have "I (st\<lparr>acct := a\<rparr>)" using acct_result [OF i auth_step.intros(8) account_ids_old(6) s] .
  with Some s show ?thesis
    by (auto simp: handleForgotPassword_def Let_def audit_step mail_step split: sum.split option.split)
qed (simp add: handleForgotPassword_def)

lemma keeps_Reset: "I st \<Longrightarrow> I (fst (handleResetPassword V c r st))"
proof (cases "decodeJSON [''token'', ''password''] r")
  case (Some f)
  assume i: "I st"
  obtain a res where s: "ResetPassword (v_auth V) (v_now V) (f ''token'') (f ''password'') (acct st) = (a, res)" by fastforce
  have "I (st\<lparr>acct := a\<rparr>)" using acct_result [OF i auth_step.intros(9) account_ids_old(7) s] .
  with Some s show ?thesis
    by (auto simp: handleResetPassword_def Let_def audit_step oau_old grant_subjects_RevokeForSubject split: sum.split)
qed (simp add: handleResetPassword_def)

lemma keeps_Logout: "I st \<Longrightarrow> I (fst (handleLogout V c r st))"
  using acct_step [OF _ auth_step.intros(3) account_ids_old(2)] audit_step
  by (auto simp: handleLogout_def Let_def split: sum.split)

lemma keeps_SocialStart: "I st \<Longrightarrow> I (fst (handleSocialStart p V c r st))"
  by (auto simp: handleSocialStart_def split: option.split)

lemma keeps_SocialCallback: "I st \<Longrightarrow> d_user (v_draws V) \<in> N \<Longrightarrow> I (fst (handleSocialCallback p V c r st))"
proof -
  assume i: "I st" and n: "d_user (v_draws V) \<in> N"
  have a: "I (st\<lparr>acct := a\<rparr>)"
    if "LoginOrCreateViaSocial (v_auth V) (v_now V) (v_draws V) n x e cur (acct st) = (a, res)" for n x e cur a res
    using acct_result [OF i auth_step.intros(10) account_ids_new(2) [OF n] that] .
  with i show ?thesis
    by (auto simp: handleSocialCallback_def Let_def audit_step split: option.split sum.split prod.split)
qed

lemma keeps_reads:
  "I st \<Longrightarrow> I (fst (handleMe V c r st))" "I st \<Longrightarrow> I (fst (handleExportAccount V c r st))"
  "I st \<Longrightarrow> I (fst (handleListConsents V c r st))" "I st \<Longrightarrow> I (fst (handleOwnerMe V c r st))"
  "I st \<Longrightarrow> I (fst (handleListOwners V c r st))" "I st \<Longrightarrow> I (fst (handleListAuditLog V c r st))"
  by (auto simp: handleMe_def handleExportAccount_def handleListConsents_def handleOwnerMe_def handleListOwners_def
      handleListAuditLog_def split: option.split sum.split)

lemma keeps_RevokeConsent: "I st \<Longrightarrow> I (fst (handleRevokeConsent cid V c r st))"
  using oau_old [OF _ grant_subjects_RevokeConsent]
  by (fastforce simp: handleRevokeConsent_def split: option.split sum.split prod.split dest: arg_cong [of _ _ fst])

lemma keeps_delete_user: "I st \<Longrightarrow> I (fst (delete_user V i st))"
proof -
  assume "I st"
  obtain a res where s: "DeleteUser (v_auth V) i (acct st) = (a, res)" by fastforce
  have a: "I (st\<lparr>acct := a\<rparr>)" using acct_result [OF \<open>I st\<close> auth_step.intros(4) account_ids_old(8) s] .
  have "cascade_user i st' = (st'\<lparr>oau := (oau st')\<lparr>consents := filter (\<lambda>x. cs_user x \<noteq> i) (consents (oau st'))\<rparr>\<rparr>)
      \<lparr>stor := (stor st')\<lparr>files := filter (\<lambda>m. f_owner m \<noteq> i) (files (stor st'))\<rparr>\<rparr>" for st' :: "'fs state"
    by (simp add: cascade_user_def)
  then have "I (cascade_user i st')" if "I st'" for st'
    using cascade_step [OF oau_old [OF that]] by (simp add: grant_subjects_def)
  with a s show ?thesis by (auto simp: delete_user_def split: sum.split)
qed

lemma keeps_stages:
  assumes "I st" and "DeleteOwnedFiles B F q u (stor st) = (s, ok)" and "RevokeForSubject bad u (oau st) = (w, y)"
    and "delete_user V i (st\<lparr>rest := d, stor := s, oau := w\<rparr>) = (st', z)"
  shows "I (st\<lparr>rest := d\<rparr>)" "I (st\<lparr>rest := d, stor := s\<rparr>)" "I (st\<lparr>rest := d, stor := s, oau := w\<rparr>)" "I st'"
proof -
  show 1: "I (st\<lparr>rest := d\<rparr>)" using rest_step [OF assms(1)] .
  show "I (st\<lparr>rest := d, stor := s\<rparr>)" using erase_step [OF 1, of B F q u] assms(2) by simp
  then show "I (st\<lparr>rest := d, stor := s, oau := w\<rparr>)" 
    using oau_old [of "st\<lparr>rest := d, stor := s\<rparr>" w] grant_subjects_RevokeForSubject [of bad u "oau st"] assms(3) by simp
  then show "I st'" using keeps_delete_user [of _ V i] assms(4) by (metis fst_conv)
qed

lemma keeps_DeleteAccount: "I st \<Longrightarrow> I (fst (handleDeleteAccount V c r st))"
proof (cases "cx_user c")
  case (Some u)
  assume i: "I st"
  obtain d x where d: "DeleteOwned (v_engine V) (v_server V) (user_id u) (rest st) = (d, x)" by fastforce
  obtain s ok where s: "DeleteOwnedFiles (v_backend V) (v_file V) (v_remove V) (user_id u) (stor st) = (s, ok)" by fastforce
  obtain w y where w: "RevokeForSubject (v_oauth V) (user_id u) (oau st) = (w, y)" by fastforce
  obtain st' z where z: "delete_user V (user_id u) (st\<lparr>rest := d, stor := s, oau := w\<rparr>) = (st', z)" by fastforce
  show ?thesis
    unfolding handleDeleteAccount_def Some option.case d s w z prod.case
    using keeps_stages [OF i s w z] by (cases x; cases ok; cases y; cases z) (simp_all add: z audit_step)
qed (simp add: handleDeleteAccount_def)

lemma keeps_OwnerLogin: "I st \<Longrightarrow> I (fst (handleOwnerLogin V c r st))"
proof (cases "decodeJSON [''email'', ''password''] r")
  case (Some f)
  assume i: "I st"
  obtain a res where s: "ownerLogin (v_owner V) (v_now V) (v_token V) (v_session_id V) (f ''email'') (f ''password'') (own st) = (a, res)" by fastforce
  have "I (st\<lparr>own := a\<rparr>)" using own_result [OF i owner_step.login s] .
  with Some s show ?thesis by (cases res) (simp_all add: handleOwnerLogin_def audit_step)
qed (simp add: handleOwnerLogin_def)

lemma keeps_OwnerLogout: "I st \<Longrightarrow> I (fst (handleOwnerLogout V c r st))"
  using own_step [OF _ owner_step.logout] audit_step
  by (auto simp: handleOwnerLogout_def Let_def split: sum.split option.split)

lemma keeps_CreateOwner: "I st \<Longrightarrow> owner_users (own st) \<noteq> [] \<Longrightarrow> I (fst (handleCreateOwner V c r st))"
proof (cases "decodeJSON [''email'', ''password'', ''role''] r")
  case (Some f)
  assume i: "I st" and ne: "owner_users (own st) \<noteq> []"
  obtain a res where s: "CreateOwner (v_owner V) (v_now V) (v_uuid V) (f ''email'') (f ''password'') (f ''role'') (own st) = (a, res)" by fastforce
  have "I (st\<lparr>own := a\<rparr>)" using own_result [OF i owner_step.create [OF ne] s] .
  with Some s show ?thesis by (auto simp: handleCreateOwner_def audit_step split: sum.split option.split)
qed (simp add: handleCreateOwner_def)

lemma keeps_DeleteOwner: "I st \<Longrightarrow> I (fst (handleDeleteOwner i V c r st))"
proof -
  assume i: "I st"
  obtain a res where s: "DeleteOwner (v_owner V) i (own st) = (a, res)" by fastforce
  have "I (st\<lparr>own := a\<rparr>)" using own_result [OF i owner_step.delete s] .
  with s show ?thesis by (auto simp: handleDeleteOwner_def audit_step split: sum.split option.split)
qed

lemma keeps_Purge: "I st \<Longrightarrow> I (fst (handlePurgeSessions V c r st))"
proof -
  assume i: "I st"
  obtain a x where a: "PurgeExpiredSessions (v_auth V) (v_now V) (acct st) = (a, x)" by fastforce
  obtain b y where b: "ownerPurgeExpired (v_owner V) (v_now V) (own st) = (b, y)" by fastforce
  obtain a' z where a': "PurgeExpiredResetTokens (v_auth V) (v_now V) a = (a', z)" by fastforce
  have 1: "I (st\<lparr>acct := a\<rparr>)" using acct_result [OF i auth_step.intros(6) account_ids_old(4) a] .
  have 2: "I (st\<lparr>acct := a, own := b\<rparr>)"
    using own_step [OF 1, of "v_owner V" b] owner_step.purge [of "v_owner V" "own st" "v_now V"] b by simp
  have 3: "I (st\<lparr>acct := a', own := b\<rparr>)"
    using acct_step [OF 2, of "v_auth V" a'] auth_step.intros(7) [of "v_auth V" a "v_now V"] a' account_ids_same(5) [of "v_auth V" "v_now V" a]
    by (cases st) simp
  show ?thesis
    using 1 2 3 by (cases x; cases y; cases z) (simp_all add: handlePurgeSessions_def a b a' audit_step)
qed

end

lemma requireOwnerRole_cases:
  obtains (refused) code body where "requireOwnerRole least nxt V c r st = (st, reply code body)" "code \<in> {401, 403}"
      "\<nexists>tok o'. cookie_of r OwnerSessionCookieName = Some tok \<and> ownerValidateSession (v_owner V) (v_now V) tok (own st) = Inr o'
         \<and> AtLeast (own_role o') least"
  | (passed) tok o' where "cookie_of r OwnerSessionCookieName = Some tok"
      "ownerValidateSession (v_owner V) (v_now V) tok (own st) = Inr o'" "AtLeast (own_role o') least"
      "requireOwnerRole least nxt V c r st = nxt V (c\<lparr>cx_owner := Some o'\<rparr>) r st"
proof (cases "\<exists>tok o'. cookie_of r OwnerSessionCookieName = Some tok
    \<and> ownerValidateSession (v_owner V) (v_now V) tok (own st) = Inr o' \<and> AtLeast (own_role o') least")
  case True
  then show ?thesis using passed by (auto simp: requireOwnerRole_def)
next
  case False
  consider "cookie_of r OwnerSessionCookieName = None"
    | tok e where "cookie_of r OwnerSessionCookieName = Some tok" "ownerValidateSession (v_owner V) (v_now V) tok (own st) = Inl e"
    | tok o' where "cookie_of r OwnerSessionCookieName = Some tok" "ownerValidateSession (v_owner V) (v_now V) tok (own st) = Inr o'"
    by (metis not_Some_eq sum.exhaust)
  then show ?thesis
  proof cases
    case 3
    then have "\<not> AtLeast (own_role o') least" using False by blast
    with 3 show ?thesis by (intro refused [OF _ _ False, of 403]) (auto simp: requireOwnerRole_def)
  qed (rule refused [OF _ _ False, of 401], auto simp: requireOwnerRole_def)+
qed

lemma requireAuth_cases:
  obtains (refused) "requireAuth nxt V c r st = (st, unauthorized)"
      "sessionTokenFromRequest r = [] \<or> (\<nexists>u. ValidateSession (v_auth V) (v_now V) (sessionTokenFromRequest r) (acct st) = Inr u)"
  | (passed) u where "ValidateSession (v_auth V) (v_now V) (sessionTokenFromRequest r) (acct st) = Inr u"
      "requireAuth nxt V c r st = nxt V (c\<lparr>cx_user := Some u\<rparr>) r st"
proof (cases "sessionTokenFromRequest r = []")
  case True
  then show ?thesis by (intro refused) (simp_all add: requireAuth_def)
next
  case False
  then show ?thesis
    using refused passed by (cases "ValidateSession (v_auth V) (v_now V) (sessionTokenFromRequest r) (acct st)") (auto simp: requireAuth_def)
qed

lemma owner_session_owner: "ownerValidateSession W now tok st = Inr o' \<Longrightarrow> o' \<in> set (owner_users st)"
  by (auto simp: ownerValidateSession_def dest: owner_by_id_id split: if_splits option.splits)

lemma owner_session_some: "ownerValidateSession W now tok st = Inr o' \<Longrightarrow> owner_users st \<noteq> []"
  using owner_session_owner by fastforce

context server_invariant
begin

lemma keeps_rateLimitLogin:
  "(\<And>st'. I st' \<Longrightarrow> I (fst (nxt V c r st'))) \<Longrightarrow> I st \<Longrightarrow> I (fst (rateLimitLogin nxt V c r st))"
  by (auto simp: rateLimitLogin_def login_limiter split: prod.split verdict.split)

lemma keeps_rateLimitOwnerLogin:
  "(\<And>st'. I st' \<Longrightarrow> I (fst (nxt V c r st'))) \<Longrightarrow> I st \<Longrightarrow> I (fst (rateLimitOwnerLogin nxt V c r st))"
  by (auto simp: rateLimitOwnerLogin_def owner_limiter audit_step split: prod.split verdict.split)

lemma keeps_requireAuth:
  "(\<And>c. I (fst (nxt V c r st))) \<Longrightarrow> I st \<Longrightarrow> I (fst (requireAuth nxt V c r st))"
  by (cases rule: requireAuth_cases [where nxt = nxt and V = V and c = c and r = r and st = st]) auto

lemma keeps_requireOwnerRole:
  "(\<And>c. owner_users (own st) \<noteq> [] \<Longrightarrow> I (fst (nxt V c r st))) \<Longrightarrow> I st \<Longrightarrow> I (fst (requireOwnerRole least nxt V c r st))"
  by (cases rule: requireOwnerRole_cases [where nxt = nxt and V = V and c = c and r = r and st = st and least = least]) (simp, metis owner_session_some)

lemmas keeps_handlers =
  keeps_SignUp keeps_Login keeps_Forgot keeps_Reset keeps_Logout keeps_SocialStart keeps_SocialCallback keeps_reads
  keeps_RevokeConsent keeps_DeleteAccount keeps_OwnerLogin keeps_OwnerLogout keeps_CreateOwner keeps_DeleteOwner keeps_Purge

lemma keeps_endpoint: "I st \<Longrightarrow> drawn V \<subseteq> N \<Longrightarrow> I (fst (endpoint rt V c r st))"
  by (cases rt) (simp_all add: drawn_def keeps_rateLimitLogin keeps_rateLimitOwnerLogin keeps_requireAuth keeps_requireOwnerRole keeps_handlers)

lemma keeps_serve: "I st \<Longrightarrow> drawn V \<subseteq> N \<Longrightarrow> I (fst (serve rt V r st))"
  by (simp add: serve_def keeps_endpoint)

end

lemma delete_files_filter: "\<exists>P. files (fst (delete_files B E fsf ids st)) = filter P (files st)"
proof (induction ids arbitrary: st)
  case Nil
  show ?case by (intro exI [of _ "\<lambda>_. True"]) simp
next
  case (Cons i ids)
  obtain b ok where d: "File_Storage.Delete B (fsf i) i (blobs st) = (b, ok)" by fastforce
  obtain P where P: "files (fst (delete_files B E fsf ids (drop_row i (st\<lparr>blobs := b\<rparr>)))) = filter P (files (drop_row i (st\<lparr>blobs := b\<rparr>)))"
    using Cons.IH by blast
  show ?case
  proof (cases "ok \<and> \<not> f_fails E (FDelete i)")
    case True
    with d P show ?thesis by (intro exI [of _ "\<lambda>m. f_id m \<noteq> i \<and> P m"]) (simp add: drop_row_def conj_commute)
  next
    case False
    with d show ?thesis by (intro exI [of _ "\<lambda>_. True"]) (auto split: bool.split)
  qed
qed

lemma DeleteOwnedFiles_unique: "ids_unique st \<Longrightarrow> ids_unique (fst (DeleteOwnedFiles B E fsf u st))"
proof -
  assume "ids_unique st"
  moreover obtain P where "files (fst (delete_files B E fsf (owned_ids u st) st)) = filter P (files st)"
    using delete_files_filter by blast
  ultimately show ?thesis by (simp add: DeleteOwnedFiles_def distinct_map_filter)
qed

lemma handleUpload_unique: "ids_unique st \<Longrightarrow> ids_unique (fst (handleUpload B E u body st))"
  by (auto simp: handleUpload_def Let_def split: option.split prod.split sum.split if_split)

lemma handleFileDelete_unique: "ids_unique st \<Longrightarrow> ids_unique (fst (handleFileDelete B E u i st))"
  by (auto simp: handleFileDelete_def drop_row_def distinct_map_filter split: sum.split prod.split bool.split if_split)

text \<open>
  The states the server can be in: both identity planes reached by their own operations, unique
  identifiers in the tables of files and of audit entries.
\<close>

definition sound :: "'fs state \<Rightarrow> bool" where
  "sound st \<longleftrightarrow> auth_reach (acct st) \<and> owner_reach (own st) \<and> audit_ok (trail st) \<and> ids_unique (stor st)"

definition extends :: "audit_table \<Rightarrow> 'fs state \<Rightarrow> bool" where
  "extends t st \<longleftrightarrow> (\<exists>new. trail st = t @ new)"

lemma audit_note_simps [simp]:
  "acct (audit_note V ev p g md st) = acct st" "own (audit_note V ev p g md st) = own st" "oau (audit_note V ev p g md st) = oau st"
  "rest (audit_note V ev p g md st) = rest st" "stor (audit_note V ev p g md st) = stor st" "outbox (audit_note V ev p g md st) = outbox st"
  "trail (audit_note V ev p g md st) = RecordLogged (v_audit V) ev p g md (trail st)"
  "loginLimiter (audit_note V ev p g md st) = loginLimiter st" "ownerLoginLimiter (audit_note V ev p g md st) = ownerLoginLimiter st"
  "registerLimiter (audit_note V ev p g md st) = registerLimiter st"
  by (simp_all add: audit_note_def)

interpretation reached: server_invariant sound UNIV
  by unfold_locales
    (auto simp: sound_def distinct_map_filter intro: auth_reach.step owner_reach.next_step audit_ok_RecordLogged DeleteOwnedFiles_unique
      handleUpload_unique handleFileDelete_unique)

interpretation grows: server_invariant "extends t" UNIV for t
proof unfold_locales
  fix st :: "'a state" and V ev p g md
  assume "extends t st"
  then show "extends t (audit_note V ev p g md st)"
    using RecordLogged_prefix [of "v_audit V" ev p g md "trail st"] by (auto simp: extends_def)
qed (auto simp: extends_def)

end
