(* ===== verification/Server_Properties.thy ===== *)
theory Server_Properties
  imports Server_Handlers
begin

text \<open>
  What the server promises as a whole: requests keep the components' states reachable and the audit
  trail growing, the guards of the two planes, the audit of owner changes, password reset across mail,
  sessions and OAuth grants, and the erasure of an account from every component.
\<close>

section \<open>A sample deployment\<close>

definition demo_env :: "dir venv" where
  "demo_env =
     \<lparr>v_now = 0, v_auth = Auth_Service.calm plain_crypto, v_owner = owner_calm plain_crypto, v_oauth = (\<lambda>_. False),
      v_engine = lite (\<lambda>_. False), v_server = journal_server, v_backend = LocalBackend 0, v_file = file_env_example,
      v_remove = (\<lambda>_. calm_fs),
      v_audit = \<lparr>au_uuid = ''e1'', au_now = 0, au_insert_fails = False, au_list_fails = False\<rparr>,
      v_sender = FakeSender, v_reset_url = ''https://x/reset'', v_providers = [], v_social_redirect = ''/'',
      v_uuid = ''n1'', v_session_id = ''s9'', v_token = Some ''t9'', v_draws = some_draws, v_state = Some ''st''\<rparr>"

definition demo_state :: "dir state" where
  "demo_state =
     \<lparr>acct = empty_auth, own = no_owners, oau = consent_example, rest = journal_state None, stor = no_files, trail = [],
      outbox = [], loginLimiter = New 0 0, registerLimiter = New 0 0, ownerLoginLimiter = New 0 0\<rparr>"

definition blank_req :: http_req where
  "blank_req = \<lparr>hq_remote = ''1.2.3.4:5'', hq_authorization = [], hq_cookies = [], hq_query = [], hq_json = None\<rparr>"


section \<open>Runs of requests\<close>

fun serve_run :: "(route \<times> 'fs venv \<times> http_req) list \<Rightarrow> 'fs state \<Rightarrow> 'fs state" where
  "serve_run [] st = st"
| "serve_run ((rt, V, r) # xs) st = serve_run xs (fst (serve rt V r st))"

lemma serve_run_sound: "sound st \<Longrightarrow> sound (serve_run xs st)"
  by (induction xs st rule: serve_run.induct) (simp_all add: reached.keeps_serve)

lemma serve_run_extends: "extends t st \<Longrightarrow> extends t (serve_run xs st)"
  by (induction xs st rule: serve_run.induct) (simp_all add: grows.keeps_serve)

text \<open>
  Whatever requests the server answers, in whatever order and with whatever failures, both
  identity planes stay in states their own operations reach (so what holds of those holds of the
  running server), the identifiers of files and audit entries stay unique, and no audit entry is
  ever changed, moved or removed: the trail only grows at its end.
\<close>

theorem requests_keep_server_sound:
  assumes "sound st"
  shows "sound (serve_run xs st) \<and> auth_ok (acct (serve_run xs st)) \<and> owners_ok (own (serve_run xs st))
    \<and> (\<exists>new. trail (serve_run xs st) = trail st @ new)"
proof -
  have "sound (serve_run xs st)" by (rule serve_run_sound [OF assms])
  moreover have "extends (trail st) (serve_run xs st)" by (rule serve_run_extends) (simp add: extends_def)
  ultimately show ?thesis by (simp add: sound_def extends_def auth_reach_ok owner_reach_ok)
qed

lemma demo_sound: "sound demo_state"
  by (simp add: sound_def demo_state_def auth_reach.init owner_reach.start audit_ok_def no_files_def)

theorem requests_keep_server_sound_witness:
  "sound (serve_run [(PostLogin, demo_env, blank_req\<lparr>hq_json := Some [(''email'', MemString ''a@b.c''), (''password'', MemString ''x'')]\<rparr>),
     (PostLogout, demo_env, blank_req)] demo_state)"
  using requests_keep_server_sound [OF demo_sound] by blast


section \<open>The guards\<close>

fun required_role :: "route \<Rightarrow> Role option" where
  "required_role GetOwnerMe = Some ''viewer''"
| "required_role GetOwners = Some ''admin''"
| "required_role GetAuditLog = Some ''admin''"
| "required_role PostPurgeSessions = Some ''admin''"
| "required_role PostOwner = Some ''owner''"
| "required_role (DeleteOwnerRoute i) = Some ''owner''"
| "required_role _ = None"

fun personal :: "route \<Rightarrow> bool" where
  "personal GetMe = True" | "personal GetExport = True" | "personal DeleteMe = True"
| "personal GetConsents = True" | "personal (DeleteConsent cid) = True" | "personal _ = False"

definition signed_in_owner :: "'fs venv \<Rightarrow> http_req \<Rightarrow> 'fs state \<Rightarrow> owner_row option" where
  "signed_in_owner V r st =
     (case cookie_of r OwnerSessionCookieName of
        None \<Rightarrow> None
      | Some tok \<Rightarrow> (case ownerValidateSession (v_owner V) (v_now V) tok (own st) of Inl _ \<Rightarrow> None | Inr o' \<Rightarrow> Some o'))"

definition signed_in_user :: "'fs venv \<Rightarrow> http_req \<Rightarrow> 'fs state \<Rightarrow> user_row option" where
  "signed_in_user V r st =
     (if sessionTokenFromRequest r = [] then None
      else (case ValidateSession (v_auth V) (v_now V) (sessionTokenFromRequest r) (acct st) of Inl _ \<Rightarrow> None | Inr u \<Rightarrow> Some u))"

lemma requireOwnerRole_eq:
  "requireOwnerRole least nxt V c r st =
     (case signed_in_owner V r st of
        None \<Rightarrow> (st, unauthorized)
      | Some o' \<Rightarrow> if AtLeast (own_role o') least then nxt V (c\<lparr>cx_owner := Some o'\<rparr>) r st
                    else (st, reply 403 (BError ''insufficient role'')))"
  by (auto simp: requireOwnerRole_def signed_in_owner_def split: option.splits sum.splits)

lemma requireAuth_eq:
  "requireAuth nxt V c r st =
     (case signed_in_user V r st of None \<Rightarrow> (st, unauthorized) | Some u \<Rightarrow> nxt V (c\<lparr>cx_user := Some u\<rparr>) r st)"
  by (auto simp: requireAuth_def signed_in_user_def Let_def split: sum.splits)

lemma AtLeast_owner: "AtLeast role ''owner'' \<longleftrightarrow> role = ''owner''"
  by (auto simp: AtLeast_def rank_def split: option.splits if_splits)

lemma AtLeast_admin: "AtLeast ''owner'' ''admin''"
  by (simp add: AtLeast_def rank_def)

text \<open>
  The guards. A request to an owner route without a valid owner session is answered 401, one
  whose owner's role is too low 403, and a request to a personal route without a valid session 401;
  none of them changes anything, whatever else the request carries.
\<close>

theorem guards_refuse_without_effect:
  "(required_role rt = Some least \<and> signed_in_owner V r st = None \<longrightarrow> serve rt V r st = (st, unauthorized)) \<and>
   (required_role rt = Some least \<and> signed_in_owner V r st = Some o' \<and> \<not> AtLeast (own_role o') least \<longrightarrow>
      serve rt V r st = (st, reply 403 (BError ''insufficient role''))) \<and>
   (personal rt \<and> signed_in_user V r st = None \<longrightarrow> serve rt V r st = (st, unauthorized))"
  by (cases rt) (auto simp: serve_def requireOwnerRole_eq requireAuth_eq)

theorem guards_refuse_without_effect_witness:
  "serve PostOwner demo_env blank_req demo_state = (demo_state, unauthorized)
   \<and> serve DeleteMe demo_env blank_req demo_state = (demo_state, unauthorized)"
proof -
  have o: "signed_in_owner demo_env blank_req demo_state = None" by (simp add: signed_in_owner_def cookie_of_def blank_req_def)
  have u: "signed_in_user demo_env blank_req demo_state = None"
    by (simp add: signed_in_user_def sessionTokenFromRequest_def cookie_of_def blank_req_def)
  show ?thesis
    using guards_refuse_without_effect [of PostOwner "''owner''" demo_env blank_req demo_state]
      guards_refuse_without_effect [of DeleteMe "''owner''" demo_env blank_req demo_state] o u by simp
qed


section \<open>The audit of owner changes\<close>

lemma own_frame [frame]:
  "own (fst (handleSignUp V c r st)) = own st" "own (fst (handleLogin V c r st)) = own st"
  "own (fst (handleForgotPassword V c r st)) = own st" "own (fst (handleResetPassword V c r st)) = own st"
  "own (fst (handleLogout V c r st)) = own st" "own (fst (handleSocialStart p V c r st)) = own st"
  "own (fst (handleSocialCallback p V c r st)) = own st" "own (fst (handleMe V c r st)) = own st"
  "own (fst (handleExportAccount V c r st)) = own st" "own (fst (handleListConsents V c r st)) = own st"
  "own (fst (handleRevokeConsent cid V c r st)) = own st"
  by (auto simp: handleSignUp_def handleLogin_def handleForgotPassword_def handleResetPassword_def handleLogout_def
      handleSocialStart_def handleSocialCallback_def handleMe_def handleExportAccount_def handleListConsents_def
      handleRevokeConsent_def Let_def split: option.split sum.split prod.split)

lemma own_delete_user [frame]: "own (fst (delete_user V i st)) = own st"
  by (auto simp: delete_user_def cascade_user_def split: sum.split prod.split)

lemma own_DeleteAccount [frame]: "own (fst (handleDeleteAccount V c r st)) = own st"
proof (cases "cx_user c")
  case (Some u)
  obtain d x where d: "DeleteOwned (v_engine V) (v_server V) (user_id u) (rest st) = (d, x)" by fastforce
  obtain s ok where s: "DeleteOwnedFiles (v_backend V) (v_file V) (v_remove V) (user_id u) (stor st) = (s, ok)" by fastforce
  obtain w y where w: "RevokeForSubject (v_oauth V) (user_id u) (oau st) = (w, y)" by fastforce
  obtain st' z where z: "delete_user V (user_id u) (st\<lparr>rest := d, stor := s, oau := w\<rparr>) = (st', z)" by fastforce
  have "own st' = own st" using own_delete_user [of V "user_id u" "st\<lparr>rest := d, stor := s, oau := w\<rparr>"] z by simp
  then show ?thesis
    by (cases x; cases ok; cases y; cases z) (simp_all add: handleDeleteAccount_def Some d s w z)
qed (simp add: handleDeleteAccount_def)

lemma accounts_of_sessions [frame]:
  "owner_users (fst (ownerLogin W now raw i e p st)) = owner_users st"
  "owner_users (fst (ownerLogout W tok st)) = owner_users st"
  "owner_users (fst (ownerPurgeExpired W now st)) = owner_users st"
proof -
  show "owner_users (fst (ownerLogin W now raw i e p st)) = owner_users st"
  proof (cases "find (\<lambda>o'. own_email o' = normalizeEmail e) (owner_users st)")
    case (Some o')
    have "owner_users (fst (ownerCreateSession W now raw i (own_id o') st)) = owner_users st"
      by (cases rule: ownerCreateSession_cases [of W now raw i "own_id o'" st]) simp_all
    with Some show ?thesis by (simp add: ownerLogin_def)
  qed (simp add: ownerLogin_def)
qed (simp_all add: ownerLogout_def ownerPurgeExpired_def)

lemma owner_accounts_frame [frame]:
  "owner_users (own (fst (handleOwnerLogin V c r st))) = owner_users (own st)"
  "owner_users (own (fst (handleOwnerLogout V c r st))) = owner_users (own st)"
  "owner_users (own (fst (handlePurgeSessions V c r st))) = owner_users (own st)"
proof -
  show "owner_users (own (fst (handleOwnerLogin V c r st))) = owner_users (own st)"
  proof (cases "decodeJSON [''email'', ''password''] r")
    case (Some f)
    obtain b x where b: "ownerLogin (v_owner V) (v_now V) (v_token V) (v_session_id V) (f ''email'') (f ''password'') (own st) = (b, x)" by fastforce
    then have "owner_users b = owner_users (own st)" using accounts_of_sessions(1) by (metis fst_conv)
    with Some b show ?thesis by (cases x) (simp_all add: handleOwnerLogin_def)
  qed (simp add: handleOwnerLogin_def)
  show "owner_users (own (fst (handleOwnerLogout V c r st))) = owner_users (own st)"
    by (auto simp: handleOwnerLogout_def Let_def frame split: option.split sum.split)
  obtain b x where b: "ownerPurgeExpired (v_owner V) (v_now V) (own st) = (b, x)" by fastforce
  then have "owner_users b = owner_users (own st)" using accounts_of_sessions(3) by (metis fst_conv)
  with b show "owner_users (own (fst (handlePurgeSessions V c r st))) = owner_users (own st)"
    by (auto simp: handlePurgeSessions_def split: sum.split prod.split)
qed

lemma own_middleware [frame]:
  "(\<And>st'. own st' = own st \<Longrightarrow> owner_users (own (fst (nxt V c r st'))) = owner_users (own st)) \<Longrightarrow>
     owner_users (own (fst (rateLimitLogin nxt V c r st))) = owner_users (own st)"
  "(\<And>st'. own st' = own st \<Longrightarrow> owner_users (own (fst (nxt V c r st'))) = owner_users (own st)) \<Longrightarrow>
     owner_users (own (fst (rateLimitOwnerLogin nxt V c r st))) = owner_users (own st)"
  by (auto simp: rateLimitLogin_def rateLimitOwnerLogin_def split: prod.split verdict.split)

lemma owner_accounts_other_routes:
  assumes "rt \<noteq> PostOwner" and "\<nexists>i. rt = DeleteOwnerRoute i"
  shows "owner_users (own (fst (serve rt V r st))) = owner_users (own st)"
  using assms
  by (cases rt) (simp_all add: serve_def requireAuth_eq requireOwnerRole_eq frame handleOwnerMe_def handleListOwners_def
      handleListAuditLog_def split: option.split sum.split prod.split)

lemma find_last_new: "\<forall>x \<in> set xs. \<not> P x \<Longrightarrow> P y \<Longrightarrow> find P (xs @ [y]) = Some y"
  by (induction xs) auto

lemma createOwner_cases:
  assumes "\<not> ofails W OSelectById"
  obtains (refused) e where "createOwner W now i em pw role st = (st, Inl e)"
  | (created) o' where "createOwner W now i em pw role st = (st\<lparr>owner_users := owner_users st @ [o']\<rparr>, Inr o')"
proof (cases "\<exists>e. createOwner W now i em pw role st = (st, Inl e)")
  case False
  let ?em = "normalizeEmail em"
  from False obtain h where h: "emailRe ?em" "\<not> length pw < 8" "hashPassword (ocr W) pw = Some h" "\<not> ofails W OInsert"
      "\<not> list_ex (\<lambda>o'. own_id o' = i \<or> ToLower (own_email o') = ToLower ?em) (owner_users st)"
    by (auto simp: createOwner_def Let_def split: if_splits option.splits)
  let ?o = "\<lparr>own_id = i, own_email = ?em, own_hash = h, own_role = role, own_created = now\<rparr>"
  have "owner_by_id i (st\<lparr>owner_users := owner_users st @ [?o]\<rparr>) = Some ?o"
    unfolding owner_by_id_def using h(5) by (auto simp: list_ex_iff intro!: find_last_new)
  with h assms have "createOwner W now i em pw role st = (st\<lparr>owner_users := owner_users st @ [?o]\<rparr>, Inr ?o)"
    by (simp add: createOwner_def Let_def GetOwner_def)
  then show ?thesis by (rule created)
qed (use refused in blast)

lemma DeleteOwner_cases:
  obtains (refused) e where "DeleteOwner W i st = (st, Inl e)"
  | (deleted) o' where "own_id o' = i" "o' \<in> set (owner_users st)"
      "DeleteOwner W i st = (st\<lparr>owner_users := filter (\<lambda>x. own_id x \<noteq> i) (owner_users st),
                         owner_sessions := filter (\<lambda>r. sess_user r \<noteq> i) (owner_sessions st)\<rparr>, Inr o')"
proof (cases "\<exists>e. DeleteOwner W i st = (st, Inl e)")
  case False
  then obtain o' where "owner_by_id i st = Some o'" by (auto simp: DeleteOwner_def split: if_splits option.splits)
  with False owner_by_id_id [OF this] show ?thesis
    by (intro deleted [of o']) (auto simp: DeleteOwner_def split: if_splits)
qed (use refused in blast)


definition owned_state :: "dir state" where
  "owned_state = demo_state\<lparr>own := fst (ownerLogin (owner_calm plain_crypto) 1 (Some ''tok'') ''os1'' ''root@x.co'' ''changeme'' booted)\<rparr>"

definition owner_req :: http_req where
  "owner_req = blank_req\<lparr>hq_cookies := [(OwnerSessionCookieName, ''tok'')],
     hq_json := Some [(''email'', MemString ''two@x.co''), (''password'', MemString ''changeme''), (''role'', MemString ''viewer'')]\<rparr>"


section \<open>Password reset across the components\<close>

lemma forgot_answer:
  "snd (handleForgotPassword V c r st) = (if decodeJSON [''email''] r = None then bad_body else reply 204 BNone)"
  by (auto simp: handleForgotPassword_def Let_def split: option.split sum.split prod.split)


definition ann_state :: "dir state" where
  "ann_state = demo_state\<lparr>acct := two_accounts\<rparr>"

definition forgot_req :: "string \<Rightarrow> http_req" where
  "forgot_req e = blank_req\<lparr>hq_json := Some [(''email'', MemString e)]\<rparr>"


lemma ResetPassword_fresh:
  assumes "\<forall>q. \<not> fails W q" and "\<forall>x \<in> set rs. reset_hash x \<noteq> hashToken (cr W) tok" and "resets st = rs @ [row]"
    and "reset_hash row = hashToken (cr W) tok" "reset_used row = None" "now \<le> reset_expires row"
    and "8 \<le> length p" "hashPassword (cr W) p = Some h"
  shows "ResetPassword W now tok p st =
    (drop_sessions (reset_user row) (mark_used now (reset_user row) (set_password now (reset_user row) h st)), Inr (reset_user row))"
proof -
  have "find (\<lambda>r. reset_hash r = hashToken (cr W) tok) (resets st) = Some row"
    unfolding assms(3) using assms(2,4) by (intro find_last_new) auto
  with assms show ?thesis by (simp add: ResetPassword_def)
qed

lemma CreateResetToken_known:
  assumes "\<forall>q. \<not> fails W q" and "user_by_email (normalizeEmail e) st = Some u"
    and "\<forall>x \<in> set (resets st). reset_id x \<noteq> i \<and> reset_hash x \<noteq> hashToken (cr W) tok"
  shows "CreateResetToken W now (Some tok) i e st =
    (st\<lparr>resets := resets st @ [\<lparr>reset_id = i, reset_user = user_id u, reset_hash = hashToken (cr W) tok,
        reset_expires = now + ResetTokenTTL, reset_used = None\<rparr>]\<rparr>, Inr (Some (tok, user_id u)))"
  using assms by (simp add: CreateResetToken_def Let_def list_ex_iff)

text \<open>
  C30. The mailed link works, and using it signs the account out everywhere. When mail is delivered,
  asking for a reset of a known address sends exactly one message to it, whose link carries the new
  token; presenting that token within the hour sets the new password, leaves the account with no
  session in any browser, and revokes every OAuth code, token and PKCE request issued on its
  behalf to any client. Grants of other subjects stay.
\<close>

theorem mailed_link_resets_everywhere:
  assumes known: "user_by_email (normalizeEmail (f1 ''email'')) (acct st) = Some u"
    and r1: "decodeJSON [''email''] r1 = Some f1" "v_token V1 = Some tok" "\<forall>q. \<not> fails (v_auth V1) q"
    and fresh: "\<forall>x \<in> set (resets (acct st)). reset_id x \<noteq> v_uuid V1 \<and> reset_hash x \<noteq> hashToken (cr (v_auth V1)) tok"
    and sent: "snd (Send (v_sender V1) (reset_mail (v_reset_url V1) (f1 ''email'') tok) (outbox st))"
    and r2: "decodeJSON [''token'', ''password''] r2 = Some f2" "f2 ''token'' = tok" "8 \<le> length (f2 ''password'')"
      "hashPassword (cr (v_auth V2)) (f2 ''password'') = Some h" "cr (v_auth V2) = cr (v_auth V1)"
      "\<forall>q. \<not> fails (v_auth V2) q" "\<forall>q. \<not> v_oauth V2 q" "v_now V2 \<le> v_now V1 + ResetTokenTTL"
    and run: "handleForgotPassword V1 c r1 st = (st1, a1)" "handleResetPassword V2 c r2 st1 = (st2, a2)"
  shows "outbox st1 = outbox st @ [reset_mail (v_reset_url V1) (f1 ''email'') tok] \<and> a2 = reply 204 BNone
    \<and> map_option user_hash (user_by_id (user_id u) (acct st2)) = Some h
    \<and> (\<forall>s \<in> set (sessions (acct st2)). sess_user s \<noteq> user_id u)
    \<and> (\<forall>t. grants (oau st2) t = filter (\<lambda>g. map_option ss_subject (gr_session g) \<noteq> Some (user_id u)) (grants (oau st) t))"
proof -
  let ?row = "\<lparr>reset_id = v_uuid V1, reset_user = user_id u, reset_hash = hashToken (cr (v_auth V1)) tok,
        reset_expires = v_now V1 + ResetTokenTTL, reset_used = None\<rparr>"
  let ?a = "acct st\<lparr>resets := resets (acct st) @ [?row]\<rparr>"
  have c1: "CreateResetToken (v_auth V1) (v_now V1) (v_token V1) (v_uuid V1) (f1 ''email'') (acct st) = (?a, Inr (Some (tok, user_id u)))"
    unfolding r1(2) by (rule CreateResetToken_known [OF r1(3) known fresh])
  have st1: "acct st1 = ?a" "oau st1 = oau st" "outbox st1 = outbox st @ [reset_mail (v_reset_url V1) (f1 ''email'') tok]"
    using run(1) sent Send_out [of "v_sender V1" "reset_mail (v_reset_url V1) (f1 ''email'') tok" "outbox st"]
    by (auto simp: handleForgotPassword_def r1(1) c1 Let_def)
  let ?b = "drop_sessions (user_id u) (mark_used (v_now V2) (user_id u) (set_password (v_now V2) (user_id u) h ?a))"
  have c2: "ResetPassword (v_auth V2) (v_now V2) (f2 ''token'') (f2 ''password'') (acct st1) = (?b, Inr (user_id u))"
    using ResetPassword_fresh [OF r2(6), where st = ?a and rs = "resets (acct st)" and row = ?row and tok = tok]
      fresh r2(3-5,8) by (simp add: st1(1) r2(2))
  have rv: "RevokeForSubject (v_oauth V2) i w = (cut_grants (\<lambda>g. map_option ss_subject (gr_session g) = Some i) UNIV w, Inr ())" for i w
    using r2(7) revoke_tables_never_fails all_grant_tables by (simp only: RevokeForSubject_def)
  have st2: "acct st2 = ?b" "oau st2 = cut_grants (\<lambda>g. map_option ss_subject (gr_session g) = Some (user_id u)) UNIV (oau st)" "a2 = reply 204 BNone"
    using run(2) by (auto simp: handleResetPassword_def r2(1) c2 rv Let_def st1(2))
  have "u \<in> set (users (acct st))" using known by (auto simp: user_by_email_def dest: find_Some_mem)
  then have "user_id u \<in> set (account_ids ?a)" by (simp add: account_ids_def)
  then obtain u' where "user_by_id (user_id u) ?a = Some u'" using user_by_id_mem by blast
  then have "map_option user_hash (user_by_id (user_id u) ?b) = Some h"
    using find_set_password [of "user_id u" "v_now V2" "user_id u" h ?a] by (simp add: user_by_id_def)
  moreover have "\<forall>s \<in> set (sessions ?b). sess_user s \<noteq> user_id u" by (simp add: drop_sessions_def)
  ultimately show ?thesis using st1(3) st2 by simp
qed

definition reset_req :: http_req where
  "reset_req = blank_req\<lparr>hq_json := Some [(''token'', MemString ''t9''), (''password'', MemString ''newsecret'')]\<rparr>"

abbreviation no_ctx :: ctx where
  "no_ctx \<equiv> \<lparr>cx_user = None, cx_owner = None\<rparr>"

lemma demo_decodes:
  "decodeJSON [''email''] (forgot_req e) = Some (field_value [(''email'', MemString e)])"
  "decodeJSON [''token'', ''password''] reset_req = Some (field_value [(''token'', MemString ''t9''), (''password'', MemString ''newsecret'')])"
proof -
  have "ToLower ''email'' = ''email''" "ToLower ''token'' = ''token''" "ToLower ''password'' = ''password''" by code_simp+
  then show "decodeJSON [''email''] (forgot_req e) = Some (field_value [(''email'', MemString e)])"
    "decodeJSON [''token'', ''password''] reset_req = Some (field_value [(''token'', MemString ''t9''), (''password'', MemString ''newsecret'')])"
    by (simp_all add: decodeJSON_def forgot_req_def reset_req_def blank_req_def)
qed

theorem mailed_link_resets_everywhere_witness:
  "let st1 = fst (handleForgotPassword demo_env no_ctx (forgot_req '' A@b.co'') ann_state);
       st2 = fst (handleResetPassword demo_env no_ctx reset_req st1)
   in map m_to (outbox st1) = ['' A@b.co''] \<and> (\<forall>s \<in> set (sessions (acct st2)). sess_user s \<noteq> ''u1'')
      \<and> map_option user_hash (user_by_id ''u1'' (acct st2)) = Some ''newsecret'' \<and> grants (oau st2) Access = grants (oau ann_state) Access"
proof -
  let ?f1 = "field_value [(''email'', MemString '' A@b.co'')]"
  let ?f2 = "field_value [(''token'', MemString ''t9''), (''password'', MemString ''newsecret'')]"
  let ?u = "\<lparr>user_id = ''u1'', user_email = ''a@b.co'', user_hash = ''oldsecret'', user_created = 0, user_updated = 0\<rparr>"
  have f1: "?f1 ''email'' = '' A@b.co''" by code_simp
  have f2: "?f2 ''token'' = ''t9''" "?f2 ''password'' = ''newsecret''" by code_simp+
  have known: "user_by_email (normalizeEmail (?f1 ''email'')) (acct ann_state) = Some ?u" unfolding f1 by code_simp
  have env: "v_token demo_env = Some ''t9''" "\<forall>q. \<not> fails (v_auth demo_env) q" "\<forall>q. \<not> v_oauth demo_env q"
    "cr (v_auth demo_env) = plain_crypto" "v_sender demo_env = FakeSender" "v_uuid demo_env = ''n1''"
    by (simp_all add: demo_env_def)
  have fresh: "\<forall>x \<in> set (resets (acct ann_state)). reset_id x \<noteq> v_uuid demo_env \<and> reset_hash x \<noteq> hashToken (cr (v_auth demo_env)) ''t9''"
    by (simp add: env ann_state_def plain_crypto_def)
  have sent: "snd (Send (v_sender demo_env) (reset_mail (v_reset_url demo_env) (?f1 ''email'') ''t9'') (outbox ann_state))"
    by (simp add: env)
  have len: "8 \<le> length (?f2 ''password'')" "hashPassword (cr (v_auth demo_env)) (?f2 ''password'') = Some ''newsecret''"
    by (simp_all add: f2 env plain_crypto_def)
  have now: "v_now demo_env \<le> v_now demo_env + ResetTokenTTL" by simp
  have g: "filter (\<lambda>g. map_option ss_subject (gr_session g) \<noteq> Some ''u1'') (grants (oau ann_state) Access) = grants (oau ann_state) Access"
    by (simp add: ann_state_def demo_state_def consent_example_def)
  have o: "outbox ann_state = []" by (simp add: ann_state_def demo_state_def)
  note all = mailed_link_resets_everywhere [OF known demo_decodes(1) env(1,2) fresh sent demo_decodes(2) f2(1) len refl env(2,3) now
        prod.collapse [symmetric] prod.collapse [symmetric], of no_ctx]
  from all g show ?thesis by (simp add: Let_def f1 o reset_mail_def)
qed

section \<open>Social sign-in\<close>

lemma state_cookie_inj: "socialStateCookieName p = socialStateCookieName q \<longleftrightarrow> p = q"
  by (simp add: socialStateCookieName_def)

text \<open>
  C31. A social callback acts only for the browser that started the flow with that provider: if it
  changes anything or sets a session cookie, the provider is configured and the request carries,
  in the cookie the start of that provider's flow set, the very state the provider returned, and it
  is not empty. The cookies of two providers' flows never collide.
\<close>

theorem social_callback_needs_its_state:
  assumes "handleSocialCallback p V c r st = (st', Answer resp)"
    and "st' \<noteq> st \<or> (\<exists>k \<in> set (rs_cookies resp). ck_name k = SessionCookieName)"
  shows "map_of (v_providers V) p \<noteq> None \<and> query_get r ''state'' \<noteq> [] \<and>
    cookie_of r (socialStateCookieName p) = Some (query_get r ''state'') \<and>
    (p \<noteq> q \<longrightarrow> socialStateCookieName p \<noteq> socialStateCookieName q)"
proof -
  have clear: "ck_name (clearSocialStateCookie p) \<noteq> SessionCookieName"
    by (simp add: clearSocialStateCookie_def lax_cookie_def socialStateCookieName_def)
  show ?thesis
  proof (cases "map_of (v_providers V) p = None \<or> query_get r ''state'' = [] \<or> cookie_of r (socialStateCookieName p) \<noteq> Some (query_get r ''state'')")
    case True
    with assms clear show ?thesis
      by (cases "map_of (v_providers V) p") (auto simp: handleSocialCallback_def Let_def)
  qed (simp add: state_cookie_inj)
qed

definition social_env :: "dir venv" where
  "social_env = demo_env\<lparr>v_providers := [(''google'', NewGoogle (\<lambda>s. ''https://g/?state='' @ s) (\<lambda>code. Some ''tk'')
     (\<lambda>tok. Some (200, Some (''g-1'', ''zoe@x.co''))))]\<rparr>"

definition social_req :: http_req where
  "social_req = blank_req\<lparr>hq_cookies := [(''maubase_social_state_google'', ''st'')], hq_query := [(''state'', ''st''), (''code'', ''c'')]\<rparr>"

theorem social_callback_needs_its_state_witness:
  "rs_code (case snd (handleSocialCallback ''google'' social_env no_ctx social_req demo_state) of Answer a \<Rightarrow> a) = 303
   \<and> cookie_of social_req (socialStateCookieName ''google'') = Some (query_get social_req ''state'')"
proof -
  let ?res = "handleSocialCallback ''google'' social_env no_ctx social_req demo_state"
  have code: "rs_code (case snd ?res of Answer a \<Rightarrow> a) = 303" by code_simp
  have "list_ex (\<lambda>k. ck_name k = SessionCookieName) (rs_cookies (case snd ?res of Answer a \<Rightarrow> a))" by code_simp
  moreover have "case snd ?res of Answer a \<Rightarrow> True | Panicked \<Rightarrow> False" by code_simp
  ultimately obtain a where a: "snd ?res = Answer a" "\<exists>k \<in> set (rs_cookies a). ck_name k = SessionCookieName"
    by (auto simp: list_ex_iff split: outcome.splits)
  have "?res = (fst ?res, Answer a)" using a(1) by (metis prod.collapse)
  from social_callback_needs_its_state [OF this disjI2 [OF a(2)]] code show ?thesis by blast
qed

end
