(* ===== verification/Account_Erasure.thy ===== *)
theory Account_Erasure
  imports Server_Properties
begin

text \<open>
  Deleting an account through \<^verbatim>\<open>handleDeleteAccount\<close>: four components are erased one after the other,
  without a transaction. The state any attempt leaves behind, whatever failed, is described by
  \<open>partly\<close>; from every such state an attempt that meets no failure ends in \<open>gone\<close>.
\<close>

section \<open>The stages\<close>

lemma delete_collections_bus: "bus_ok st \<Longrightarrow> bus_ok (fst (delete_collections E subj cols st))"
proof (induction cols arbitrary: st)
  case (Cons col cols)
  show ?case
  proof (cases "if bus st = None then Inr [] else pkValuesForOwner E st col subj")
    case (Inl e)
    with Cons.prems show ?thesis by (simp only: delete_collections.simps sum.case fst_conv)
  next
    case (Inr ids)
    let ?st1 = "set_rows (CollName col) (fst (sql_delete E col (tables st (CollName col)) [(OwnerColumn col, VText subj)])) st"
    have "bus_ok ?st1" using Cons.prems by (simp add: bus_ok_def)
    then obtain st2 where st2: "publish_deleted col subj ids ?st1 = Some st2" "bus_ok st2" using publish_deleted_total by blast
    show ?thesis
    proof (cases "eng_fail E (DeleteOwnedRows (CollName col))")
      case True
      with Inr Cons.prems show ?thesis by (simp only: delete_collections.simps sum.case if_True fst_conv)
    next
      case False
      with Inr st2 Cons.IH show ?thesis
        by (simp only: delete_collections.simps sum.case if_False Let_def option.case)
    qed
  qed
qed simp

text \<open>The files: rows only of the subject disappear, and no row before its bytes.\<close>

definition file_part :: "'fs backend \<Rightarrow> string \<Rightarrow> 'fs storage \<Rightarrow> 'fs storage \<Rightarrow> bool" where
  "file_part B i st st1 \<longleftrightarrow> ids_unique st1 \<and>
     filter (\<lambda>m. f_owner m \<noteq> i) (files st1) = filter (\<lambda>m. f_owner m \<noteq> i) (files st) \<and>
     (\<forall>m \<in> set (files st). f_owner m = i \<and> m \<notin> set (files st1) \<longrightarrow> Open B calm_fs (f_id m) (blobs st1) = None)"

lemma file_part_refl: "ids_unique st \<Longrightarrow> file_part B i st st"
  by (simp add: file_part_def)

lemma file_part_step:
  assumes "ids_unique st" and "DeleteOwnedFiles (LocalBackend w) E q i st = (st1, ok)"
  shows "file_part (LocalBackend w) i st st1"
  using dirstore.erasure_step [OF assms] by (auto simp: file_part_def)

lemma file_part_finishes:
  assumes "file_part (LocalBackend w) i st st1" and "\<And>q. \<not> f_fails E q"
    and "DeleteOwnedFiles (LocalBackend w) E (\<lambda>_. calm_fs) i st1 = (st2, ok)"
  shows "ok \<and> erased (LocalBackend w) i st st2"
proof -
  have u: "ids_unique st1" using assms(1) by (simp add: file_part_def)
  note s = dirstore.erasure_step [OF u assms(3)]
  have ok: ok using dirstore.erasure_resumes [OF u assms(3) assms(2) prod.collapse [symmetric]] assms(2,3)
    dirstore.delete_files_calm [of E w "owned_ids i st1" st1] by (auto simp: DeleteOwnedFiles_def)
  have "Open (LocalBackend w) calm_fs (f_id m) (blobs st2) = None" if "m \<in> set (files st)" "f_owner m = i" for m
  proof (cases "m \<in> set (files st1)")
    case True
    with s ok that show ?thesis by blast
  next
    case False
    with assms(1) that s show ?thesis by (simp add: file_part_def)
  qed
  with s ok assms(1) show ?thesis by (auto simp: erased_def file_part_def)
qed

definition remove_account :: "string \<Rightarrow> auth \<Rightarrow> auth" where
  "remove_account i a =
     a\<lparr>users := filter (\<lambda>u. user_id u \<noteq> i) (users a), sessions := filter (\<lambda>r. sess_user r \<noteq> i) (sessions a),
       resets := filter (\<lambda>r. reset_user r \<noteq> i) (resets a), socials := filter (\<lambda>r. soc_user r \<noteq> i) (socials a)\<rparr>"

lemma remove_account_again: "remove_account i (remove_account i a) = remove_account i a"
  by (simp add: remove_account_def)

lemma DeleteUser_eq: "DeleteUser W i a = (if fails W DeleteUserRow then (a, Inl (Internal ''delete user'')) else (remove_account i a, Inr ()))"
  by (simp add: DeleteUser_def remove_account_def)

definition granted_by :: "string \<Rightarrow> grant_row \<Rightarrow> bool" where
  "granted_by i g \<longleftrightarrow> map_option ss_subject (gr_session g) = Some i"

lemma RevokeForSubject_eq:
  "RevokeForSubject bad i w = revoke_tables (\<lambda>t. bad (DelSubject t)) (granted_by i) oauthGrantTables w"
  by (simp only: RevokeForSubject_def granted_by_def [abs_def])


section \<open>Partly erased and gone\<close>

definition rows_gone :: "server \<Rightarrow> string \<Rightarrow> api \<Rightarrow> string \<Rightarrow> row list" where
  "rows_gone s i st n =
     (case Get (registry s) n of
        None \<Rightarrow> tables st n
      | Some col \<Rightarrow> if OwnerColumn col = [] then tables st n else filter (\<lambda>r. \<not> owned_by col i r) (tables st n))"

definition gone :: "server \<Rightarrow> nat \<Rightarrow> string \<Rightarrow> dir state \<Rightarrow> dir state \<Rightarrow> bool" where
  "gone s w i st st' \<longleftrightarrow>
     (\<forall>n. tables (rest st') n = rows_gone s i (rest st) n) \<and> erased (LocalBackend w) i (stor st) (stor st') \<and>
     (\<forall>t. grants (oau st') t = filter (\<lambda>g. \<not> granted_by i g) (grants (oau st) t)) \<and>
     consents (oau st') = filter (\<lambda>c. cs_user c \<noteq> i) (consents (oau st)) \<and>
     acct st' = remove_account i (acct st) \<and> own st' = own st"

definition partly :: "server \<Rightarrow> nat \<Rightarrow> string \<Rightarrow> dir state \<Rightarrow> dir state \<Rightarrow> bool" where
  "partly s w i st st1 \<longleftrightarrow>
     (\<forall>n. \<exists>k. tables (rest st1) n = erase_rows (take k (ownedCollections (registry s))) i n (tables (rest st) n)) \<and>
     bus_ok (rest st1) \<and> file_part (LocalBackend w) i (stor st) (stor st1) \<and>
     (\<exists>T. grants (oau st1) = grants (cut_grants (granted_by i) T (oau st))) \<and>
     (consents (oau st1) = consents (oau st) \<or> consents (oau st1) = filter (\<lambda>c. cs_user c \<noteq> i) (consents (oau st))) \<and>
     (acct st1 = acct st \<or> acct st1 = remove_account i (acct st)) \<and> own st1 = own st"

lemma partly_refl: "bus_ok (rest st) \<Longrightarrow> ids_unique (stor st) \<Longrightarrow> partly s w i st st"
  by (auto simp: partly_def file_part_refl erase_rows_def intro!: exI [of _ "{}"] exI [of _ 0])

lemma rows_stage:
  assumes "served s" and "engine_ok E" and "bus_ok d" and "DeleteOwned E s i d = (d1, x)"
  shows "bus_ok d1 \<and> (\<exists>k. tables d1 n = erase_rows (take k (ownedCollections (registry s))) i n (tables d n)
     \<and> (x = Erased \<longrightarrow> k = length (ownedCollections (registry s))))"
proof -
  let ?cols = "ownedCollections (registry s)"
  have tc: "\<forall>c \<in> set ?cols. text_column c (OwnerColumn c)" using owned_text [OF assms(1)] by blast
  have "bus_ok d1" using delete_collections_bus [OF assms(3), of E i ?cols] assms(4) by (simp add: DeleteOwned_def)
  with delete_collections_tables [OF assms(2) tc, of i d d1 x n] assms(4) show ?thesis by (simp add: DeleteOwned_def)
qed

lemma partly_attempt:
  assumes "served (v_server V)" and "engine_ok (v_engine V)" and "bus_ok (rest st)" and "ids_unique (stor st)"
    and B: "v_backend V = LocalBackend w" and u: "cx_user c = Some u"
  shows "partly (v_server V) w (user_id u) st (fst (handleDeleteAccount V c r st))"
proof -
  let ?i = "user_id u" and ?s = "v_server V"
  obtain d x where d: "DeleteOwned (v_engine V) ?s ?i (rest st) = (d, x)" by fastforce
  obtain s ok where s: "DeleteOwnedFiles (v_backend V) (v_file V) (v_remove V) ?i (stor st) = (s, ok)" by fastforce
  obtain o1 y where o1: "RevokeForSubject (v_oauth V) ?i (oau st) = (o1, y)" by fastforce
  note rows = rows_stage [OF assms(1,2,3) d]
  have 1: "partly ?s w ?i st (st\<lparr>rest := d\<rparr>)"
    using rows partly_refl [OF assms(3,4), of ?s w ?i] by (auto simp: partly_def)
  have 2: "partly ?s w ?i st (st\<lparr>rest := d, stor := s\<rparr>)"
    using 1 file_part_step [OF assms(4) s [unfolded B]] by (auto simp: partly_def)
  obtain T where "o1 = cut_grants (granted_by ?i) T (oau st)"
    using revoke_tables_cut [of oauthGrantTables "\<lambda>t. v_oauth V (DelSubject t)" "granted_by ?i" "oau st"] o1
    by (metis RevokeForSubject_eq fst_conv)
  then have 3: "partly ?s w ?i st (st\<lparr>rest := d, stor := s, oau := o1\<rparr>)"
    using 2 by (auto simp: partly_def)
  obtain st' z where z: "delete_user V ?i (st\<lparr>rest := d, stor := s, oau := o1\<rparr>) = (st', z)" by fastforce
  have 4: "partly ?s w ?i st st'" if "ok"
  proof (cases "fails (v_auth V) DeleteUserRow")
    case True
    with z 3 show ?thesis by (auto simp: delete_user_def DeleteUser_eq)
  next
    case False
    have "files s = filter (\<lambda>m. f_owner m \<noteq> ?i) (files (stor st))"
      using dirstore.erasure_step [OF assms(4) s [unfolded B]] that by blast
    then have "s\<lparr>files := filter (\<lambda>m. f_owner m \<noteq> ?i) (files s)\<rparr> = s" by simp
    with False z 3 show ?thesis by (auto simp: delete_user_def DeleteUser_eq cascade_user_def partly_def)
  qed
  show ?thesis
    unfolding handleDeleteAccount_def u option.case d s o1 prod.case
    using 1 2 3 4 by (cases x; cases ok; cases y; cases z) (auto simp: z partly_def)
qed

definition untroubled :: "nat \<Rightarrow> dir venv \<Rightarrow> bool" where
  "untroubled w V \<longleftrightarrow>
     served (v_server V) \<and> engine_ok (v_engine V) \<and> (\<forall>q. \<not> eng_fail (v_engine V) q) \<and> (\<forall>q. \<not> f_fails (v_file V) q) \<and>
     v_remove V = (\<lambda>_. calm_fs) \<and> (\<forall>q. \<not> v_oauth V q) \<and> (\<forall>q. \<not> fails (v_auth V) q) \<and> v_backend V = LocalBackend w"

lemma partly_finishes:
  assumes V: "untroubled w V" and p: "partly (v_server V) w (user_id u) st st1" and u: "cx_user c = Some u"
  shows "snd (handleDeleteAccount V c r st1) = reply_with [ClearCookie] 204 BNone
    \<and> gone (v_server V) w (user_id u) st (fst (handleDeleteAccount V c r st1))"
proof -
  let ?i = "user_id u" and ?s = "v_server V" and ?cols = "ownedCollections (registry (v_server V))"
  note v = V [unfolded untroubled_def]
  have bus: "bus_ok (rest st1)" using p by (simp add: partly_def)
  obtain d x where d: "DeleteOwned (v_engine V) ?s ?i (rest st1) = (d, x)" by fastforce
  have "\<forall>q. \<not> eng_fail (v_engine V) q" using v by blast
  from delete_collections_total [OF this bus, of ?i ?cols] d have x: "x = Erased" by (simp add: DeleteOwned_def)
  have rows: "tables d n = rows_gone ?s ?i (rest st) n" for n
  proof -
    obtain k where k: "tables (rest st1) n = erase_rows (take k ?cols) ?i n (tables (rest st) n)" using p unfolding partly_def by blast
    have "tables d n = erase_rows ?cols ?i n (tables (rest st1) n)"
      using rows_stage [OF _ _ bus d, of n] v x by auto
    also have "\<dots> = erase_rows ?cols ?i n (tables (rest st) n)" unfolding k by (rule erase_rows_sub [OF set_take_subset])
    finally show ?thesis using erase_rows_owned [of ?s ?i n "tables (rest st) n"] v by (simp add: rows_gone_def)
  qed
  obtain s ok where s: "DeleteOwnedFiles (v_backend V) (v_file V) (v_remove V) ?i (stor st1) = (s, ok)" by fastforce
  have "DeleteOwnedFiles (LocalBackend w) (v_file V) (\<lambda>_. calm_fs) ?i (stor st1) = (s, ok)" using s v by simp
  moreover have "file_part (LocalBackend w) ?i (stor st) (stor st1)" using p by (simp add: partly_def)
  moreover have "\<And>q. \<not> f_fails (v_file V) q" using v by blast
  ultimately have f: "ok" "erased (LocalBackend w) ?i (stor st) s" using file_part_finishes by blast+
  have nobad: "(\<lambda>t. v_oauth V (DelSubject t)) = (\<lambda>_. False)" using v by auto
  have o1: "RevokeForSubject (v_oauth V) ?i (oau st1) = (cut_grants (granted_by ?i) UNIV (oau st1), Inr ())"
    unfolding RevokeForSubject_eq nobad revoke_tables_never_fails all_grant_tables ..
  have g: "grants (cut_grants (granted_by ?i) UNIV (oau st1)) t = filter (\<lambda>g. \<not> granted_by ?i g) (grants (oau st) t)" for t
  proof -
    obtain T where "grants (oau st1) = grants (cut_grants (granted_by ?i) T (oau st))" using p unfolding partly_def by blast
    then have "grants (oau st1) t = (if t \<in> T then filter (\<lambda>g. \<not> granted_by ?i g) (grants (oau st) t) else grants (oau st) t)" by simp
    then show ?thesis by simp
  qed
  have del: "\<not> fails (v_auth V) DeleteUserRow" using v by blast
  have keep: "s\<lparr>files := filter (\<lambda>m. f_owner m \<noteq> ?i) (files s)\<rparr> = s" using f(2) by (simp add: erased_def)
  let ?st2 = "cascade_user ?i (st1\<lparr>rest := d, stor := s, oau := cut_grants (granted_by ?i) UNIV (oau st1), acct := remove_account ?i (acct st1)\<rparr>)"
  have run: "handleDeleteAccount V c r st1 =
      (audit_note V EventCustomerAccountDeleted (user_party u) (user_party u) None ?st2, reply_with [ClearCookie] 204 BNone)"
    by (simp add: handleDeleteAccount_def u d x s f(1) o1 delete_user_def DeleteUser_eq del)
  have acct: "remove_account ?i (acct st1) = remove_account ?i (acct st)" "own st1 = own st"
    "filter (\<lambda>c. cs_user c \<noteq> ?i) (consents (oau st1)) = filter (\<lambda>c. cs_user c \<noteq> ?i) (consents (oau st))"
    using p by (auto simp: partly_def remove_account_again)
  show ?thesis using rows f(2) g acct by (simp add: run gone_def cascade_user_def keep)
qed

text \<open>
  C32. Deleting an account. An attempt that meets no failure answers 204 and leaves exactly what it
  should: in every collection with an owner column the account's rows are gone, its files and their
  bytes are gone, and so are the grants any client holds for it, its consents, its sessions, reset
  tokens, social identities and the account itself; every other row, file, grant, consent and account
  and the whole owner plane are as before. An attempt that fails at any point, in any component, is
  completed by a later one that meets no failure, with the same outcome.
\<close>

theorem account_deletion_exact_and_resumable:
  assumes "untroubled w V" and "cx_user c = Some u" and "bus_ok (rest st)" and "ids_unique (stor st)"
    and "v_server V1 = v_server V" and "engine_ok (v_engine V1)" and "v_backend V1 = LocalBackend w"
  shows "snd (handleDeleteAccount V c r st) = reply_with [ClearCookie] 204 BNone \<and>
    gone (v_server V) w (user_id u) st (fst (handleDeleteAccount V c r st)) \<and>
    (let st1 = fst (handleDeleteAccount V1 c r1 st)
     in snd (handleDeleteAccount V c r st1) = reply_with [ClearCookie] 204 BNone \<and>
        gone (v_server V) w (user_id u) st (fst (handleDeleteAccount V c r st1)))"
proof -
  have "served (v_server V1)" using assms(1,5) by (simp add: untroubled_def)
  from partly_attempt [OF this assms(6,3,4,7,2), of r1] assms(5)
  have "partly (v_server V) w (user_id u) st (fst (handleDeleteAccount V1 c r1 st))" by simp
  from partly_finishes [OF assms(1) this assms(2)]
    partly_finishes [OF assms(1) partly_refl [OF assms(3,4)] assms(2)] show ?thesis by (simp add: Let_def)
qed

abbreviation ann_ctx :: ctx where
  "ann_ctx \<equiv> \<lparr>cx_user = Some \<lparr>user_id = ''ann'', user_email = ''a@b.co'', user_hash = ''x'', user_created = 0, user_updated = 0\<rparr>, cx_owner = None\<rparr>"

lemma demo_untroubled: "untroubled 0 demo_env"
  using served_journal lite_ok by (simp add: untroubled_def demo_env_def file_env_example_def lite_def)

theorem account_deletion_exact_and_resumable_witness:
  "let V1 = demo_env\<lparr>v_oauth := (\<lambda>q. q = DelSubject Refresh)\<rparr>; st1 = fst (handleDeleteAccount V1 ann_ctx blank_req demo_state)
   in snd (handleDeleteAccount V1 ann_ctx blank_req demo_state) = internal
      \<and> tables (rest (fst (handleDeleteAccount demo_env ann_ctx blank_req st1))) ''journal'' = [note_row ''2'' ''bob'' ''yo'']"
proof -
  let ?V1 = "demo_env\<lparr>v_oauth := (\<lambda>q. q = DelSubject Refresh)\<rparr>"
  note a = demo_untroubled
  have b: "bus_ok (rest demo_state)" "ids_unique (stor demo_state)"
    by (simp_all add: demo_state_def bus_ok_def no_files_def)
  have c: "v_server ?V1 = v_server demo_env" "engine_ok (v_engine ?V1)" "v_backend ?V1 = LocalBackend 0"
    using lite_ok by (simp_all add: demo_env_def)
  have nf: "\<forall>q. \<not> eng_fail (lite (\<lambda>_. False)) q" and bb: "bus_ok (journal_state None)" by (simp_all add: lite_def bus_ok_def)
  have "snd (DeleteOwned (lite (\<lambda>_. False)) journal_server ''ann'' (journal_state None)) = Erased"
    unfolding DeleteOwned_def by (rule delete_collections_total [OF nf bb])
  then obtain d where d: "DeleteOwned (lite (\<lambda>_. False)) journal_server ''ann'' (journal_state None) = (d, Erased)"
    by (metis prod.collapse)
  have "snd (handleDeleteAccount ?V1 ann_ctx blank_req demo_state) = internal"
  proof -
    have f: "DeleteOwnedFiles (v_backend ?V1) (v_file ?V1) (v_remove ?V1) ''ann'' (stor demo_state) = (no_files, True)"
      by (simp add: DeleteOwnedFiles_def demo_env_def demo_state_def file_env_example_def owned_ids_def no_files_def)
    have g: "snd (RevokeForSubject (v_oauth ?V1) ''ann'' (oau demo_state)) = Inl StorageFault" by (simp add: RevokeForSubject_def)
    have h: "DeleteOwned (v_engine ?V1) (v_server ?V1) ''ann'' (rest demo_state) = (d, Erased)"
      using d by (simp add: demo_env_def demo_state_def)
    show ?thesis
      unfolding handleDeleteAccount_def using f g h by (simp add: case_prod_beta)
  qed
  moreover have "tables (rest (fst (handleDeleteAccount demo_env ann_ctx blank_req
      (fst (handleDeleteAccount ?V1 ann_ctx blank_req demo_state))))) ''journal'' = rows_gone journal_server ''ann'' (journal_state None) ''journal''"
    using account_deletion_exact_and_resumable [OF a _ b c, of ann_ctx _ blank_req blank_req]
    by (simp add: Let_def gone_def demo_env_def demo_state_def)
  ultimately show ?thesis by (simp add: Let_def rows_gone_def owned_by_def cell_def)
qed

end
