(* ===== verification/Admin_UI.thy ===== *)
theory Admin_UI
  imports Account_Erasure Admin_Data
begin

text \<open>
  The admin UI of \<^verbatim>\<open>internal/adminui/server.go\<close>: server-rendered pages over the owner plane, the
  customer accounts, the audit trail, the data browser, table creation and SQL Studio. A page is the
  name of its template with the data handed to it; the templates themselves (HTML) are not modelled.
  The state is the server's, together with the database's schema, the registry in use, which a
  reload replaces, and the UI's own login throttle. The text of raw SQL is run by a parameter.
\<close>

section \<open>Requests and pages\<close>

text \<open>
  The form is what \<^verbatim>\<open>ParseForm\<close> leaves in \<^verbatim>\<open>r.Form\<close>, \<^term>\<open>None\<close> when parsing fails; of the values of one key
  the first counts. \<open>uq_hx\<close> is the header \<^verbatim>\<open>HX-Request\<close>.
\<close>

type_synonym form = "(string \<times> string) list"

record ui_req =
  uq_http :: http_req
  uq_form :: "form option"
  uq_hx :: string

definition FormHas :: "form \<Rightarrow> string \<Rightarrow> bool" where
  "FormHas f k \<longleftrightarrow> map_of f k \<noteq> None"

definition FormValue :: "form \<Rightarrow> string \<Rightarrow> string" where
  "FormValue f k = (case map_of f k of None \<Rightarrow> [] | Some v \<Rightarrow> v)"

datatype sql_result =
    SQLError string
  | SQLRows "string list" "val list list" nat
  | SQLExecuted nat "reg_error option"

datatype page =
    LoginPage string string
  | DashboardPage owner_row
  | OwnersPage owner_row "owner_row list" "owner_error option"
  | UsersPage owner_row "user_row list" int int nat bool "auth_error option"
  | UserDetailPage owner_row user_row nat "(string \<times> string \<times> time) list" nat bool
  | AuditLogPage owner_row "Entry list" int int
  | MaintenancePage owner_row "(nat \<times> nat \<times> nat) option"
  | DataCollectionsPage owner_row "Collection list" bool
  | DataRowsPage owner_row Collection "row list" int int nat string string bool
  | DataRowEditPage owner_row Collection row
  | DataRowFragment Collection row bool
  | DataRowEditInline Collection row
  | TablesNewPage owner_row "nat list" nat "string list" "table_error option"
  | ColumnRowFragment int int "string list"
  | SQLStudioPage owner_row "(string \<times> sql_result) option"
  | ForbiddenPage owner_row

datatype ui_body = Html page | Plain string | PlainRow string admin_error | PlainPaging message | SeeOther string | Empty

datatype ui_outcome = Shown nat "http_cookie list" "int option" ui_body | UIPanicked

abbreviation render :: "page \<Rightarrow> ui_outcome" where
  "render p \<equiv> Shown 200 [] None (Html p)"

abbreviation redirect :: "string \<Rightarrow> ui_outcome" where
  "redirect url \<equiv> Shown 303 [] None (SeeOther url)"

abbreviation http_error :: "nat \<Rightarrow> string \<Rightarrow> ui_outcome" where
  "http_error code msg \<equiv> Shown code [] None (Plain msg)"

abbreviation NotFound :: ui_outcome where
  "NotFound \<equiv> http_error 404 ''404 page not found''"

abbreviation internal_error :: ui_outcome where
  "internal_error \<equiv> http_error 500 ''internal error''"


section \<open>State and environment\<close>

record 'fs ui =
  core :: "'fs state"
  db_schema :: schema
  live_server :: server
  uiLoginLimiter :: limiter

text \<open>
  What a request meets: the server's environment, the engine's order of values, the identifier drawn
  for a row, the order in which the range over the form's keys visits them, and the database's
  reaction to a \<^verbatim>\<open>CREATE TABLE\<close> and to raw SQL.
\<close>

record 'fs ui_env =
  x_env :: "'fs venv"
  x_le :: "val \<Rightarrow> val \<Rightarrow> bool"
  x_row_uuid :: string
  x_order :: "string list \<Rightarrow> string list"
  x_create :: "string \<Rightarrow> coldef list \<Rightarrow> schema \<Rightarrow> string + schema"
  x_query :: "string \<Rightarrow> 'fs state \<times> schema \<Rightarrow> ('fs state \<times> schema) \<times> (string + string list \<times> val list list)"
  x_exec :: "string \<Rightarrow> 'fs state \<times> schema \<Rightarrow> ('fs state \<times> schema) \<times> (string + nat)"

text \<open>
  Behind \<open>requireRole\<close> every handler finds the owner it put into the context, so the owner is an
  argument of those handlers.
\<close>

type_synonym 'fs ui_handler = "'fs ui_env \<Rightarrow> ui_req \<Rightarrow> 'fs ui \<Rightarrow> 'fs ui \<times> ui_outcome"

type_synonym 'fs page_handler = "'fs ui_env \<Rightarrow> owner_row \<Rightarrow> ui_req \<Rightarrow> 'fs ui \<Rightarrow> 'fs ui \<times> ui_outcome"

definition ui_note :: "'fs ui_env \<Rightarrow> audit_event \<Rightarrow> party \<Rightarrow> party \<Rightarrow> metadata option \<Rightarrow> 'fs ui \<Rightarrow> 'fs ui" where
  "ui_note X ev actor target md st = st\<lparr>core := audit_note (x_env X) ev actor target md (core st)\<rparr>"

abbreviation set_acct :: "auth \<Rightarrow> 'fs ui \<Rightarrow> 'fs ui" where
  "set_acct a st \<equiv> st\<lparr>core := (core st)\<lparr>acct := a\<rparr>\<rparr>"

abbreviation set_own :: "owners \<Rightarrow> 'fs ui \<Rightarrow> 'fs ui" where
  "set_own b st \<equiv> st\<lparr>core := (core st)\<lparr>own := b\<rparr>\<rparr>"

abbreviation set_rest :: "api \<Rightarrow> 'fs ui \<Rightarrow> 'fs ui" where
  "set_rest d st \<equiv> st\<lparr>core := (core st)\<lparr>rest := d\<rparr>\<rparr>"


section \<open>Template helpers\<close>

definition atLeast :: "Role \<Rightarrow> string \<Rightarrow> bool" where
  "atLeast role least = AtLeast role least"

definition isNull :: "val \<Rightarrow> bool" where
  "isNull v \<longleftrightarrow> v = VNull"

definition inputType :: "string \<Rightarrow> string" where
  "inputType declType =
     (let t = ToUpper declType
      in if Contains t ''INT'' \<or> Contains t ''REAL'' \<or> Contains t ''FLOA'' \<or> Contains t ''DOUB'' then ''number'' else ''text'')"

section \<open>Signing in and out\<close>

definition clientIP_ui :: "ui_req \<Rightarrow> string" where
  "clientIP_ui r = (case SplitHost (hq_remote (uq_http r)) of None \<Rightarrow> hq_remote (uq_http r) | Some host \<Rightarrow> host)"

text \<open>The bytes of the two characters outside ASCII that the code writes.\<close>

abbreviation em_dash :: string where "em_dash \<equiv> [CHR 0xE2, CHR 0x80, CHR 0x94]"

abbreviation ellipsis :: string where "ellipsis \<equiv> [CHR 0xE2, CHR 0x80, CHR 0xA6]"

definition rateLimitLogin_ui :: "'fs ui_handler \<Rightarrow> 'fs ui_handler" where
  "rateLimitLogin_ui nxt X r st =
     (if Limit (uiLoginLimiter st) \<le> 0 then nxt X r st
      else (case Allow (clientIP_ui r) (v_now (x_env X)) (uiLoginLimiter st) of (l, ok, retryAfter) \<Rightarrow>
              if \<not> ok
              then (ui_note X EventLoginRateLimited nobody nobody (Some [''client_ip'' \<mapsto> MText (clientIP_ui r)]) (st\<lparr>uiLoginLimiter := l\<rparr>),
                    Shown 429 [] (Some (trunc_seconds retryAfter + 1)) (Html (LoginPage (''too many login attempts '' @ em_dash @ '' try again shortly'') [])))
              else nxt X r (st\<lparr>uiLoginLimiter := l\<rparr>)))"

definition handleLoginPage :: "'fs ui_handler" where
  "handleLoginPage X r st =
     (case cookie_of (uq_http r) OwnerSessionCookieName of
        None \<Rightarrow> (st, render (LoginPage [] []))
      | Some tok \<Rightarrow>
          (case ownerValidateSession (v_owner (x_env X)) (v_now (x_env X)) tok (own (core st)) of
             Inl _ \<Rightarrow> (st, render (LoginPage [] []))
           | Inr _ \<Rightarrow> (st, redirect ''/admin/ui'')))"

definition handleLoginSubmit :: "'fs ui_handler" where
  "handleLoginSubmit X r st =
     (case uq_form r of
        None \<Rightarrow> (st, render (LoginPage ''invalid form submission'' []))
      | Some f \<Rightarrow>
          (let V = x_env X; email = FormValue f ''email''; password = FormValue f ''password''
           in case ownerLogin (v_owner V) (v_now V) (v_token V) (v_session_id V) email password (own (core st)) of
                (b, Inl _) \<Rightarrow>
                  (ui_note X EventLoginFailed nobody \<lparr>p_id = [], p_email = email\<rparr> None (set_own b st),
                   render (LoginPage ''invalid email or password'' email))
              | (b, Inr ses) \<Rightarrow>
                  (ui_note X EventLogin \<lparr>p_id = osn_owner ses, p_email = email\<rparr> nobody None (set_own b st),
                   Shown 303 [ownerSetCookie ses] None (SeeOther ''/admin/ui''))))"

definition handleLogout_ui :: "'fs ui_handler" where
  "handleLogout_ui X r st =
     (let out = Shown 303 [ownerClearCookie] None (SeeOther ''/admin/ui/login'')
      in case cookie_of (uq_http r) OwnerSessionCookieName of
           None \<Rightarrow> (st, out)
         | Some tok \<Rightarrow>
             (let V = x_env X;
                  st1 = (case ownerValidateSession (v_owner V) (v_now V) tok (own (core st)) of
                           Inl _ \<Rightarrow> st
                         | Inr o' \<Rightarrow> ui_note X EventLogout (owner_party o') nobody None st)
              in (set_own (fst (ownerLogout (v_owner V) tok (own (core st1)))) st1, out)))"

definition handleDashboard :: "'fs page_handler" where
  "handleDashboard X owner r st = (st, render (DashboardPage owner))"

definition requireRole :: "Role \<Rightarrow> 'fs page_handler \<Rightarrow> 'fs ui_handler" where
  "requireRole least nxt X r st =
     (case cookie_of (uq_http r) OwnerSessionCookieName of
        None \<Rightarrow> (st, redirect ''/admin/ui/login'')
      | Some tok \<Rightarrow>
          (case ownerValidateSession (v_owner (x_env X)) (v_now (x_env X)) tok (own (core st)) of
             Inl _ \<Rightarrow> (st, redirect ''/admin/ui/login'')
           | Inr owner \<Rightarrow>
               if \<not> AtLeast (own_role owner) least then (st, Shown 403 [] None (Html (ForbiddenPage owner)))
               else nxt X owner r st))"


section \<open>Owners\<close>

definition handleOwnersPage :: "'fs page_handler" where
  "handleOwnersPage X owner r st =
     (case ListOwners (v_owner (x_env X)) (own (core st)) of
        Inl _ \<Rightarrow> (st, internal_error)
      | Inr owners \<Rightarrow> (st, render (OwnersPage owner owners None)))"

definition renderOwnersWithError :: "'fs ui_env \<Rightarrow> owner_row \<Rightarrow> owner_error \<Rightarrow> 'fs ui \<Rightarrow> 'fs ui \<times> ui_outcome" where
  "renderOwnersWithError X actor err st =
     (st, render (OwnersPage actor (case ListOwners (v_owner (x_env X)) (own (core st)) of Inl _ \<Rightarrow> [] | Inr os \<Rightarrow> os) (Some err)))"

definition handleCreateOwner_ui :: "'fs page_handler" where
  "handleCreateOwner_ui X actor r st =
     (case uq_form r of
        None \<Rightarrow> (st, http_error 400 ''invalid form'')
      | Some f \<Rightarrow>
          (let V = x_env X
           in case CreateOwner (v_owner V) (v_now V) (v_uuid V) (FormValue f ''email'') (FormValue f ''password'') (FormValue f ''role'')
                     (own (core st)) of
                (b, Inl e) \<Rightarrow> renderOwnersWithError X actor e (set_own b st)
              | (b, Inr created) \<Rightarrow>
                  (ui_note X EventOwnerCreate (owner_party actor) (owner_party created)
                     (Some [''role'' \<mapsto> MText (own_role created)]) (set_own b st),
                   redirect ''/admin/ui/owners'')))"

definition handleDeleteOwner_ui :: "string \<Rightarrow> 'fs page_handler" where
  "handleDeleteOwner_ui i X actor r st =
     (case DeleteOwner (v_owner (x_env X)) i (own (core st)) of
        (b, Inl e) \<Rightarrow> renderOwnersWithError X actor e (set_own b st)
      | (b, Inr deleted) \<Rightarrow>
          (ui_note X EventOwnerDelete (owner_party actor) (owner_party deleted)
             (Some [''role'' \<mapsto> MText (own_role deleted)]) (set_own b st),
           redirect ''/admin/ui/owners''))"


section \<open>Customer accounts\<close>

abbreviation defaultLimit :: int where "defaultLimit \<equiv> 50"

abbreviation maxLimit :: int where "maxLimit \<equiv> 200"

definition page_limit :: "string \<Rightarrow> message + int" where
  "page_limit v =
     (if v = [] then Inr defaultLimit
      else (case Atoi v of
              None \<Rightarrow> Inl (BadLimit v)
            | Some n \<Rightarrow> if n \<le> 0 then Inl (BadLimit v) else if n > maxLimit then Inl (LimitExceeds n) else Inr n))"

definition page_offset :: "string \<Rightarrow> message + int" where
  "page_offset v =
     (if v = [] then Inr 0
      else (case Atoi v of None \<Rightarrow> Inl (BadOffset v) | Some n \<Rightarrow> if n < 0 then Inl (BadOffset v) else Inr n))"

definition parsePagination_ui :: "ui_req \<Rightarrow> message + int \<times> int" where
  "parsePagination_ui r =
     (case page_limit (query_get (uq_http r) ''limit'') of
        Inl e \<Rightarrow> Inl e
      | Inr limit \<Rightarrow>
          (case page_offset (query_get (uq_http r) ''offset'') of Inl e \<Rightarrow> Inl e | Inr offset \<Rightarrow> Inr (limit, offset)))"

definition handleUsersPage :: "'fs page_handler" where
  "handleUsersPage X owner r st =
     (case parsePagination_ui r of
        Inl e \<Rightarrow> (st, Shown 400 [] None (PlainPaging e))
      | Inr (limit, offset) \<Rightarrow>
          (case ListUsers (v_auth (x_env X)) (nat limit) (nat offset) (acct (core st)) of
             Inl _ \<Rightarrow> (st, internal_error)
           | Inr us \<Rightarrow>
               (case CountUsers (v_auth (x_env X)) (acct (core st)) of
                  Inl _ \<Rightarrow> (st, internal_error)
                | Inr total_users \<Rightarrow>
                    (st, render (UsersPage owner us limit offset total_users (AtLeast (own_role owner) ''developer'') None)))))"

definition renderUsersWithError :: "'fs ui_env \<Rightarrow> owner_row \<Rightarrow> ui_req \<Rightarrow> auth_error \<Rightarrow> 'fs ui \<Rightarrow> 'fs ui \<times> ui_outcome" where
  "renderUsersWithError X owner r err st =
     (let (limit, offset) = (case parsePagination_ui r of Inl _ \<Rightarrow> (defaultLimit, 0) | Inr p \<Rightarrow> p);
          us = (case ListUsers (v_auth (x_env X)) (nat limit) (nat offset) (acct (core st)) of Inl _ \<Rightarrow> [] | Inr us \<Rightarrow> us);
          total_users = (case CountUsers (v_auth (x_env X)) (acct (core st)) of Inl _ \<Rightarrow> 0 | Inr n \<Rightarrow> n)
      in (st, render (UsersPage owner us limit offset total_users (AtLeast (own_role owner) ''developer'') (Some err))))"

definition handleUserDetail :: "string \<Rightarrow> 'fs page_handler" where
  "handleUserDetail i X owner r st =
     (let V = x_env X; a = acct (core st)
      in case getUserByID (v_auth V) i a of
           Inl _ \<Rightarrow> (st, NotFound)
         | Inr user \<Rightarrow>
             (case CountActiveSessions (v_auth V) (v_now V) (user_id user) a of
                Inl _ \<Rightarrow> (st, internal_error)
              | Inr sessionCount \<Rightarrow>
                  (case ListSocialIdentities (v_auth V) (user_id user) a of
                     Inl _ \<Rightarrow> (st, internal_error)
                   | Inr socialIdentities \<Rightarrow>
                       (case CountPendingResetTokens (v_auth V) (v_now V) (user_id user) a of
                          Inl _ \<Rightarrow> (st, internal_error)
                        | Inr pending \<Rightarrow>
                            (st, render (UserDetailPage owner user sessionCount socialIdentities pending
                                   (AtLeast (own_role owner) ''developer'')))))))"

definition handleCreateUser :: "'fs page_handler" where
  "handleCreateUser X owner r st =
     (case uq_form r of
        None \<Rightarrow> (st, http_error 400 ''invalid form'')
      | Some f \<Rightarrow>
          (let V = x_env X
           in case SignUp (v_auth V) (v_now V) (v_uuid V) (FormValue f ''email'') (FormValue f ''password'') (acct (core st)) of
                (a, Inl e) \<Rightarrow> renderUsersWithError X owner r e (set_acct a st)
              | (a, Inr created) \<Rightarrow>
                  (ui_note X EventUserCreate (owner_party owner) (user_party created) None (set_acct a st),
                   redirect ''/admin/ui/users'')))"

definition handleDeleteUser :: "string \<Rightarrow> 'fs page_handler" where
  "handleDeleteUser i X owner r st =
     (let V = x_env X; failed = http_error 500 ''delete failed''
      in case getUserByID (v_auth V) i (acct (core st)) of
           Inl _ \<Rightarrow> (st, NotFound)
         | Inr user \<Rightarrow>
             (case DeleteOwned (v_engine V) (live_server st) i (rest (core st)) of
                (d, EraseFailed) \<Rightarrow> (set_rest d st, failed)
              | (d, ErasePanicked) \<Rightarrow> (set_rest d st, UIPanicked)
              | (d, Erased) \<Rightarrow>
                  (case DeleteOwnedFiles (v_backend V) (v_file V) (v_remove V) i (stor (core st)) of
                     (s, False) \<Rightarrow> (st\<lparr>core := (core st)\<lparr>rest := d, stor := s\<rparr>\<rparr>, failed)
                   | (s, True) \<Rightarrow>
                       (case RevokeForSubject (v_oauth V) i (oau (core st)) of
                          (w, Inl _) \<Rightarrow> (st\<lparr>core := (core st)\<lparr>rest := d, stor := s, oau := w\<rparr>\<rparr>, failed)
                        | (w, Inr _) \<Rightarrow>
                            (case delete_user V i ((core st)\<lparr>rest := d, stor := s, oau := w\<rparr>) of
                               (c, False) \<Rightarrow> (st\<lparr>core := c\<rparr>, failed)
                             | (c, True) \<Rightarrow>
                                 (ui_note X EventUserDelete (owner_party owner) (user_party user) None (st\<lparr>core := c\<rparr>),
                                  redirect ''/admin/ui/users''))))))"

definition handleRevokeUserSessions :: "string \<Rightarrow> 'fs page_handler" where
  "handleRevokeUserSessions i X owner r st =
     (let V = x_env X
      in case getUserByID (v_auth V) i (acct (core st)) of
           Inl _ \<Rightarrow> (st, NotFound)
         | Inr user \<Rightarrow>
             (case RevokeAllSessions (v_auth V) i (acct (core st)) of
                (a, Inl _) \<Rightarrow> (set_acct a st, http_error 500 ''revoke failed'')
              | (a, Inr revoked) \<Rightarrow>
                  (ui_note X EventUserSessionsRevoked (owner_party owner) (user_party user)
                     (Some [''sessions_revoked'' \<mapsto> MCount revoked]) (set_acct a st),
                   redirect (''/admin/ui/users/'' @ i))))"


section \<open>Audit trail and maintenance\<close>

definition handleAuditLogPage :: "'fs page_handler" where
  "handleAuditLogPage X owner r st =
     (case parsePagination_ui r of
        Inl e \<Rightarrow> (st, Shown 400 [] None (PlainPaging e))
      | Inr (limit, offset) \<Rightarrow>
          (case ListAudit (v_audit (x_env X)) limit offset (trail (core st)) of
             None \<Rightarrow> (st, internal_error)
           | Some entries \<Rightarrow> (st, render (AuditLogPage owner entries limit offset))))"

definition handleMaintenancePage :: "'fs page_handler" where
  "handleMaintenancePage X owner r st = (st, render (MaintenancePage owner None))"

definition handlePurgeSessions_ui :: "'fs page_handler" where
  "handlePurgeSessions_ui X owner r st =
     (let V = x_env X
      in case PurgeExpiredSessions (v_auth V) (v_now V) (acct (core st)) of
           (a, Inl _) \<Rightarrow> (set_acct a st, internal_error)
         | (a, Inr n) \<Rightarrow>
             (case ownerPurgeExpired (v_owner V) (v_now V) (own (core st)) of
                (b, Inl _) \<Rightarrow> (set_own b (set_acct a st), internal_error)
              | (b, Inr m) \<Rightarrow>
                  (case PurgeExpiredResetTokens (v_auth V) (v_now V) a of
                     (a', Inl _) \<Rightarrow> (set_own b (set_acct a' st), internal_error)
                   | (a', Inr k) \<Rightarrow>
                       (ui_note X EventSessionsPurged (owner_party owner) nobody
                          (Some [''sessions'' \<mapsto> MCount n, ''owner_sessions'' \<mapsto> MCount m, ''reset_tokens'' \<mapsto> MCount k])
                          (set_own b (set_acct a' st)),
                        render (MaintenancePage owner (Some (n, m, k)))))))"


section \<open>The data browser\<close>

abbreviation canWrite :: "owner_row \<Rightarrow> bool" where
  "canWrite owner \<equiv> AtLeast (own_role owner) ''developer''"

definition handleDataCollections :: "'fs page_handler" where
  "handleDataCollections X owner r st =
     (st, render (DataCollectionsPage owner (AdminCollections (live_server st)) (canWrite owner)))"

definition handleDataRows :: "string \<Rightarrow> 'fs page_handler" where
  "handleDataRows name X owner r st =
     (case AdminCollection (live_server st) name of
        None \<Rightarrow> (st, NotFound)
      | Some col \<Rightarrow>
          (case parsePagination_ui r of
             Inl e \<Rightarrow> (st, Shown 400 [] None (PlainPaging e))
           | Inr (limit, offset) \<Rightarrow>
               (let sortCol = query_get (uq_http r) ''sort''; sortDir = query_get (uq_http r) ''dir''
                in case AdminListRows (v_engine (x_env X)) (x_le X) col (nat limit) (nat offset) sortCol sortDir (rest (core st)) of
                     Inl _ \<Rightarrow> (st, internal_error)
                   | Inr rows \<Rightarrow>
                       (case AdminCountRows (v_engine (x_env X)) col (rest (core st)) of
                          Inl _ \<Rightarrow> (st, internal_error)
                        | Inr n \<Rightarrow>
                            (st, render (DataRowsPage owner col rows limit offset n sortCol sortDir (canWrite owner)))))))"

text \<open>Three handlers show one row, found by the identifier in the path; they differ in what they show.\<close>

definition with_row :: "string \<Rightarrow> string \<Rightarrow> (Collection \<Rightarrow> row \<Rightarrow> page) \<Rightarrow> 'fs ui_env \<Rightarrow> 'fs ui \<Rightarrow> 'fs ui \<times> ui_outcome" where
  "with_row name i show_row X st =
     (case AdminCollection (live_server st) name of
        None \<Rightarrow> (st, NotFound)
      | Some col \<Rightarrow>
          (case AdminGetRow (v_engine (x_env X)) col (VText i) (rest (core st)) of
             Inl _ \<Rightarrow> (st, NotFound)
           | Inr row \<Rightarrow> (st, render (show_row col row))))"

definition handleDataRowFragment :: "string \<Rightarrow> string \<Rightarrow> 'fs page_handler" where
  "handleDataRowFragment name i X owner r st = with_row name i (\<lambda>col row. DataRowFragment col row (canWrite owner)) X st"

definition handleDataEditRowFragment :: "string \<Rightarrow> string \<Rightarrow> 'fs page_handler" where
  "handleDataEditRowFragment name i X owner r st = with_row name i DataRowEditInline X st"

definition handleDataEditForm :: "string \<Rightarrow> string \<Rightarrow> 'fs page_handler" where
  "handleDataEditForm name i X owner r st = with_row name i (DataRowEditPage owner) X st"

text \<open>The body of a write: only columns of the collection, a checked NULL box overriding the text.\<close>

fun form_cells :: "form \<Rightarrow> Column list \<Rightarrow> cells" where
  "form_cells f [] = []"
| "form_cells f (c # cs) =
     (if FormHas f (ColName c @ ''__null'') then (ColName c, VNull) # form_cells f cs
      else if FormHas f (ColName c) then (ColName c, VText (FormValue f (ColName c))) # form_cells f cs
      else form_cells f cs)"

definition formToBody :: "form \<Rightarrow> Collection \<Rightarrow> cells" where
  "formToBody f col = form_cells f (Columns col)"

definition handleDataCreate :: "string \<Rightarrow> 'fs page_handler" where
  "handleDataCreate name X owner r st =
     (case AdminCollection (live_server st) name of
        None \<Rightarrow> (st, NotFound)
      | Some col \<Rightarrow>
          (case uq_form r of
             None \<Rightarrow> (st, http_error 400 ''invalid form'')
           | Some f \<Rightarrow>
               (case AdminCreateRow (v_engine (x_env X)) (x_row_uuid X) col (formToBody f col) (rest (core st)) of
                  (d, Inl AdminPanic) \<Rightarrow> (set_rest d st, UIPanicked)
                | (d, Inl e) \<Rightarrow> (set_rest d st, Shown 400 [] None (PlainRow ''create failed: '' e))
                | (d, Inr _) \<Rightarrow> (set_rest d st, redirect (''/admin/ui/data/'' @ name)))))"

definition handleDataUpdate :: "string \<Rightarrow> string \<Rightarrow> 'fs page_handler" where
  "handleDataUpdate name i X owner r st =
     (case AdminCollection (live_server st) name of
        None \<Rightarrow> (st, NotFound)
      | Some col \<Rightarrow>
          (case uq_form r of
             None \<Rightarrow> (st, http_error 400 ''invalid form'')
           | Some f \<Rightarrow>
               (case AdminUpdateRow (v_engine (x_env X)) col (VText i) (formToBody f col) (rest (core st)) of
                  (d, Inl AdminPanic) \<Rightarrow> (set_rest d st, UIPanicked)
                | (d, Inl e) \<Rightarrow> (set_rest d st, Shown 400 [] None (PlainRow ''update failed: '' e))
                | (d, Inr row) \<Rightarrow>
                    (set_rest d st,
                     if uq_hx r \<noteq> [] then render (DataRowFragment col row (canWrite owner))
                     else redirect (''/admin/ui/data/'' @ name)))))"

definition handleDataDelete :: "string \<Rightarrow> string \<Rightarrow> 'fs page_handler" where
  "handleDataDelete name i X owner r st =
     (case AdminCollection (live_server st) name of
        None \<Rightarrow> (st, NotFound)
      | Some col \<Rightarrow>
          (case AdminDeleteRow (v_engine (x_env X)) col (VText i) (rest (core st)) of
             (d, res) \<Rightarrow>
               (set_rest d st,
                if res = Inl AdminPanic then UIPanicked
                else if isl res \<and> res \<noteq> Inl AdminNoRows then Shown 400 [] None (PlainRow ''delete failed: '' (projl res))
                else if uq_hx r \<noteq> [] then Shown 200 [] None Empty
                else redirect (''/admin/ui/data/'' @ name))))"


section \<open>Creating a table\<close>

definition newTableFormData :: "owner_row \<Rightarrow> table_error option \<Rightarrow> page" where
  "newTableFormData owner err = TablesNewPage owner [0, 1, 2] 3 AdminAllowedColumnTypes err"

definition handleNewTablePage :: "'fs page_handler" where
  "handleNewTablePage X owner r st = (st, render (newTableFormData owner None))"

text \<open>
  \<^verbatim>\<open>strconv.Atoi\<close> with its error ignored: what is no number counts as 0, a number out of range as the
  nearest end of the range. The sum wraps around.
\<close>

definition atoi_value :: "string \<Rightarrow> int" where
  "atoi_value s =
     (let neg = (take 1 s = ''-''); ds = (if take 1 s \<in> {''-'', ''+''} then drop 1 s else s)
      in case parse_nat ds of
           None \<Rightarrow> 0
         | Some n \<Rightarrow> max (- (2 ^ 63)) (min (2 ^ 63 - 1) (if neg then - int n else int n)))"

definition handleNewTableColumnRow :: "'fs page_handler" where
  "handleNewTableColumnRow X owner r st =
     (let n = atoi_value (query_get (uq_http r) ''n'')
      in (st, render (ColumnRowFragment n (if n = 2 ^ 63 - 1 then - (2 ^ 63) else n + 1) AdminAllowedColumnTypes)))"

fun form_columns :: "form \<Rightarrow> string list \<Rightarrow> AdminColumnDef list" where
  "form_columns f [] = []"
| "form_columns f (key # ks) =
     (if \<not> HasPrefix key ''col_name_'' then form_columns f ks
      else (let idx = TrimPrefix key ''col_name_''
            in if FormValue f key = [] then form_columns f ks
               else \<lparr>DefName = FormValue f key, DefType = FormValue f (''col_type_'' @ idx),
                     Required = FormValue f (''col_required_'' @ idx) = ''1''\<rparr> # form_columns f ks))"

definition handleCreateTable :: "'fs page_handler" where
  "handleCreateTable X owner r st =
     (case uq_form r of
        None \<Rightarrow> (st, http_error 400 ''invalid form'')
      | Some f \<Rightarrow>
          (let name = FormValue f ''name'';
               ownerScoped = (FormValue f ''owner_scoped'' = ''1'');
               columns = form_columns f (x_order X (remdups (map fst f)))
           in case AdminCreateTable (x_create X) name ownerScoped columns (db_schema st, live_server st) of
                ((sch, srv), Inl e) \<Rightarrow>
                  (st\<lparr>db_schema := sch, live_server := srv\<rparr>, render (newTableFormData owner (Some e)))
              | ((sch, srv), Inr _) \<Rightarrow>
                  (st\<lparr>db_schema := sch, live_server := srv\<rparr>, redirect (''/admin/ui/data/'' @ name))))"


section \<open>SQL Studio\<close>

definition truncateQuery :: "string \<Rightarrow> nat \<Rightarrow> string" where
  "truncateQuery q n = (if length q \<le> n then q else take n q @ ellipsis)"

definition is_query :: "string \<Rightarrow> bool" where
  "is_query query =
     (let upper = ToUpper (TrimSpace query)
      in HasPrefix upper ''SELECT'' \<or> HasPrefix upper ''PRAGMA'' \<or> HasPrefix upper ''EXPLAIN'' \<or> HasPrefix upper ''WITH'')"

text \<open>The statement is run on the whole database: the tables of every component and the schema.\<close>

definition runSQL :: "'fs ui_env \<Rightarrow> string \<Rightarrow> 'fs ui \<Rightarrow> 'fs ui \<times> (string + (string list \<times> val list list) option \<times> nat)" where
  "runSQL X query st =
     (let trimmed = TrimSpace query
      in if is_query query
         then (case x_query X trimmed (core st, db_schema st) of
                 ((c, sch), Inl e) \<Rightarrow> (st\<lparr>core := c, db_schema := sch\<rparr>, Inl e)
               | ((c, sch), Inr out) \<Rightarrow> (st\<lparr>core := c, db_schema := sch\<rparr>, Inr (Some out, 0)))
         else (case x_exec X trimmed (core st, db_schema st) of
                 ((c, sch), Inl e) \<Rightarrow> (st\<lparr>core := c, db_schema := sch\<rparr>, Inl e)
               | ((c, sch), Inr n) \<Rightarrow> (st\<lparr>core := c, db_schema := sch\<rparr>, Inr (None, n))))"

definition handleSQLStudioPage :: "'fs page_handler" where
  "handleSQLStudioPage X owner r st = (st, render (SQLStudioPage owner None))"

definition handleSQLStudioRun :: "'fs page_handler" where
  "handleSQLStudioRun X owner r st =
     (case uq_form r of
        None \<Rightarrow> (st, http_error 400 ''invalid form'')
      | Some f \<Rightarrow>
          (let query = FormValue f ''query''
           in case runSQL X query st of
                (st1, res) \<Rightarrow>
                  (let st2 = ui_note X EventSQLExecuted (owner_party owner) nobody
                               (Some [''query'' \<mapsto> MText (truncateQuery query 500), ''ok'' \<mapsto> MBool (\<not> isl res)]) st1
                   in case res of
                        Inl e \<Rightarrow> (st2, render (SQLStudioPage owner (Some (query, SQLError e))))
                      | Inr (Some (cols, rows), _) \<Rightarrow>
                          (st2, render (SQLStudioPage owner (Some (query, SQLRows cols rows (length rows)))))
                      | Inr (None, affected) \<Rightarrow>
                          (case ReloadSchema (db_schema st2) (live_server st2) of
                             Inl e \<Rightarrow> (st2, render (SQLStudioPage owner (Some (query, SQLExecuted affected (Some e)))))
                           | Inr srv \<Rightarrow>
                               (st2\<lparr>live_server := srv\<rparr>,
                                render (SQLStudioPage owner (Some (query, SQLExecuted affected None))))))))"


section \<open>The routes\<close>

datatype ui_route =
    GetUILogin | PostUILogin | PostUILogout
  | GetDashboard | GetData | GetDataRows string | GetDataRow string string | GetUsers | GetUser string
  | PostData string | GetDataEdit string string | GetDataEditRow string string | PostDataRow string string
  | PostDataDelete string string | PostUsers | PostUserDelete string | PostUserRevoke string
  | GetTablesNew | GetColumnRow | PostTables
  | GetUIOwners | GetUIAuditLog | GetMaintenance | PostUIPurge
  | PostUIOwner | PostUIOwnerDelete string | GetSQL | PostSQL

fun Mount :: "ui_route \<Rightarrow> 'fs ui_handler" where
  "Mount GetUILogin = handleLoginPage"
| "Mount PostUILogin = rateLimitLogin_ui handleLoginSubmit"
| "Mount PostUILogout = handleLogout_ui"
| "Mount GetDashboard = requireRole ''viewer'' handleDashboard"
| "Mount GetData = requireRole ''viewer'' handleDataCollections"
| "Mount (GetDataRows n) = requireRole ''viewer'' (handleDataRows n)"
| "Mount (GetDataRow n i) = requireRole ''viewer'' (handleDataRowFragment n i)"
| "Mount GetUsers = requireRole ''viewer'' handleUsersPage"
| "Mount (GetUser i) = requireRole ''viewer'' (handleUserDetail i)"
| "Mount (PostData n) = requireRole ''developer'' (handleDataCreate n)"
| "Mount (GetDataEdit n i) = requireRole ''developer'' (handleDataEditForm n i)"
| "Mount (GetDataEditRow n i) = requireRole ''developer'' (handleDataEditRowFragment n i)"
| "Mount (PostDataRow n i) = requireRole ''developer'' (handleDataUpdate n i)"
| "Mount (PostDataDelete n i) = requireRole ''developer'' (handleDataDelete n i)"
| "Mount PostUsers = requireRole ''developer'' handleCreateUser"
| "Mount (PostUserDelete i) = requireRole ''developer'' (handleDeleteUser i)"
| "Mount (PostUserRevoke i) = requireRole ''developer'' (handleRevokeUserSessions i)"
| "Mount GetTablesNew = requireRole ''developer'' handleNewTablePage"
| "Mount GetColumnRow = requireRole ''developer'' handleNewTableColumnRow"
| "Mount PostTables = requireRole ''developer'' handleCreateTable"
| "Mount GetUIOwners = requireRole ''admin'' handleOwnersPage"
| "Mount GetUIAuditLog = requireRole ''admin'' handleAuditLogPage"
| "Mount GetMaintenance = requireRole ''admin'' handleMaintenancePage"
| "Mount PostUIPurge = requireRole ''admin'' handlePurgeSessions_ui"
| "Mount PostUIOwner = requireRole ''owner'' handleCreateOwner_ui"
| "Mount (PostUIOwnerDelete i) = requireRole ''owner'' (handleDeleteOwner_ui i)"
| "Mount GetSQL = requireRole ''owner'' handleSQLStudioPage"
| "Mount PostSQL = requireRole ''owner'' handleSQLStudioRun"

end
