(* ===== verification/Admin_UI_Properties.thy ===== *)
theory Admin_UI_Properties
  imports Admin_UI
begin

text \<open>
  What the admin UI promises: which role may change what, that it acts on the owner plane and on
  customer accounts exactly as the JSON routes do, that every run of SQL Studio leaves its entry, what
  a submitted form means, and that all of it but raw SQL keeps the server's invariants.
\<close>

section \<open>The same plane as the JSON routes\<close>

lemma ui_note_core [simp]: "core (ui_note X ev p g md st) = audit_note (x_env X) ev p g md (core st)"
  by (simp add: ui_note_def)

lemma ui_note_rest [simp]:
  "live_server (ui_note X ev p g md st) = live_server st" "db_schema (ui_note X ev p g md st) = db_schema st"
  "uiLoginLimiter (ui_note X ev p g md st) = uiLoginLimiter st"
  by (simp_all add: ui_note_def)

lemma renderOwners_state [simp]: "fst (renderOwnersWithError X actor e st) = st"
  by (simp add: renderOwnersWithError_def)

lemma renderUsers_state [simp]: "fst (renderUsersWithError X actor r e st) = st"
  by (simp add: renderUsersWithError_def case_prod_beta Let_def)

text \<open>
  The admin UI is a second surface over the same owner plane, not another authorization model. Given
  the same values, signing in and out, creating and deleting an owner and purging sessions leave the
  server in exactly the state the JSON route would: accounts, sessions, audit entries and all.
\<close>

theorem ui_acts_as_json_routes:
  assumes "uq_form r = Some f" and "decodeJSON [''email'', ''password''] (uq_http r) = Some g"
    and "decodeJSON [''email'', ''password'', ''role''] q = Some h"
    and "g ''email'' = FormValue f ''email''" "g ''password'' = FormValue f ''password''"
    and "h ''email'' = FormValue f ''email''" "h ''password'' = FormValue f ''password''" "h ''role'' = FormValue f ''role''"
    and "cx_owner c = Some actor"
  shows "core (fst (handleLoginSubmit X r st)) = fst (handleOwnerLogin (x_env X) c (uq_http r) (core st)) \<and>
    core (fst (handleLogout_ui X r st)) = fst (handleOwnerLogout (x_env X) c (uq_http r) (core st)) \<and>
    core (fst (handleCreateOwner_ui X actor r st)) = fst (handleCreateOwner (x_env X) c q (core st)) \<and>
    core (fst (handleDeleteOwner_ui i X actor r st)) = fst (handleDeleteOwner i (x_env X) c q (core st)) \<and>
    core (fst (handlePurgeSessions_ui X actor r st)) = fst (handlePurgeSessions (x_env X) c q (core st))"
  using assms
  by (simp add: handleLoginSubmit_def handleOwnerLogin_def handleLogout_ui_def handleOwnerLogout_def handleCreateOwner_ui_def
      handleCreateOwner_def handleDeleteOwner_ui_def handleDeleteOwner_def handlePurgeSessions_ui_def handlePurgeSessions_def
      Let_def split: sum.split option.split prod.split)

definition mirror_http :: http_req where
  "mirror_http = blank_req\<lparr>hq_json := Some [(''email'', MemString ''two@x.co''), (''password'', MemString ''changeme'')]\<rparr>"

definition mirror_form :: form where
  "mirror_form = [(''email'', ''two@x.co''), (''password'', ''changeme''), (''role'', ''viewer'')]"

definition demo_ui :: "dir ui" where
  "demo_ui = \<lparr>core = owned_state, db_schema = \<lparr>sqlite_master = [], info_of = (\<lambda>_. []), policies = [], query_fails = (\<lambda>_. False)\<rparr>,
     live_server = journal_server, uiLoginLimiter = New 5 second\<rparr>"

definition demo_ui_env :: "dir ui_env" where
  "demo_ui_env =
     \<lparr>x_env = demo_env, x_le = (\<lambda>_ _. True), x_row_uuid = ''r1'', x_order = id, x_create = (\<lambda>_ _ s. Inr s),
      x_query = (\<lambda>_ db. (db, Inr ([''n''], [[VInt 1]]))), x_exec = (\<lambda>_ db. (db, Inr 1))\<rparr>"

definition root_owner :: owner_row where
  "root_owner = \<lparr>own_id = ''o1'', own_email = ''root@x.co'', own_hash = ''changeme'', own_role = ''owner'', own_created = 0\<rparr>"

theorem ui_acts_as_json_routes_witness:
  "map own_email (owner_users (own (core (fst (handleCreateOwner_ui demo_ui_env root_owner
      \<lparr>uq_http = mirror_http, uq_form = Some mirror_form, uq_hx = []\<rparr> demo_ui)))))
   = map own_email (owner_users (own (fst (handleCreateOwner demo_env \<lparr>cx_user = None, cx_owner = Some root_owner\<rparr> owner_req owned_state))))
   \<and> length (owner_users (own (fst (handleCreateOwner demo_env \<lparr>cx_user = None, cx_owner = Some root_owner\<rparr> owner_req owned_state)))) = 2"
proof -
  let ?r = "\<lparr>uq_http = mirror_http, uq_form = Some mirror_form, uq_hx = []\<rparr>"
  let ?g = "field_value [(''email'', MemString ''two@x.co''), (''password'', MemString ''changeme'')]"
  let ?h = "field_value [(''email'', MemString ''two@x.co''), (''password'', MemString ''changeme''), (''role'', MemString ''viewer'')]"
  have low: "ToLower ''email'' = ''email''" "ToLower ''password'' = ''password''" "ToLower ''role'' = ''role''" by code_simp+
  have a: "uq_form ?r = Some mirror_form" by simp
  have b: "decodeJSON [''email'', ''password''] (uq_http ?r) = Some ?g"
    using low by (simp add: decodeJSON_def mirror_http_def blank_req_def)
  have c: "decodeJSON [''email'', ''password'', ''role''] owner_req = Some ?h"
    using low by (simp add: decodeJSON_def owner_req_def blank_req_def)
  have d: "?g ''email'' = FormValue mirror_form ''email''" "?g ''password'' = FormValue mirror_form ''password''"
     "?h ''email'' = FormValue mirror_form ''email''" "?h ''password'' = FormValue mirror_form ''password''"
     "?h ''role'' = FormValue mirror_form ''role''"
    by code_simp+
  have n: "length (owner_users (own (fst (handleCreateOwner demo_env \<lparr>cx_user = None, cx_owner = Some root_owner\<rparr> owner_req owned_state)))) = 2"
    by code_simp
  from ui_acts_as_json_routes [OF a b c d, of "\<lparr>cx_user = None, cx_owner = Some root_owner\<rparr>" root_owner demo_ui_env demo_ui] n
  show ?thesis by (simp add: demo_ui_def demo_ui_env_def)
qed


section \<open>Deleting an account for somebody\<close>

lemma getUserByID_id: "getUserByID W i a = Inr u \<Longrightarrow> user_id u = i"
  by (auto simp: getUserByID_def user_by_id_def simp: find_Some_iff split: if_splits option.splits)

text \<open>
  C35. An administrator's deletion of a customer account has exactly the consequences of the customer's
  own. Run on the same state with the same failures, both leave the same rows, files, grants,
  consents, accounts, sessions and everything else, and stop at the same place. Only the entry in the
  trail differs: it names the administrator as the actor, and like the other is written only after
  everything has been deleted.
\<close>

theorem admin_deletion_equals_self_deletion:
  assumes "getUserByID (v_auth V) i (acct (core st)) = Inr u" and "cx_user c = Some u"
    and "x_env X = V" and "v_server V = live_server st"
  shows "(let (st', out) = handleDeleteUser i X owner r st; (c', out') = handleDeleteAccount V c q (core st)
     in (core st')\<lparr>trail := t\<rparr> = c'\<lparr>trail := t\<rparr> \<and> live_server st' = live_server st \<and> db_schema st' = db_schema st \<and>
        (case out' of
           Panicked \<Rightarrow> out = UIPanicked \<and> trail (core st') = trail (core st)
         | Answer a \<Rightarrow>
             if rs_code a = 204
             then out = redirect ''/admin/ui/users'' \<and>
               trail (core st') = RecordLogged (v_audit V) EventUserDelete (owner_party owner) (user_party u) None (trail (core st)) \<and>
               trail c' = RecordLogged (v_audit V) EventCustomerAccountDeleted (user_party u) (user_party u) None (trail (core st))
             else out = http_error 500 ''delete failed'' \<and> trail (core st') = trail (core st) \<and> trail c' = trail (core st)))"
proof -
  have i: "user_id u = i" by (rule getUserByID_id [OF assms(1)])
  obtain d x where d: "DeleteOwned (v_engine V) (live_server st) i (rest (core st)) = (d, x)" by fastforce
  obtain s ok where s: "DeleteOwnedFiles (v_backend V) (v_file V) (v_remove V) i (stor (core st)) = (s, ok)" by fastforce
  obtain w y where w: "RevokeForSubject (v_oauth V) i (oau (core st)) = (w, y)" by fastforce
  obtain c1 z where z: "delete_user V i ((core st)\<lparr>rest := d, stor := s, oau := w\<rparr>) = (c1, z)" by fastforce
  have tr: "trail c1 = trail (core st)"
    using z by (auto simp: delete_user_def DeleteUser_eq cascade_user_def split: if_splits)
  show ?thesis
    by (cases x; cases ok; cases y; cases z)
      (simp_all add: handleDeleteUser_def handleDeleteAccount_def assms i d s w z tr audit_note_def Let_def)
qed

theorem admin_deletion_equals_self_deletion_witness:
  "let st = demo_ui\<lparr>core := ann_state\<rparr>; u = hd (users two_accounts);
       st' = fst (handleDeleteUser ''u1'' demo_ui_env root_owner \<lparr>uq_http = blank_req, uq_form = None, uq_hx = []\<rparr> st);
       c' = fst (handleDeleteAccount demo_env \<lparr>cx_user = Some u, cx_owner = None\<rparr> blank_req ann_state)
   in (core st')\<lparr>trail := []\<rparr> = c'\<lparr>trail := []\<rparr>"
proof -
  let ?st = "demo_ui\<lparr>core := ann_state\<rparr>" and ?u = "hd (users two_accounts)"
  have a: "getUserByID (v_auth demo_env) ''u1'' (acct (core ?st)) = Inr ?u" by code_simp
  have b: "x_env demo_ui_env = demo_env" "v_server demo_env = live_server ?st"
    by (simp_all add: demo_ui_env_def demo_env_def demo_ui_def)
  from admin_deletion_equals_self_deletion [OF a _ b, of "\<lparr>cx_user = Some ?u, cx_owner = None\<rparr>" root_owner
      "\<lparr>uq_http = blank_req, uq_form = None, uq_hx = []\<rparr>" blank_req "[]"]
  show ?thesis by (simp add: Let_def case_prod_beta)
qed


section \<open>Who may change what\<close>

definition ui_owner :: "'fs ui_env \<Rightarrow> ui_req \<Rightarrow> 'fs ui \<Rightarrow> owner_row option" where
  "ui_owner X r st = signed_in_owner (x_env X) (uq_http r) (core st)"

lemma requireRole_eq:
  "requireRole least nxt X r st =
     (case ui_owner X r st of
        None \<Rightarrow> (st, redirect ''/admin/ui/login'')
      | Some owner \<Rightarrow> if AtLeast (own_role owner) least then nxt X owner r st
                       else (st, Shown 403 [] None (Html (ForbiddenPage owner))))"
  by (auto simp: requireRole_def ui_owner_def signed_in_owner_def split: option.splits sum.splits)

lemma AtLeast_tiers:
  "AtLeast role ''developer'' \<longleftrightarrow> role \<in> {''developer'', ''admin'', ''owner''}"
  "AtLeast role ''admin'' \<longleftrightarrow> role \<in> {''admin'', ''owner''}"
  "AtLeast role ''viewer'' \<longleftrightarrow> role \<in> {''viewer'', ''developer'', ''admin'', ''owner''}"
  by (auto simp: AtLeast_def rank_def split: option.splits if_splits)

lemma ui_reads [frame]:
  "fst (handleLoginPage X r st) = st" "fst (handleDashboard X o' r st) = st" "fst (handleDataCollections X o' r st) = st"
  "fst (handleDataRows n X o' r st) = st" "fst (with_row n i w X st) = st" "fst (handleUsersPage X o' r st) = st"
  "fst (handleUserDetail i X o' r st) = st" "fst (handleOwnersPage X o' r st) = st" "fst (handleAuditLogPage X o' r st) = st"
  "fst (handleMaintenancePage X o' r st) = st" "fst (handleNewTablePage X o' r st) = st"
  "fst (handleNewTableColumnRow X o' r st) = st" "fst (handleSQLStudioPage X o' r st) = st"
  by (simp_all add: handleLoginPage_def handleDashboard_def handleDataCollections_def handleDataRows_def with_row_def handleUsersPage_def
      handleUserDetail_def handleOwnersPage_def handleAuditLogPage_def handleMaintenancePage_def handleNewTablePage_def
      handleNewTableColumnRow_def handleSQLStudioPage_def Let_def split: option.split sum.split prod.split)

lemma ui_row_reads [frame]:
  "fst (handleDataRowFragment n i X o' r st) = st" "fst (handleDataEditRowFragment n i X o' r st) = st"
  "fst (handleDataEditForm n i X o' r st) = st"
  by (simp_all add: handleDataRowFragment_def handleDataEditRowFragment_def handleDataEditForm_def frame)

lemma ui_data_writes:
  "\<exists>d. fst (handleDataCreate n X o' r st) = set_rest d st" "\<exists>d. fst (handleDataUpdate n i X o' r st) = set_rest d st"
  "\<exists>d. fst (handleDataDelete n i X o' r st) = set_rest d st"
proof -
  have same: "\<exists>d. st = set_rest d st" by (intro exI [of _ "rest (core st)"]) simp
  show "\<exists>d. fst (handleDataCreate n X o' r st) = set_rest d st"
    using same by (auto simp: handleDataCreate_def split: option.split sum.split prod.split admin_error.split)
  show "\<exists>d. fst (handleDataUpdate n i X o' r st) = set_rest d st"
    using same by (auto simp: handleDataUpdate_def split: option.split sum.split prod.split admin_error.split)
  show "\<exists>d. fst (handleDataDelete n i X o' r st) = set_rest d st"
    using same by (auto simp: handleDataDelete_def split: option.split prod.split)
qed

lemma ui_table_write: "\<exists>sch srv. fst (handleCreateTable X o' r st) = st\<lparr>db_schema := sch, live_server := srv\<rparr>"
proof -
  have "\<exists>sch srv. st = st\<lparr>db_schema := sch, live_server := srv\<rparr>"
    by (intro exI [of _ "db_schema st"] exI [of _ "live_server st"]) simp
  then show ?thesis by (auto simp: handleCreateTable_def Let_def split: option.split sum.split prod.split)
qed

section \<open>The invariants of the server\<close>

lemma ui_owner_some: "ui_owner X r st = Some o' \<Longrightarrow> owner_users (own (core st)) \<noteq> []"
  by (auto simp: ui_owner_def signed_in_owner_def dest: owner_session_some split: option.splits sum.splits)

context server_invariant
begin

lemma keeps_LoginSubmit: "I (core st) \<Longrightarrow> I (core (fst (handleLoginSubmit X r st)))"
proof (cases "uq_form r")
  case (Some f)
  assume i: "I (core st)"
  let ?V = "x_env X"
  obtain b res where s: "ownerLogin (v_owner ?V) (v_now ?V) (v_token ?V) (v_session_id ?V) (FormValue f ''email'') (FormValue f ''password'')
      (own (core st)) = (b, res)" by fastforce
  have "I ((core st)\<lparr>own := b\<rparr>)" using own_result [OF i owner_step.login s] .
  with Some s show ?thesis by (cases res) (simp_all add: handleLoginSubmit_def Let_def audit_step)
qed (simp add: handleLoginSubmit_def)

lemma keeps_UILogin: "I (core st) \<Longrightarrow> I (core (fst (rateLimitLogin_ui handleLoginSubmit X r st)))"
  by (auto simp: rateLimitLogin_ui_def keeps_LoginSubmit audit_step split: prod.split)

lemma keeps_UILogout: "I (core st) \<Longrightarrow> I (core (fst (handleLogout_ui X r st)))"
  using own_step [OF _ owner_step.logout] audit_step
  by (auto simp: handleLogout_ui_def Let_def split: sum.split option.split)

lemma keeps_UICreateOwner:
  assumes i: "I (core st)" and ne: "owner_users (own (core st)) \<noteq> []"
  shows "I (core (fst (handleCreateOwner_ui X o' r st)))"
proof (cases "uq_form r")
  case (Some f)
  let ?V = "x_env X"
  obtain b res where s: "CreateOwner (v_owner ?V) (v_now ?V) (v_uuid ?V) (FormValue f ''email'') (FormValue f ''password'')
      (FormValue f ''role'') (own (core st)) = (b, res)" by fastforce
  have "I ((core st)\<lparr>own := b\<rparr>)" using own_result [OF i owner_step.create [OF ne] s] .
  with Some s show ?thesis by (cases res) (simp_all add: handleCreateOwner_ui_def Let_def audit_step)
qed (use i in \<open>simp add: handleCreateOwner_ui_def\<close>)

lemma keeps_UIDeleteOwner: "I (core st) \<Longrightarrow> I (core (fst (handleDeleteOwner_ui i X o' r st)))"
proof -
  assume i: "I (core st)"
  obtain b res where s: "DeleteOwner (v_owner (x_env X)) i (own (core st)) = (b, res)" by fastforce
  have "I ((core st)\<lparr>own := b\<rparr>)" using own_result [OF i owner_step.delete s] .
  with s show ?thesis by (cases res) (simp_all add: handleDeleteOwner_ui_def audit_step)
qed

lemma keeps_CreateUser: "I (core st) \<Longrightarrow> v_uuid (x_env X) \<in> N \<Longrightarrow> I (core (fst (handleCreateUser X o' r st)))"
proof (cases "uq_form r")
  case (Some f)
  assume i: "I (core st)" and n: "v_uuid (x_env X) \<in> N"
  let ?V = "x_env X"
  obtain a res where s: "SignUp (v_auth ?V) (v_now ?V) (v_uuid ?V) (FormValue f ''email'') (FormValue f ''password'')
      (acct (core st)) = (a, res)" by fastforce
  have "I ((core st)\<lparr>acct := a\<rparr>)" using acct_result [OF i auth_step.intros(1) account_ids_new(1) [OF n] s] .
  with Some s show ?thesis by (cases res) (simp_all add: handleCreateUser_def Let_def audit_step)
qed (simp add: handleCreateUser_def)

lemma keeps_DeleteUser: "I (core st) \<Longrightarrow> I (core (fst (handleDeleteUser i X o' r st)))"
proof (cases "getUserByID (v_auth (x_env X)) i (acct (core st))")
  case (Inr u)
  assume i: "I (core st)"
  let ?V = "x_env X"
  obtain d x where d: "DeleteOwned (v_engine ?V) (live_server st) i (rest (core st)) = (d, x)" by fastforce
  obtain s ok where s: "DeleteOwnedFiles (v_backend ?V) (v_file ?V) (v_remove ?V) i (stor (core st)) = (s, ok)" by fastforce
  obtain w y where w: "RevokeForSubject (v_oauth ?V) i (oau (core st)) = (w, y)" by fastforce
  obtain c z where z: "delete_user ?V i ((core st)\<lparr>rest := d, stor := s, oau := w\<rparr>) = (c, z)" by fastforce
  show ?thesis
    using keeps_stages [OF i s w z] by (cases x; cases ok; cases y; cases z) (simp_all add: handleDeleteUser_def Inr d s w z audit_step)
qed (simp add: handleDeleteUser_def)

lemma keeps_RevokeUser: "I (core st) \<Longrightarrow> I (core (fst (handleRevokeUserSessions i X o' r st)))"
  using acct_step [OF _ auth_step.intros(5) account_ids_old(3), of "core st" "v_auth (x_env X)" i] audit_step
  by (auto simp: handleRevokeUserSessions_def Let_def RevokeAllSessions_def split: sum.split if_split)

end

lemma ui_purge_core:
  "core (fst (handlePurgeSessions_ui X o' r st)) = fst (handlePurgeSessions (x_env X) \<lparr>cx_user = None, cx_owner = Some o'\<rparr> q (core st))"
  by (simp add: handlePurgeSessions_ui_def handlePurgeSessions_def Let_def split: sum.split prod.split)

lemma ui_data_core:
  "\<exists>d. core (fst (handleDataCreate n X o' r st)) = (core st)\<lparr>rest := d\<rparr>"
  "\<exists>d. core (fst (handleDataUpdate n i X o' r st)) = (core st)\<lparr>rest := d\<rparr>"
  "\<exists>d. core (fst (handleDataDelete n i X o' r st)) = (core st)\<lparr>rest := d\<rparr>"
  using ui_data_writes(1) [of n X o' r st] ui_data_writes(2,3) [of n i X o' r st] by auto

lemma ui_table_core [frame]: "core (fst (handleCreateTable X o' r st)) = core st"
  using ui_table_write [of X o' r st] by auto

context server_invariant
begin

lemma keeps_data:
  assumes "I (core st)"
  shows "I (core (fst (handleDataCreate n X o' r st)))" "I (core (fst (handleDataUpdate n i X o' r st)))"
    "I (core (fst (handleDataDelete n i X o' r st)))"
  using rest_step [OF assms] ui_data_core(1) [of n X o' r st] ui_data_core(2,3) [of n i X o' r st] by auto

lemma keeps_UIPurge: "I (core st) \<Longrightarrow> I (core (fst (handlePurgeSessions_ui X o' r st)))"
  using keeps_Purge ui_purge_core [of X o' r st "uq_http r"] by metis

lemmas keeps_ui =
  keeps_UILogin keeps_UILogout keeps_UICreateOwner keeps_UIDeleteOwner keeps_CreateUser keeps_DeleteUser keeps_RevokeUser
  keeps_data keeps_UIPurge

lemma keeps_requireRole:
  "(\<And>o'. owner_users (own (core st)) \<noteq> [] \<Longrightarrow> I (core (fst (nxt X o' r st)))) \<Longrightarrow> I (core st)
    \<Longrightarrow> I (core (fst (requireRole least nxt X r st)))"
  by (auto simp: requireRole_eq ui_owner_some split: option.split)

lemma keeps_Mount: "I (core st) \<Longrightarrow> rt \<noteq> PostSQL \<Longrightarrow> drawn (x_env X) \<subseteq> N \<Longrightarrow> I (core (fst (Mount rt X r st)))"
  by (cases rt) (simp_all add: drawn_def keeps_requireRole keeps_ui frame)

end


section \<open>Privileges\<close>

lemma own_DeleteUser [frame]: "own (core (fst (handleDeleteUser i X o' r st))) = own (core st)"
proof (cases "getUserByID (v_auth (x_env X)) i (acct (core st))")
  case (Inr u)
  let ?V = "x_env X"
  obtain d x where d: "DeleteOwned (v_engine ?V) (live_server st) i (rest (core st)) = (d, x)" by fastforce
  obtain s ok where s: "DeleteOwnedFiles (v_backend ?V) (v_file ?V) (v_remove ?V) i (stor (core st)) = (s, ok)" by fastforce
  obtain w y where w: "RevokeForSubject (v_oauth ?V) i (oau (core st)) = (w, y)" by fastforce
  obtain c z where z: "delete_user ?V i ((core st)\<lparr>rest := d, stor := s, oau := w\<rparr>) = (c, z)" by fastforce
  have "own c = own (core st)" using own_delete_user [of ?V i "(core st)\<lparr>rest := d, stor := s, oau := w\<rparr>"] z by simp
  then show ?thesis by (cases x; cases ok; cases y; cases z) (simp_all add: handleDeleteUser_def Inr d s w z)
qed (simp add: handleDeleteUser_def)

lemma own_developer [frame]:
  "own (core (fst (handleDataCreate n X o' r st))) = own (core st)" "own (core (fst (handleDataUpdate n i X o' r st))) = own (core st)"
  "own (core (fst (handleDataDelete n i X o' r st))) = own (core st)" "own (core (fst (handleCreateUser X o' r st))) = own (core st)"
  "own (core (fst (handleRevokeUserSessions i X o' r st))) = own (core st)"
  using ui_data_core(1) [of n X o' r st] ui_data_core(2,3) [of n i X o' r st]
  by (auto simp: handleCreateUser_def handleRevokeUserSessions_def Let_def split: option.split sum.split prod.split)

lemma owner_users_UIPurge [frame]:
  "owner_users (own (core (fst (handlePurgeSessions_ui X o' r st)))) = owner_users (own (core st))"
  using owner_accounts_frame(3) ui_purge_core [of X o' r st "uq_http r"] by metis

text \<open>
  C34. What each role can change through the admin UI, the login form and the logout button aside. Without a
  valid owner session every page answers with the redirect to the login form and changes nothing; a
  viewer changes nothing at all; a developer never touches the owner plane; and below the role owner
  no request changes an owner account or any entry of the audit trail, it can only add entries.
\<close>

theorem ui_privileges:
  assumes "rt \<noteq> PostUILogin" and "rt \<noteq> PostUILogout"
  shows "(ui_owner X r st = None \<longrightarrow> fst (Mount rt X r st) = st \<and> (rt \<noteq> GetUILogin \<longrightarrow> snd (Mount rt X r st) = redirect ''/admin/ui/login'')) \<and>
    (\<forall>o'. ui_owner X r st = Some o' \<longrightarrow>
       (\<not> AtLeast (own_role o') ''developer'' \<longrightarrow> fst (Mount rt X r st) = st) \<and>
       (\<not> AtLeast (own_role o') ''admin'' \<longrightarrow> own (core (fst (Mount rt X r st))) = own (core st)) \<and>
       (own_role o' \<noteq> ''owner'' \<longrightarrow> owner_users (own (core (fst (Mount rt X r st)))) = owner_users (own (core st)) \<and>
          (\<exists>new. trail (core (fst (Mount rt X r st))) = trail (core st) @ new)))"
proof (intro conjI impI allI)
  show "fst (Mount rt X r st) = st" if "ui_owner X r st = None"
    using assms that by (cases rt) (simp_all add: requireRole_eq frame)
  show "snd (Mount rt X r st) = redirect ''/admin/ui/login''" if "ui_owner X r st = None" "rt \<noteq> GetUILogin"
    using assms that by (cases rt) (simp_all add: requireRole_eq)
next
  fix o'
  assume o: "ui_owner X r st = Some o'"
  show "fst (Mount rt X r st) = st" if "\<not> AtLeast (own_role o') ''developer''"
    using assms that o by (cases rt) (simp_all add: requireRole_eq frame AtLeast_tiers AtLeast_owner)
  show "own (core (fst (Mount rt X r st))) = own (core st)" if "\<not> AtLeast (own_role o') ''admin''"
    using assms that o by (cases rt) (simp_all add: requireRole_eq frame AtLeast_tiers AtLeast_owner)
  assume r: "own_role o' \<noteq> ''owner''"
  then show "owner_users (own (core (fst (Mount rt X r st)))) = owner_users (own (core st))"
    using assms o by (cases rt) (simp_all add: requireRole_eq frame AtLeast_owner)
  show "\<exists>new. trail (core (fst (Mount rt X r st))) = trail (core st) @ new"
  proof (cases "rt = PostSQL")
    case True
    with r o show ?thesis by (simp add: requireRole_eq AtLeast_owner)
  next
    case False
    have "extends (trail (core st)) (core (fst (Mount rt X r st)))"
      by (rule grows.keeps_Mount [OF _ False]) (simp_all add: extends_def)
    then show ?thesis by (simp add: extends_def)
  qed
qed

theorem ui_privileges_witness:
  "Mount PostSQL demo_ui_env \<lparr>uq_http = blank_req, uq_form = Some [(''query'', ''DELETE FROM audit_log'')], uq_hx = []\<rparr> demo_ui
     = (demo_ui, redirect ''/admin/ui/login'')"
proof -
  let ?r = "\<lparr>uq_http = blank_req, uq_form = Some [(''query'', ''DELETE FROM audit_log'')], uq_hx = []\<rparr>"
  have "ui_owner demo_ui_env ?r demo_ui = None" by (simp add: ui_owner_def signed_in_owner_def cookie_of_def blank_req_def)
  then have "fst (Mount PostSQL demo_ui_env ?r demo_ui) = demo_ui" "snd (Mount PostSQL demo_ui_env ?r demo_ui) = redirect ''/admin/ui/login''"
    using ui_privileges [of PostSQL demo_ui_env ?r demo_ui] by simp_all
  then show ?thesis by (metis prod.collapse)
qed


section \<open>SQL Studio\<close>

lemma truncateQuery_spec:
  "length (truncateQuery q n) \<le> n + 3" "length q \<le> n \<Longrightarrow> truncateQuery q n = q"
  "n < length q \<Longrightarrow> truncateQuery q n = take n q @ ellipsis"
  by (simp_all add: truncateQuery_def)



text \<open>
  A statement that begins with \<^verbatim>\<open>WITH\<close> is taken for a query, also when it writes: after it the registry is
  never reloaded, so a change it makes to \<^verbatim>\<open>_policies\<close> is not in force.
\<close>

theorem sql_with_is_not_reloaded:
  assumes "uq_form r = Some f" and "is_query (FormValue f ''query'')"
  shows "live_server (fst (handleSQLStudioRun X owner r st)) = live_server st"
proof -
  obtain st1 res where run: "runSQL X (FormValue f ''query'') st = (st1, res)" by fastforce
  then have "live_server st1 = live_server st" and "\<And>out n. res = Inr (out, n) \<Longrightarrow> out \<noteq> None"
    using assms(2) by (auto simp: runSQL_def Let_def split: prod.splits sum.splits)
  with assms(1) run show ?thesis by (auto simp: handleSQLStudioRun_def Let_def split: sum.splits option.splits)
qed

theorem sql_with_is_not_reloaded_witness:
  "live_server (fst (handleSQLStudioRun demo_ui_env root_owner
      \<lparr>uq_http = owner_req, uq_form = Some [(''query'', ''with p as (select 1) update _policies set rule = 1'')], uq_hx = []\<rparr> demo_ui))
   = live_server demo_ui"
  by (rule sql_with_is_not_reloaded [OF ui_req.select_convs(2)]) code_simp

section \<open>What a form means\<close>

definition form_cell :: "form \<Rightarrow> string \<Rightarrow> val option" where
  "form_cell f n =
     (if FormHas f (n @ ''__null'') then Some VNull else if FormHas f n then Some (VText (FormValue f n)) else None)"

lemma form_cells_map: "map_of (form_cells f cs) n = (if n \<in> ColName ` set cs then form_cell f n else None)"
  by (induction f cs rule: form_cells.induct) (auto simp: form_cell_def)

lemma form_cells_keys: "map fst (form_cells f cs) = filter (\<lambda>n. form_cell f n \<noteq> None) (map ColName cs)"
  by (induction f cs rule: form_cells.induct) (auto simp: form_cell_def)

text \<open>
  A submitted row is exactly what the form says of the collection's columns, and of nothing else: a
  column's NULL box gives it NULL whatever its text field holds, otherwise the text field gives it
  that text, and a column the form does not mention is left out. No column is given twice, in the
  order of the collection.
\<close>

theorem form_body_exact:
  assumes "distinct (map ColName (Columns col))"
  shows "map_of (formToBody f col) n =
      (if n \<notin> ColName ` set (Columns col) then None
       else if FormHas f (n @ ''__null'') then Some VNull
       else if FormHas f n then Some (VText (FormValue f n)) else None) \<and>
    distinct (map fst (formToBody f col)) \<and>
    map fst (formToBody f col) = filter (\<lambda>c. FormHas f (c @ ''__null'') \<or> FormHas f c) (map ColName (Columns col))"
proof -
  have "(\<lambda>n. form_cell f n \<noteq> None) = (\<lambda>c. FormHas f (c @ ''__null'') \<or> FormHas f c)" by (auto simp: form_cell_def)
  with assms show ?thesis by (simp add: formToBody_def form_cells_map form_cells_keys form_cell_def)
qed

definition two_columns :: Collection where
  "two_columns = (blank_collection ''t'')\<lparr>Columns := [\<lparr>ColName = ''id'', DeclType = ''TEXT'', NotNull = True, IsPK = True\<rparr>,
     \<lparr>ColName = ''note'', DeclType = ''TEXT'', NotNull = False, IsPK = False\<rparr>,
     \<lparr>ColName = ''note__null'', DeclType = ''TEXT'', NotNull = False, IsPK = False\<rparr>]\<rparr>"

theorem form_body_exact_witness:
  "map_of (formToBody [(''note'', ''hello''), (''x'', ''y'')] two_columns) ''note'' = Some (VText ''hello'')
   \<and> map_of (formToBody [(''note'', ''hello''), (''x'', ''y'')] two_columns) ''x'' = None"
proof -
  have d: "distinct (map ColName (Columns two_columns))" by (simp add: two_columns_def)
  show ?thesis
    using form_body_exact [OF d, of "[(''note'', ''hello''), (''x'', ''y'')]" "''note''"]
      form_body_exact [OF d, of "[(''note'', ''hello''), (''x'', ''y'')]" "''x''"]
    by (simp add: two_columns_def FormHas_def FormValue_def)
qed

text \<open>
  The names of the NULL boxes are not kept apart from the names of columns, and the names the UI
  accepts for new columns include both: in a table with the columns \<^verbatim>\<open>note\<close> and \<^verbatim>\<open>note__null\<close>, whose
  form always submits both text fields, no submitted text ever reaches \<^verbatim>\<open>note\<close>: it becomes NULL.
\<close>

theorem null_box_shadows_column:
  "identifierRe ''note'' \<and> identifierRe ''note__null'' \<and>
   map_of (formToBody [(''id'', i), (''note'', text), (''note__null'', text')] two_columns) ''note'' = Some VNull \<and>
   map_of (formToBody [(''id'', i), (''note'', text), (''note__null'', text')] two_columns) ''note__null'' = Some (VText text')"
proof -
  have "identifierRe ''note''" "identifierRe ''note__null''" by code_simp+
  then show ?thesis by (simp add: formToBody_def form_cells_map form_cell_def two_columns_def FormHas_def FormValue_def)
qed


section \<open>Creating a table from its form\<close>

definition form_column :: "form \<Rightarrow> string \<Rightarrow> AdminColumnDef option" where
  "form_column f key =
     (if HasPrefix key ''col_name_'' \<and> FormValue f key \<noteq> []
      then Some \<lparr>DefName = FormValue f key, DefType = FormValue f (''col_type_'' @ TrimPrefix key ''col_name_''),
                 Required = FormValue f (''col_required_'' @ TrimPrefix key ''col_name_'') = ''1''\<rparr>
      else None)"

lemma form_columns_filter: "form_columns f ks = List.map_filter (form_column f) ks"
  by (induction ks) (auto simp: form_column_def Let_def List.map_filter_simps)

lemma mset_map_filter: "mset xs = mset ys \<Longrightarrow> mset (List.map_filter g xs) = mset (List.map_filter g ys)"
  by (simp add: List.map_filter_def mset_filter)

lemma column_defs_accepts:
  "column_defs cs seen defs = Inr ds \<longleftrightarrow>
     (let named = filter (\<lambda>c. DefName c \<noteq> []) cs
      in list_all (\<lambda>c. identifierRe (DefName c) \<and> isAllowedColumnType (DefType c)) named \<and>
         distinct (map DefName named) \<and> set seen \<inter> DefName ` set named = {} \<and>
         ds = defs @ map (\<lambda>c. (DefName c, DefType c, if Required c then '' NOT NULL'' else [])) named)"
proof (induction cs seen defs arbitrary: ds rule: column_defs.induct)
  case (2 c cs seen defs)
  show ?case
  proof (cases "DefName c = [] \<or> \<not> identifierRe (DefName c) \<or> DefName c \<in> set seen \<or> \<not> isAllowedColumnType (DefType c)")
    case True
    with 2 show ?thesis by (auto simp: Let_def)
  next
    case False
    with 2(2) show ?thesis by (auto simp: Let_def)
  qed
qed auto


definition create_statement :: "'fs ui_env \<Rightarrow> form \<Rightarrow> (string \<times> coldef list) option" where
  "create_statement X f =
     (let name = FormValue f ''name''; scoped = (FormValue f ''owner_scoped'' = ''1'')
      in if \<not> identifierRe name \<or> isReserved name then None
         else (case column_defs (form_columns f (x_order X (remdups (map fst f)))) (''id'' # (if scoped then [OwnerColumnName] else []))
                      (base_defs scoped) of
                 Inl _ \<Rightarrow> None | Inr defs \<Rightarrow> Some (name, defs)))"

lemma create_statement_none:
  "uq_form r = Some f \<Longrightarrow> create_statement X f = None \<Longrightarrow>
   \<exists>e. handleCreateTable X owner r st = (st, render (newTableFormData owner (Some e)))"
  by (auto simp: create_statement_def handleCreateTable_def AdminCreateTable_def Let_def split: if_splits sum.splits)

definition form_defs :: "form \<Rightarrow> string list \<Rightarrow> coldef list" where
  "form_defs f ks = List.map_filter (\<lambda>k. map_option (\<lambda>c. (DefName c, DefType c, if Required c then '' NOT NULL'' else [])) (form_column f k)) ks"

lemma form_columns_named: "filter (\<lambda>c. DefName c \<noteq> []) (form_columns f ks) = form_columns f ks"
  by (induction f ks rule: form_columns.induct) (auto simp: Let_def)

lemma form_columns_defs: "map (\<lambda>c. (DefName c, DefType c, if Required c then '' NOT NULL'' else [])) (form_columns f ks) = form_defs f ks"
  unfolding form_columns_filter form_defs_def by (induction ks) (auto simp: List.map_filter_simps split: option.split)

lemma create_statement_some:
  "create_statement X f = Some (n, ds) \<longleftrightarrow>
     (let cs = form_columns f (x_order X (remdups (map fst f))); scoped = (FormValue f ''owner_scoped'' = ''1'')
      in n = FormValue f ''name'' \<and> identifierRe n \<and> \<not> isReserved n \<and>
         list_all (\<lambda>c. identifierRe (DefName c) \<and> isAllowedColumnType (DefType c)) cs \<and> distinct (map DefName cs) \<and>
         set (''id'' # (if scoped then [OwnerColumnName] else [])) \<inter> DefName ` set cs = {} \<and>
         ds = base_defs scoped @ form_defs f (x_order X (remdups (map fst f))))"
proof -
  have "create_statement X f = Some (n, ds) \<longleftrightarrow> n = FormValue f ''name'' \<and> identifierRe n \<and> \<not> isReserved n \<and>
      column_defs (form_columns f (x_order X (remdups (map fst f))))
        (''id'' # (if FormValue f ''owner_scoped'' = ''1'' then [OwnerColumnName] else [])) (base_defs (FormValue f ''owner_scoped'' = ''1'')) = Inr ds"
    by (auto simp: create_statement_def Let_def split: sum.splits if_splits)
  then show ?thesis unfolding column_defs_accepts by (simp only: Let_def form_columns_named form_columns_defs)
qed

lemma form_columns_perm:
  assumes "mset ks = mset ks'"
  shows "mset (form_columns f ks) = mset (form_columns f ks')" "mset (form_defs f ks) = mset (form_defs f ks')"
  using mset_map_filter [OF assms] by (simp_all add: form_columns_filter form_defs_def)

lemma form_column_some:
  "form_column f key = Some c \<longleftrightarrow>
     (\<exists>k. key = ''col_name_'' @ k \<and> FormValue f key \<noteq> [] \<and>
        c = \<lparr>DefName = FormValue f key, DefType = FormValue f (''col_type_'' @ k), Required = FormValue f (''col_required_'' @ k) = ''1''\<rparr>)"
proof (cases "HasPrefix key ''col_name_''")
  case True
  then obtain k where k: "key = ''col_name_'' @ k" by (auto simp: HasPrefix_iff)
  then have "TrimPrefix key ''col_name_'' = k" by (simp add: TrimPrefix_def)
  with True k show ?thesis by (auto simp: form_column_def)
next
  case False
  then have "\<nexists>k. key = ''col_name_'' @ k" by (simp only: HasPrefix_iff not_False_eq_True)
  with False show ?thesis by (auto simp: form_column_def simp del: append.simps)
qed

lemma FormValue_key: "FormValue f k \<noteq> [] \<Longrightarrow> k \<in> fst ` set f"
  by (auto simp: FormValue_def dest: map_of_SomeD split: option.splits intro!: rev_image_eqI)

definition field_def :: "form \<Rightarrow> string \<Rightarrow> coldef" where
  "field_def f k = (FormValue f (''col_name_'' @ k), FormValue f (''col_type_'' @ k), if FormValue f (''col_required_'' @ k) = ''1'' then '' NOT NULL'' else [])"

lemma form_defs_fields:
  assumes "set ks = fst ` set f"
  shows "set (form_defs f ks) = {field_def f k | k. FormValue f (''col_name_'' @ k) \<noteq> []}"
proof -
  define def where "def = (\<lambda>c :: AdminColumnDef. (DefName c, DefType c, if Required c then '' NOT NULL'' else []))"
  have mem: "d \<in> set (form_defs f ks) \<longleftrightarrow> (\<exists>key \<in> set ks. \<exists>c. form_column f key = Some c \<and> d = def c)" for d
    unfolding form_defs_def def_def by (induction ks) (auto simp: List.map_filter_simps split: option.split)
  have val: "def \<lparr>DefName = FormValue f (''col_name_'' @ k), DefType = FormValue f (''col_type_'' @ k),
      Required = FormValue f (''col_required_'' @ k) = ''1''\<rparr> = field_def f k" for k
    unfolding def_def field_def_def AdminColumnDef.select_convs ..
  have col: "(\<exists>c. form_column f key = Some c \<and> d = def c) \<longleftrightarrow>
      (\<exists>k. key = ''col_name_'' @ k \<and> FormValue f (''col_name_'' @ k) \<noteq> [] \<and> d = field_def f k)" for key d
    unfolding form_column_some using val by metis
  show ?thesis unfolding set_eq_iff mem col mem_Collect_eq using FormValue_key [of f] assms by metis
qed

text \<open>
  What the new-table form creates. The columns are visited in whatever order the range over the form
  takes; whether a table is created, its name and its columns with their types and NOT NULL do not
  depend on it, only the order of the columns after the leading ones does. A form that is refused
  before the statement shows its page again and changes nothing. Of the fields, each
  \<^verbatim>\<open>col_name_N\<close> that is not empty gives one column, with the type and the flag of the same \<^verbatim>\<open>N\<close>.
\<close>

theorem table_form_meaning:
  assumes "mset (x_order X (remdups (map fst f))) = mset (remdups (map fst f))"
    and "mset (x_order Y (remdups (map fst f))) = mset (remdups (map fst f))" and "uq_form r = Some f"
  shows "(create_statement X f = None \<longrightarrow> create_statement Y f = None \<and>
       (\<exists>e. handleCreateTable X owner r st = (st, render (newTableFormData owner (Some e))))) \<and>
    (\<forall>n ds. create_statement X f = Some (n, ds) \<longrightarrow>
       n = FormValue f ''name'' \<and>
       (\<exists>xs ys. ds = base_defs (FormValue f ''owner_scoped'' = ''1'') @ xs \<and>
          create_statement Y f = Some (n, base_defs (FormValue f ''owner_scoped'' = ''1'') @ ys) \<and> mset ys = mset xs \<and>
          set xs = {field_def f k | k. FormValue f (''col_name_'' @ k) \<noteq> []}))"
proof -
  let ?ks = "remdups (map fst f)"
  have perm: "mset (form_columns f (x_order X ?ks)) = mset (form_columns f (x_order Y ?ks))"
    "mset (form_defs f (x_order X ?ks)) = mset (form_defs f (x_order Y ?ks))"
    using form_columns_perm assms(1,2) by metis+
  then have same: "set (form_columns f (x_order X ?ks)) = set (form_columns f (x_order Y ?ks))"
    "distinct (map DefName (form_columns f (x_order X ?ks))) = distinct (map DefName (form_columns f (x_order Y ?ks)))"
    using mset_eq_setD by (blast, metis mset_map mset_eq_imp_distinct_iff)
  have iff: "create_statement X f = Some (n, base_defs (FormValue f ''owner_scoped'' = ''1'') @ form_defs f (x_order X ?ks)) \<longleftrightarrow>
     create_statement Y f = Some (n, base_defs (FormValue f ''owner_scoped'' = ''1'') @ form_defs f (x_order Y ?ks))" for n
    unfolding create_statement_some list_all_iff Let_def same by simp
  have only: "create_statement Z f = Some (n, ds) \<Longrightarrow> ds = base_defs (FormValue f ''owner_scoped'' = ''1'') @ form_defs f (x_order Z ?ks)
      \<and> n = FormValue f ''name''" for Z :: "'z ui_env" and n ds
    unfolding create_statement_some Let_def by blast
  have "set (x_order X ?ks) = fst ` set f" using mset_eq_setD [OF assms(1)] by simp
  note fields = form_defs_fields [OF this]
  show ?thesis
  proof (intro conjI impI allI)
    show "create_statement Y f = None" if "create_statement X f = None"
      using that iff only by (metis not_Some_eq old.prod.exhaust)
    show "\<exists>e. handleCreateTable X owner r st = (st, render (newTableFormData owner (Some e)))" if "create_statement X f = None"
      by (rule create_statement_none [OF assms(3) that])
    fix n ds
    assume c: "create_statement X f = Some (n, ds)"
    then show "n = FormValue f ''name''" using only by blast
    show "\<exists>xs ys. ds = base_defs (FormValue f ''owner_scoped'' = ''1'') @ xs \<and>
          create_statement Y f = Some (n, base_defs (FormValue f ''owner_scoped'' = ''1'') @ ys) \<and> mset ys = mset xs \<and>
          set xs = {field_def f k | k. FormValue f (''col_name_'' @ k) \<noteq> []}"
    proof (intro exI conjI)
      have ds: "ds = base_defs (FormValue f ''owner_scoped'' = ''1'') @ form_defs f (x_order X ?ks)" using only [OF c] by blast
      then show "ds = base_defs (FormValue f ''owner_scoped'' = ''1'') @ form_defs f (x_order X ?ks)" .
      show "create_statement Y f = Some (n, base_defs (FormValue f ''owner_scoped'' = ''1'') @ form_defs f (x_order Y ?ks))"
        using c [unfolded ds] iff by (simp only:)
    qed (use perm(2) fields in \<open>simp_all only:\<close>)
  qed
qed

abbreviation table_form :: form where
  "table_form \<equiv> [(''name'', ''todos''), (''col_name_0'', ''title''), (''col_type_0'', ''TEXT''), (''col_required_0'', ''1''),
     (''col_name_1'', ''rank''), (''col_type_1'', ''INTEGER'')]"

theorem table_form_meaning_witness:
  "\<exists>xs ys. create_statement demo_ui_env table_form = Some (''todos'', (''id'', ''TEXT'', '' PRIMARY KEY'') # xs) \<and>
     create_statement (demo_ui_env\<lparr>x_order := rev\<rparr>) table_form = Some (''todos'', (''id'', ''TEXT'', '' PRIMARY KEY'') # ys) \<and> mset ys = mset xs"
proof -
  let ?r = "\<lparr>uq_http = blank_req, uq_form = Some table_form, uq_hx = []\<rparr>"
  have b: "base_defs (FormValue table_form ''owner_scoped'' = ''1'') = [(''id'', ''TEXT'', '' PRIMARY KEY'')]" by code_simp
  obtain ds where ds: "create_statement demo_ui_env table_form = Some (''todos'', ds)"
  proof
    show "create_statement demo_ui_env table_form = Some (''todos'', [(''id'', ''TEXT'', '' PRIMARY KEY''), (''title'', ''TEXT'', '' NOT NULL''), (''rank'', ''INTEGER'', [])])"
      by code_simp
  qed
  have X: "mset (x_order demo_ui_env (remdups (map fst table_form))) = mset (remdups (map fst table_form))" by (simp add: demo_ui_env_def)
  have Y: "mset (x_order (demo_ui_env\<lparr>x_order := rev\<rparr>) (remdups (map fst table_form))) = mset (remdups (map fst table_form))" by simp
  have "uq_form ?r = Some table_form" by simp
  from table_form_meaning [OF X Y this, THEN conjunct2, rule_format, OF ds] ds show ?thesis unfolding b by force
qed

text \<open>
  The order of the columns is really open: two orders in which the range may visit the same form give
  two different tables.
\<close>

theorem column_order_is_arbitrary:
  "create_statement demo_ui_env table_form =
     Some (''todos'', [(''id'', ''TEXT'', '' PRIMARY KEY''), (''title'', ''TEXT'', '' NOT NULL''), (''rank'', ''INTEGER'', [])]) \<and>
   create_statement (demo_ui_env\<lparr>x_order := rev\<rparr>) table_form =
     Some (''todos'', [(''id'', ''TEXT'', '' PRIMARY KEY''), (''rank'', ''INTEGER'', []), (''title'', ''TEXT'', '' NOT NULL'')])"
  by code_simp

end
