(* ===== verification/Public_Routes.thy ===== *)
theory Public_Routes
  imports Admin_UI OAuth_Authorize
begin

text \<open>
  The rest of the router built by \<^verbatim>\<open>New\<close> in \<^verbatim>\<open>internal/server/server.go\<close>: the authorization server's
  endpoints, and the routes that \<^verbatim>\<open>restapi\<close>, \<^verbatim>\<open>storage\<close> and \<^verbatim>\<open>realtime\<close> mount, each behind the scope its
  \<^verbatim>\<open>Mount\<close> names. They work on the same state as the other routes. A websocket lives longer than one
  request: opening it, each message on it and its end are separate steps here.
\<close>

section \<open>Requests and answers\<close>

text \<open>
  A request is seen by Fosite as a string of its own, from which it takes the bearer token or the form of
  the token endpoint; the other fields are the parts the handlers read.
\<close>

record pub_req =
  pq_http :: http_req
  pq_fosite :: string
  pq_query :: string
  pq_form :: "(string \<times> string list) list option"
  pq_limit :: string
  pq_offset :: string
  pq_body :: string
  pq_upgrade :: bool

record ('ar, 'acc) pub_env =
  p_fosite :: "('ar, 'acc) fosite"
  p_rsa :: rsa_lib
  p_issuer :: string
  p_kid :: string
  p_key :: "string option"
  p_register :: register_env
  p_first_value :: "string \<Rightarrow> decoded"
  p_row_uuid :: string
  p_conn :: nat

datatype pub_answer =
    Denied nat string
  | RetryLater int string
  | AuthorizeReply OAuth_Authorize.reply
  | TokenReply "string + string"
  | RevokeReply "string + unit"
  | RegisterReply register_reply
  | MetadataReply authServerMetadata
  | JWKSReply "(nat \<times> string) + (string \<times> string) list"
  | WhoAmI string
  | DataReply response
  | FileReply file_reply
  | Connected string
  | NotUpgraded

type_synonym ('fs, 'ar, 'acc) pub_handler =
  "('ar, 'acc) pub_env \<Rightarrow> 'fs venv \<Rightarrow> pub_req \<Rightarrow> 'fs ui \<Rightarrow> 'fs ui \<times> pub_answer"

definition set_core :: "'fs state \<Rightarrow> 'fs ui \<Rightarrow> 'fs ui" where
  "set_core c st = st\<lparr>core := c\<rparr>"


section \<open>The authorization server\<close>

definition authorize_env :: "('ar, 'acc) pub_env \<Rightarrow> 'fs venv \<Rightarrow> az_env" where
  "authorize_env P V =
     \<lparr>az_auth = v_auth V, az_fails = v_oauth V, az_now = v_now V, az_token = v_token V, az_sid = v_session_id V,
      az_kid = p_kid P, az_key = p_key P, az_rsa = p_rsa P, az_issuer = p_issuer P\<rparr>"

definition authorize :: "bool \<Rightarrow> ('fs, 'ar, 'acc) pub_handler" where
  "authorize post P V r st =
     (let c = core st;
          req = \<lparr>method_post = post, raw_query = pq_query r, post_form = pq_form r, cookie = cookie_of (pq_http r) SessionCookieName\<rparr>;
          (w, rep) = HandleAuthorize (p_fosite P) (authorize_env P V) req \<lparr>accounts = acct c, store = oau c\<rparr>
      in (set_core (c\<lparr>acct := accounts w, oau := store w\<rparr>) st, AuthorizeReply rep))"

definition limitLogin :: "('fs, 'ar, 'acc) pub_handler \<Rightarrow> ('fs, 'ar, 'acc) pub_handler" where
  "limitLogin nxt P V r st =
     (case rateLimitMiddleware (clientIP (pq_http r)) (v_now V) (loginLimiter (core st)) of
        (l, Forward) \<Rightarrow> nxt P V r (set_core ((core st)\<lparr>loginLimiter := l\<rparr>) st)
      | (l, TooManyRequests n) \<Rightarrow> (set_core ((core st)\<lparr>loginLimiter := l\<rparr>) st, RetryLater n ''too many login attempts''))"

definition limitRegister :: "('fs, 'ar, 'acc) pub_handler \<Rightarrow> ('fs, 'ar, 'acc) pub_handler" where
  "limitRegister nxt P V r st =
     (case rateLimitMiddleware (clientIP (pq_http r)) (v_now V) (registerLimiter (core st)) of
        (l, Forward) \<Rightarrow> nxt P V r (set_core ((core st)\<lparr>registerLimiter := l\<rparr>) st)
      | (l, TooManyRequests n) \<Rightarrow>
          (set_core ((core st)\<lparr>registerLimiter := l\<rparr>) st, RetryLater n ''too many registration attempts''))"

definition token :: "('fs, 'ar, 'acc) pub_handler" where
  "token P V r st =
     (case HandleToken (p_fosite P) (pq_fosite r) (oau (core st)) of
        (w, rep) \<Rightarrow> (set_core ((core st)\<lparr>oau := w\<rparr>) st, TokenReply rep))"

definition revoke :: "('fs, 'ar, 'acc) pub_handler" where
  "revoke P V r st =
     (case HandleRevoke (p_fosite P) (pq_fosite r) (oau (core st)) of
        (w, rep) \<Rightarrow> (set_core ((core st)\<lparr>oau := w\<rparr>) st, RevokeReply rep))"

definition register :: "('fs, 'ar, 'acc) pub_handler" where
  "register P V r st =
     (case HandleRegister ((p_register P)\<lparr>re_now := v_now V, re_fails := v_oauth V\<rparr>) (pq_body r) (oau (core st)) of
        (w, rep) \<Rightarrow> (set_core ((core st)\<lparr>oau := w\<rparr>) st, RegisterReply rep))"


section \<open>Routes behind a bearer token\<close>

definition withScope :: "string \<Rightarrow> (string \<Rightarrow> ('fs, 'ar, 'acc) pub_handler) \<Rightarrow> ('fs, 'ar, 'acc) pub_handler" where
  "withScope scope nxt P V r st =
     (case RequireScope (p_fosite P) scope (\<lambda>u. nxt u P V r st) (pq_fosite r) (oau (core st)) of
        Inl (code, msg) \<Rightarrow> (st, Denied code msg)
      | Inr res \<Rightarrow> res)"

definition data_request :: "string \<Rightarrow> string \<Rightarrow> string \<Rightarrow> pub_req \<Rightarrow> request" where
  "data_request subj coll i r =
     \<lparr>subject = subj, coll_param = coll, id_param = i, limit_param = pq_limit r, offset_param = pq_offset r, req_body = pq_body r\<rparr>"

definition read_data :: "(engine \<Rightarrow> server \<Rightarrow> request \<Rightarrow> api \<Rightarrow> response) \<Rightarrow> string \<Rightarrow> string \<Rightarrow> string \<Rightarrow> ('fs, 'ar, 'acc) pub_handler" where
  "read_data h coll i subj P V r st =
     (st, DataReply (h (v_engine V) (live_server st) (data_request subj coll i r) (rest (core st))))"

definition write_data :: "(('ar, 'acc) pub_env \<Rightarrow> engine \<Rightarrow> server \<Rightarrow> request \<Rightarrow> api \<Rightarrow> api \<times> response) \<Rightarrow> string \<Rightarrow> string \<Rightarrow> string
    \<Rightarrow> ('fs, 'ar, 'acc) pub_handler" where
  "write_data h coll i subj P V r st =
     (case h P (v_engine V) (live_server st) (data_request subj coll i r) (rest (core st)) of
        (d, rep) \<Rightarrow> (set_core ((core st)\<lparr>rest := d\<rparr>) st, DataReply rep))"

text \<open>The reference of a file's owner is checked against the accounts there are.\<close>

definition live_files :: "'fs venv \<Rightarrow> 'fs state \<Rightarrow> file_env" where
  "live_files V c = (v_file V)\<lparr>f_now := v_now V, f_user := (\<lambda>u. u \<in> set (account_ids (acct c)))\<rparr>"

definition read_files :: "(file_env \<Rightarrow> 'fs backend \<Rightarrow> string \<Rightarrow> pub_req \<Rightarrow> 'fs storage \<Rightarrow> file_reply) \<Rightarrow> string \<Rightarrow> ('fs, 'ar, 'acc) pub_handler" where
  "read_files h subj P V r st = (st, FileReply (h (live_files V (core st)) (v_backend V) subj r (stor (core st))))"

definition write_files :: "(file_env \<Rightarrow> 'fs backend \<Rightarrow> string \<Rightarrow> pub_req \<Rightarrow> 'fs storage \<Rightarrow> 'fs storage \<times> file_reply) \<Rightarrow> string
    \<Rightarrow> ('fs, 'ar, 'acc) pub_handler" where
  "write_files h subj P V r st =
     (case h (live_files V (core st)) (v_backend V) subj r (stor (core st)) of
        (s, rep) \<Rightarrow> (set_core ((core st)\<lparr>stor := s\<rparr>) st, FileReply rep))"


section \<open>Websockets\<close>

definition set_bus :: "broker option \<Rightarrow> 'fs ui \<Rightarrow> 'fs ui" where
  "set_bus b st = set_core ((core st)\<lparr>rest := (rest (core st))\<lparr>bus := b\<rparr>\<rparr>) st"

text \<open>The handshake: the token is checked before anything is upgraded.\<close>

definition connect :: "('fs, 'ar, 'acc) pub_handler" where
  "connect P V r st =
     (let tok = AccessTokenFromRequest (p_fosite P) (pq_fosite r)
      in if tok = [] then (st, Denied 401 [])
         else (case Authenticate (p_fosite P) tok ''records:read'' (oau (core st)) of
                 Inl _ \<Rightarrow> (st, Denied 401 [])
               | Inr u \<Rightarrow>
                   if \<not> pq_upgrade r then (st, NotUpgraded)
                   else (set_bus (map_option (NewConn (p_conn P) u) (bus (rest (core st)))) st, Connected u)))"

text \<open>One message of an open connection; a read error ends the loop and closes the connection.\<close>

definition frame_step :: "nat \<Rightarrow> frame \<Rightarrow> broker \<Rightarrow> broker" where
  "frame_step c fr b = (case fr of None \<Rightarrow> Close c b | Some f \<Rightarrow> readPump c [Some f] b)"

definition on_frame :: "nat \<Rightarrow> frame \<Rightarrow> 'fs ui \<Rightarrow> 'fs ui" where
  "on_frame c fr st = set_bus (map_option (frame_step c fr) (bus (rest (core st)))) st"

lemma readPump_frames: "readPump c (map Some fs) b = fold (\<lambda>f. frame_step c (Some f)) fs b"
proof (induction fs arbitrary: b)
  case (Cons f fs)
  obtain ty coll where "f = (ty, coll)" by (cases f)
  with Cons show ?case by (simp add: frame_step_def)
qed simp

text \<open>A whole connection is the handshake, its messages in order and its end.\<close>

lemma handleConnect_steps:
  fixes st :: "'fs ui"
  assumes "AccessTokenFromRequest (p_fosite P) (pq_fosite r) = tok" and "bus (rest (core st)) = Some b"
  shows "handleConnect (\<lambda>t s. case Authenticate (p_fosite P) t s (oau (core st)) of Inl _ \<Rightarrow> None | Inr u \<Rightarrow> Some u) tok
      (pq_upgrade r) (p_conn P) (map Some fs) b =
    (case connect P V r st of
       (st', Connected u) \<Rightarrow> (Served, the (bus (rest (core (on_frame (p_conn P) None (fold (\<lambda>f. on_frame (p_conn P) (Some f)) fs st'))))))
     | (st', NotUpgraded) \<Rightarrow> (UpgradeFailed, b)
     | (st', _) \<Rightarrow> (Unauthorized, b))"
proof -
  have run: "bus (rest (core (fold (\<lambda>f. on_frame c (Some f)) fs s))) = Some (fold (\<lambda>f. frame_step c (Some f)) fs b0)"
    if "bus (rest (core s)) = Some b0" for s :: "'fs ui" and c b0
    using that by (induction fs arbitrary: s b0) (simp_all add: on_frame_def set_bus_def set_core_def)
  show ?thesis
    using assms run
    by (auto simp: handleConnect_def connect_def Let_def readPump_frames on_frame_def [of _ None] frame_step_def [of _ None]
        set_bus_def set_core_def split: sum.split)
qed


section \<open>The routes\<close>

text \<open>\<^verbatim>\<open>Mount\<close> of the data API: the collections' resources and, in development mode only, the schema.\<close>

datatype data_route =
    ListRecords string | GetRecord string string | CreateRecord string | UpdateRecord string string | DeleteRecord string string
  | GetSchema

fun restapi_Mount :: "data_route \<Rightarrow> ('fs, 'ar, 'acc) pub_handler" where
  "restapi_Mount (ListRecords n) = withScope ''records:read'' (read_data handleList n [])"
| "restapi_Mount (GetRecord n i) = withScope ''records:read'' (read_data handleGet n i)"
| "restapi_Mount (CreateRecord n) =
     withScope ''records:write'' (write_data (\<lambda>P E. handleCreate E (p_first_value P) (p_row_uuid P)) n [])"
| "restapi_Mount (UpdateRecord n i) = withScope ''records:write'' (write_data (\<lambda>P E. handleUpdate E (p_first_value P)) n i)"
| "restapi_Mount (DeleteRecord n i) = withScope ''records:write'' (write_data (\<lambda>P. handleDelete) n i)"
| "restapi_Mount GetSchema = (\<lambda>P V r st.
     if devMode (live_server st)
     then withScope ''records:read'' (\<lambda>u P V r st. (st, DataReply (handleSchema (live_server st)))) P V r st
     else (st, DataReply (Reply 404 (PlainText ''404 page not found''))))"

text \<open>\<^verbatim>\<open>Mount\<close> of the file storage.\<close>

datatype file_route = ListFiles | PostFile | GetFile string | GetFileContent string | DeleteFile string

fun storage_Mount :: "file_route \<Rightarrow> ('fs, 'ar, 'acc) pub_handler" where
  "storage_Mount ListFiles = withScope ''files:read'' (read_files (\<lambda>E B u r. handleFileList E u (pq_limit r) (pq_offset r)))"
| "storage_Mount PostFile = withScope ''files:write'' (write_files (\<lambda>E B u r. handleUpload B E u (pq_body r)))"
| "storage_Mount (GetFile i) = withScope ''files:read'' (read_files (\<lambda>E B u r. handleFileGet E u i))"
| "storage_Mount (GetFileContent i) = withScope ''files:read'' (read_files (\<lambda>E B u r. handleDownload B E u i))"
| "storage_Mount (DeleteFile i) = withScope ''files:write'' (write_files (\<lambda>E B u r. handleFileDelete B E u i))"

definition HandleWhoAmI :: "string \<Rightarrow> ('fs, 'ar, 'acc) pub_handler" where
  "HandleWhoAmI u P V r st = (st, WhoAmI u)"

datatype pub_route =
    GetAuthorize | PostAuthorize | PostToken | PostRevoke | PostRegister | GetMetadata | GetJWKS | GetWhoAmI
  | Data data_route | Files file_route | GetRealtime

fun public :: "pub_route \<Rightarrow> ('fs, 'ar, 'acc) pub_handler" where
  "public GetAuthorize = authorize False"
| "public PostAuthorize = limitLogin (authorize True)"
| "public PostToken = token"
| "public PostRevoke = revoke"
| "public PostRegister = limitRegister register"
| "public GetMetadata = (\<lambda>P V r st. (st, MetadataReply (HandleAuthServerMetadata (p_issuer P))))"
| "public GetJWKS = (\<lambda>P V r st. (st, JWKSReply (HandleJWKS (v_oauth V) (p_rsa P) (oau (core st)))))"
| "public GetWhoAmI = withScope ''profile'' HandleWhoAmI"
| "public (Data d) = restapi_Mount d"
| "public (Files f) = storage_Mount f"
| "public GetRealtime = connect"

lemma pub_route_flat [case_names GetAuthorize PostAuthorize PostToken PostRevoke PostRegister GetMetadata GetJWKS GetWhoAmI
    ListRecords GetRecord CreateRecord UpdateRecord DeleteRecord GetSchema ListFiles PostFile GetFile GetFileContent DeleteFile GetRealtime]:
  assumes "Q GetAuthorize" and "Q PostAuthorize" and "Q PostToken" and "Q PostRevoke" and "Q PostRegister" and "Q GetMetadata"
    and "Q GetJWKS" and "Q GetWhoAmI" and "\<And>n. Q (Data (ListRecords n))" and "\<And>n i. Q (Data (GetRecord n i))"
    and "\<And>n. Q (Data (CreateRecord n))" and "\<And>n i. Q (Data (UpdateRecord n i))" and "\<And>n i. Q (Data (DeleteRecord n i))"
    and "Q (Data GetSchema)" and "Q (Files ListFiles)" and "Q (Files PostFile)" and "\<And>i. Q (Files (GetFile i))"
    and "\<And>i. Q (Files (GetFileContent i))" and "\<And>i. Q (Files (DeleteFile i))" and "Q GetRealtime"
  shows "Q rt"
proof (cases rt)
  case (Data d)
  then show ?thesis using assms by (cases d) simp_all
next
  case (Files f)
  then show ?thesis using assms by (cases f) simp_all
qed (use assms in simp_all)

text \<open>The scope a route asks for, if it is one that a bearer token opens.\<close>

fun scope_of :: "pub_route \<Rightarrow> string option" where
  "scope_of GetWhoAmI = Some ''profile''"
| "scope_of (Data (CreateRecord n)) = Some ''records:write''"
| "scope_of (Data (UpdateRecord n i)) = Some ''records:write''"
| "scope_of (Data (DeleteRecord n i)) = Some ''records:write''"
| "scope_of (Data d) = Some ''records:read''"
| "scope_of (Files PostFile) = Some ''files:write''"
| "scope_of (Files (DeleteFile i)) = Some ''files:write''"
| "scope_of (Files f) = Some ''files:read''"
| "scope_of GetRealtime = Some ''records:read''"
| "scope_of _ = None"

definition bearer :: "('ar, 'acc) pub_env \<Rightarrow> string \<Rightarrow> pub_req \<Rightarrow> 'fs ui \<Rightarrow> string option" where
  "bearer P scope r st =
     (let tok = AccessTokenFromRequest (p_fosite P) (pq_fosite r)
      in if tok = [] then None
         else (case Authenticate (p_fosite P) tok scope (oau (core st)) of Inl _ \<Rightarrow> None | Inr u \<Rightarrow> Some u))"

lemma withScope_None: "bearer P scope r st = None \<Longrightarrow> \<exists>msg. withScope scope nxt P V r st = (st, Denied 401 msg)"
  by (auto simp: bearer_def withScope_def RequireScope_def Let_def split: if_splits sum.splits)

lemma withScope_Some: "bearer P scope r st = Some u \<Longrightarrow> withScope scope nxt P V r st = nxt u P V r st"
  by (auto simp: bearer_def withScope_def RequireScope_def Let_def split: if_splits sum.splits)

end
