(* ===== verification/Deployment.thy ===== *)
theory Deployment
  imports Public_Routes Admin_UI_Properties Account_Erasure
begin

text \<open>
  The whole router: one run serves the server's own routes, the admin UI, the authorization server, the
  data API, files and websockets on one state, in any order. What the components guarantee one by one is
  put together here.
\<close>

section \<open>What the authorization library does with sessions\<close>

text \<open>
  Fosite stores the session it is given with a code, hands the session of the presented code or refresh
  token on to the tokens it issues for it, and accepts a token only if the storage has it, with the
  session stored there (the stateful introspection the server is set up with).
\<close>

definition fosite_sessions :: "('ar, 'acc) fosite \<Rightarrow> bool" where
  "fosite_sessions F \<longleftrightarrow>
     (\<forall>st ar ses. grant_subjects (fst (NewAuthorizeResponse F st ar ses)) \<subseteq> insert (ss_subject ses) (grant_subjects st)) \<and>
     (\<forall>st q. grant_subjects (fst (NewAccessRequest F st q)) \<subseteq> grant_subjects st) \<and>
     (\<forall>st q st1 acc. NewAccessRequest F st q = (st1, Inr acc) \<longrightarrow>
        grant_subjects (fst (NewAccessResponse F st1 acc)) \<subseteq> grant_subjects st) \<and>
     (\<forall>st q. grant_subjects (fst (NewRevocationRequest F st q)) \<subseteq> grant_subjects st) \<and>
     (\<forall>st tok scope ses. IntrospectToken F st tok scope = Inr ses \<longrightarrow>
        (\<exists>g \<in> set (grants st Access) \<union> set (grants st Refresh). gr_session g = Some ses))"

lemma session_account: "ValidateSession E now tok a = Inr u \<Longrightarrow> user_id u \<in> set (account_ids a)"
  by (auto simp: ValidateSession_def account_ids_def dest!: user_by_id_id split: if_splits option.splits)

lemma EnsureKey_grants: "grants (fst (EnsureKey bad lib kid key st)) = grants st"
  by (auto simp: EnsureKey_def rotate_key_def split: sum.split option.split)

lemma finishAuthorize_subjects:
  assumes "fosite_sessions F"
  shows "grant_subjects (store (fst (finishAuthorize F E ar u scopes w))) \<subseteq> insert (user_id u) (grant_subjects (store w))"
proof -
  obtain st1 k where k: "EnsureKey (az_fails E) (az_rsa E) (az_kid E) (az_key E) (store w) = (st1, k)" by fastforce
  have "grant_subjects st1 = grant_subjects (store w)"
    using EnsureKey_grants [of "az_fails E" "az_rsa E" "az_kid E" "az_key E" "store w"] k by (intro grant_subjects_cong) simp
  moreover have "grant_subjects (fst (NewAuthorizeResponse F st1 ar' (newSession now kid iss (user_id u) em))) \<subseteq>
      insert (user_id u) (grant_subjects st1)" for ar' now kid iss em
    using assms unfolding fosite_sessions_def newSession_def by (metis stored_session.select_convs(1))
  ultimately show ?thesis
    by (auto simp: finishAuthorize_def k Let_def split: sum.split prod.split) (metis fst_conv insertE subsetD)+
qed

lemma continueAuthorize_subjects:
  assumes "fosite_sessions F"
  shows "grant_subjects (store (fst (continueAuthorize F E r ar u w))) \<subseteq> insert (user_id u) (grant_subjects (store w))"
  using finishAuthorize_subjects [OF assms]
  by (auto simp: continueAuthorize_def Let_def split: sum.split)

lemma saveConsent_grants: "grants (fst (saveConsent bad usr u cid scopes st)) = grants st"
  by (simp add: saveConsent_def Let_def)

text \<open>What the authorize endpoint does to the accounts and to the stored grants.\<close>

lemma post_login_effect:
  assumes F: "fosite_sessions F" and run: "post_login F E r form q ar w = (w', rep)"
  shows "\<exists>e p. accounts w' = fst (Login (az_auth E) (az_now E) (az_token E) (az_sid E) e p (accounts w))"
    and "grant_subjects (store w') \<subseteq> grant_subjects (store w) \<union> set (account_ids (accounts w))"
proof -
  let ?e = "form_get form ''email''" and ?p = "form_get form ''password''"
  obtain a res where l: "Login (az_auth E) (az_now E) (az_token E) (az_sid E) ?e ?p (accounts w) = (a, res)" by fastforce
  have ids: "account_ids a = account_ids (accounts w)"
    using account_ids_same(1) [of "az_auth E" "az_now E" "az_token E" "az_sid E" ?e ?p "accounts w"] l by simp
  have w': "w' = w\<lparr>accounts := a\<rparr> \<or> (\<exists>u. user_id u \<in> set (account_ids a) \<and> w' = fst (continueAuthorize F E r ar u (w\<lparr>accounts := a\<rparr>)))"
    using run session_account by (fastforce simp: post_login_def l split: sum.splits prod.splits)
  then have "accounts w' = fst (Login (az_auth E) (az_now E) (az_token E) (az_sid E) ?e ?p (accounts w))"
    by (auto simp: continueAuthorize_accounts l)
  then show "\<exists>e p. accounts w' = fst (Login (az_auth E) (az_now E) (az_token E) (az_sid E) e p (accounts w))" by blast
  from w' continueAuthorize_subjects [OF F, of E r ar _ "w\<lparr>accounts := a\<rparr>"] ids
  show "grant_subjects (store w') \<subseteq> grant_subjects (store w) \<union> set (account_ids (accounts w))" by fastforce
qed

lemma post_consent_effect:
  assumes F: "fosite_sessions F" and run: "post_consent F E r form q ar w = (w', rep)"
  shows "accounts w' = accounts w" and "grant_subjects (store w') \<subseteq> grant_subjects (store w) \<union> set (account_ids (accounts w))"
proof -
  have "accounts w' = accounts w \<and> grant_subjects (store w') \<subseteq> grant_subjects (store w) \<union> set (account_ids (accounts w))"
  proof (cases "currentUser E r w")
    case (Some u)
    have "\<exists>cid sc g. post_consent F E r form q ar w =
        (if form_get form ''decision'' \<noteq> ''allow'' then (w, plain (AuthorizeError ''access_denied''))
         else (case saveConsent (az_fails E) (\<lambda>u. u \<in> set (account_ids (accounts w))) (user_id u) cid sc (store w) of
                 (st, Inl _) \<Rightarrow> (w\<lparr>store := st\<rparr>, plain (HttpError 500 ''internal error''))
               | (st, Inr _) \<Rightarrow> (let (w', p) = finishAuthorize F E ar u g (w\<lparr>store := st\<rparr>) in (w', plain p))))"
      unfolding post_consent_def Some Let_def option.case by blast
    then obtain cid sc g where p: "post_consent F E r form q ar w =
        (if form_get form ''decision'' \<noteq> ''allow'' then (w, plain (AuthorizeError ''access_denied''))
         else (case saveConsent (az_fails E) (\<lambda>u. u \<in> set (account_ids (accounts w))) (user_id u) cid sc (store w) of
                 (st, Inl _) \<Rightarrow> (w\<lparr>store := st\<rparr>, plain (HttpError 500 ''internal error''))
               | (st, Inr _) \<Rightarrow> (let (w', p) = finishAuthorize F E ar u g (w\<lparr>store := st\<rparr>) in (w', plain p))))" by blast
    obtain st res where st: "saveConsent (az_fails E) (\<lambda>u. u \<in> set (account_ids (accounts w))) (user_id u) cid sc (store w) = (st, res)"
      by fastforce
    have g: "grant_subjects st = grant_subjects (store w)"
      using saveConsent_grants [of "az_fails E" _ "user_id u" cid sc "store w"] st by (intro grant_subjects_cong) (metis fst_conv)
    have "w' = w \<or> w' = w\<lparr>store := st\<rparr> \<or> w' = fst (finishAuthorize F E ar u g (w\<lparr>store := st\<rparr>))"
      using run unfolding p st by (auto split: if_splits sum.splits prod.splits)
    then show ?thesis
      using g finishAuthorize_accounts [of F E ar u g "w\<lparr>store := st\<rparr>"] finishAuthorize_subjects [OF F, of E ar u g "w\<lparr>store := st\<rparr>"]
        currentUser_account [OF Some] by auto
  qed (use run in \<open>simp add: post_consent_def\<close>)
  then show "accounts w' = accounts w" "grant_subjects (store w') \<subseteq> grant_subjects (store w) \<union> set (account_ids (accounts w))" by auto
qed

lemma authorize_effect:
  assumes F: "fosite_sessions F" and run: "HandleAuthorize F E r w = (w', rep)"
  shows "accounts w' = accounts w \<or> (\<exists>e p. accounts w' = fst (Login (az_auth E) (az_now E) (az_token E) (az_sid E) e p (accounts w)))"
    and "grant_subjects (store w') \<subseteq> grant_subjects (store w) \<union> set (account_ids (accounts w))"
proof -
  let ?P = "\<lambda>w'. (accounts w' = accounts w \<or> (\<exists>e p. accounts w' = fst (Login (az_auth E) (az_now E) (az_token E) (az_sid E) e p (accounts w))))
     \<and> grant_subjects (store w') \<subseteq> grant_subjects (store w) \<union> set (account_ids (accounts w))"
  have c: "?P (fst (continueAuthorize F E r ar u w))" if "currentUser E r w = Some u" for ar u
    using currentUser_account [OF that] continueAuthorize_accounts [of F E r ar u w] continueAuthorize_subjects [OF F, of E r ar u w] by auto
  have l: "?P w'" if "post_login F E r form q ar w = (w', rep)" for form q ar
    using post_login_effect [OF F that] by blast
  have p: "?P w'" if "post_consent F E r form q ar w = (w', rep)" for form q ar
    using post_consent_effect [OF F that] by blast
  have "?P w'"
  proof (cases "method_post r")
    case True
    then consider "w' = w" | form q ar where "post_login F E r form q ar w = (w', rep)" | form q ar where "post_consent F E r form q ar w = (w', rep)"
      using run by (auto simp: HandleAuthorize_def handleAuthorizePOST_def Let_def split: if_splits option.splits sum.splits)
    then show ?thesis
    proof cases
      case 1
      then show ?thesis by simp
    qed (rule l p, assumption)+
  next
    case False
    then have get: "handleAuthorizeGET F E r w = (w', rep)" using run by (simp add: HandleAuthorize_def)
    show ?thesis
    proof (cases "NewAuthorizeRequest F (store w) (raw_query r)")
      case (Inr ar)
      show ?thesis
      proof (cases "currentUser E r w")
        case (Some u)
        with get Inr have "w' = fst (continueAuthorize F E r ar u w)" by (simp add: handleAuthorizeGET_def case_prod_beta)
        with c [OF Some] show ?thesis by simp
      qed (use get Inr in \<open>simp add: handleAuthorizeGET_def\<close>)
    qed (use get in \<open>simp add: handleAuthorizeGET_def\<close>)
  qed
  then show "accounts w' = accounts w \<or> (\<exists>e p. accounts w' = fst (Login (az_auth E) (az_now E) (az_token E) (az_sid E) e p (accounts w)))"
    and "grant_subjects (store w') \<subseteq> grant_subjects (store w) \<union> set (account_ids (accounts w))" by auto
qed

lemma token_subjects:
  "fosite_sessions F \<Longrightarrow> grant_subjects (fst (HandleToken F q st)) \<subseteq> grant_subjects st"
  "fosite_sessions F \<Longrightarrow> grant_subjects (fst (HandleRevoke F q st)) \<subseteq> grant_subjects st"
proof -
  assume F: "fosite_sessions F"
  obtain st1 x where x: "NewAccessRequest F st q = (st1, x)" by fastforce
  have "grant_subjects st1 \<subseteq> grant_subjects st" using F x unfolding fosite_sessions_def by (metis fst_conv)
  moreover have "grant_subjects (fst (NewAccessResponse F st1 acc)) \<subseteq> grant_subjects st" if "x = Inr acc" for acc
    using F x that unfolding fosite_sessions_def by blast
  ultimately show "grant_subjects (fst (HandleToken F q st)) \<subseteq> grant_subjects st"
    by (cases x) (simp_all add: HandleToken_def x)
  show "grant_subjects (fst (HandleRevoke F q st)) \<subseteq> grant_subjects st"
    using F by (simp add: HandleRevoke_def fosite_sessions_def)
qed

lemma register_grants: "grants (fst (HandleRegister E body st)) = grants st"
  by (auto simp: HandleRegister_def insertClient_def split: option.split prod.split if_splits)


section \<open>The invariants of the server, on every route\<close>

context server_invariant
begin

lemma keeps_authorize: "fosite_sessions (p_fosite P) \<Longrightarrow> I (core st) \<Longrightarrow> I (core (fst (authorize post P V r st)))"
proof -
  assume F: "fosite_sessions (p_fosite P)" and i: "I (core st)"
  let ?q = "\<lparr>method_post = post, raw_query = pq_query r, post_form = pq_form r, cookie = cookie_of (pq_http r) SessionCookieName\<rparr>"
  obtain w rep where h: "HandleAuthorize (p_fosite P) (authorize_env P V) ?q \<lparr>accounts = acct (core st), store = oau (core st)\<rparr> = (w, rep)"
    by fastforce
  note e = authorize_effect [OF F h, simplified]
  have a: "I ((core st)\<lparr>acct := accounts w\<rparr>) \<and> set (account_ids (accounts w)) = set (account_ids (acct (core st)))"
    using e(1)
  proof (elim disjE exE)
    assume "accounts w = acct (core st)"
    with i show ?thesis by simp
  next
    fix m p
    assume l: "accounts w = fst (Login (az_auth (authorize_env P V)) (az_now (authorize_env P V)) (az_token (authorize_env P V))
        (az_sid (authorize_env P V)) m p (acct (core st)))"
    show ?thesis unfolding l by (simp add: acct_step [OF i auth_step.intros(2) account_ids_old(1)] account_ids_same)
  qed
  then have "I ((core st)\<lparr>acct := accounts w, oau := store w\<rparr>)"
    using oau_step [of "(core st)\<lparr>acct := accounts w\<rparr>" "store w"] e(2) by simp
  then show ?thesis by (simp add: authorize_def h set_core_def)
qed

lemma keeps_endpoints:
  assumes "fosite_sessions (p_fosite P)" and "I (core st)"
  shows "I (core (fst (token P V r st)))" "I (core (fst (revoke P V r st)))" "I (core (fst (register P V r st)))"
  using oau_old [OF assms(2) token_subjects(1) [OF assms(1)]] oau_old [OF assms(2) token_subjects(2) [OF assms(1)]]
    oau_old [OF assms(2)] grant_subjects_cong [OF register_grants]
  by (auto simp: token_def revoke_def register_def set_core_def split: prod.split) (metis fst_conv order_refl)+

lemma keeps_limits:
  "(\<And>st. I (core st) \<Longrightarrow> I (core (fst (nxt P V r st)))) \<Longrightarrow> I (core st) \<Longrightarrow> I (core (fst (limitLogin nxt P V r st)))"
  "(\<And>st. I (core st) \<Longrightarrow> I (core (fst (nxt P V r st)))) \<Longrightarrow> I (core st) \<Longrightarrow> I (core (fst (limitRegister nxt P V r st)))"
  by (simp_all add: limitLogin_def limitRegister_def login_limiter register_limiter set_core_def split: prod.split verdict.split)

lemma keeps_withScope: "(\<And>u. I (core (fst (nxt u P V r st)))) \<Longrightarrow> I (core st) \<Longrightarrow> I (core (fst (withScope scope nxt P V r st)))"
  using withScope_None [of P scope r st nxt V] withScope_Some [of P scope r st _ nxt V]
  by (cases "bearer P scope r st") auto

lemma keeps_bus: "I (core st) \<Longrightarrow> I (core (set_bus b st))"
  by (simp add: set_bus_def set_core_def rest_step)

lemma keeps_resources:
  assumes "I (core st)"
  shows "I (core (fst (write_data h n i u P V r st)))" "I (core (fst (connect P V r st)))"
    "I (core (fst (write_files (\<lambda>E B u r. handleUpload B E u (pq_body r)) u P V r st)))"
    "I (core (fst (write_files (\<lambda>E B u r. handleFileDelete B E u i) u P V r st)))"
    "I (core (fst (read_data g n i u P V r st)))" "I (core (fst (read_files f u P V r st)))"
  using assms rest_step [OF assms] upload_step [OF assms] remove_step [OF assms]
  by (auto simp: write_data_def connect_def Let_def write_files_def read_data_def read_files_def keeps_bus set_core_def
      split: prod.split sum.split) (metis fst_conv)+

lemma keeps_public: "fosite_sessions (p_fosite P) \<Longrightarrow> I (core st) \<Longrightarrow> I (core (fst (public rt P V r st)))"
  by (induction rt rule: pub_route_flat)
    (simp_all add: keeps_authorize keeps_endpoints keeps_limits keeps_withScope keeps_resources HandleWhoAmI_def)

end

text \<open>
  A small authorization library for the concrete runs: the token is the signature, and a token is good
  for the scopes of its request.
\<close>

definition small_fosite :: "(string list \<times> string list, unit) fosite" where
  "small_fosite = tiny_fosite\<lparr>AccessTokenFromRequest := id,
     IntrospectToken := (\<lambda>st tok scope.
       case find (\<lambda>g. gr_sig g = tok \<and> scope \<in> set (sr_granted_scope (gr_requester g)) \<and> gr_session g \<noteq> None) (grants st Access) of
         None \<Rightarrow> Inl ''request_unauthorized'' | Some g \<Rightarrow> Inr (the (gr_session g)))\<rparr>"

lemma small_fosite_sessions: "fosite_sessions small_fosite"
  by (fastforce simp: fosite_sessions_def small_fosite_def tiny_fosite_def split: option.splits dest: find_Some_mem)

definition small_pub :: "(string list \<times> string list, unit) pub_env" where
  "small_pub = \<lparr>p_fosite = small_fosite, p_rsa = \<lparr>ParsePKCS1PrivateKey = Some, MarshalPKCS1PrivateKey = id, PublicKey = id\<rparr>,
     p_issuer = ''https://a'', p_kid = ''k'', p_key = Some ''key'',
     p_register = \<lparr>re_decode = (\<lambda>_. None), re_rest_ok = (\<lambda>_ _ _. True), re_secret = None, re_hash = Some, re_id = ''c9'', re_now = 0, re_fails = (\<lambda>_. False)\<rparr>,
     p_first_value = (\<lambda>_. DInvalid), p_row_uuid = ''r9'', p_conn = 1\<rparr>"

definition pub_get :: "string \<Rightarrow> pub_req" where
  "pub_get tok = \<lparr>pq_http = blank_req, pq_fosite = tok, pq_query = [], pq_form = None, pq_limit = [], pq_offset = [], pq_body = [], pq_upgrade = False\<rparr>"

text \<open>A deployment whose user \<open>u\<close> is signed in and has let a client act for the scope \<^verbatim>\<open>profile\<close>.\<close>

definition user_u :: user_row where
  "user_u = \<lparr>user_id = ''u'', user_email = ''u@x.co'', user_hash = ''secret88'', user_created = 0, user_updated = 0\<rparr>"

definition leaver_ui :: "dir ui" where
  "leaver_ui = demo_ui\<lparr>core := demo_state\<lparr>
     acct := empty_auth\<lparr>users := [user_u], sessions := [\<lparr>sess_id = ''s'', sess_user = ''u'', sess_hash = ''t'', sess_expires = 5\<rparr>]\<rparr>,
     oau := consent_example\<lparr>grants := (\<lambda>t. map (\<lambda>g. g\<lparr>gr_requester := (gr_requester g)\<lparr>sr_granted_scope := [''profile'']\<rparr>\<rparr>)
       (grants consent_example t))\<rparr>\<rparr>\<rparr>"

text \<open>One run of the deployment: requests to any route and messages on open websockets.\<close>

datatype ('fs, 'ar, 'acc) hit =
    ToServer route "'fs venv" http_req
  | ToUI ui_route "'fs ui_env" ui_req
  | ToPublic pub_route "('ar, 'acc) pub_env" "'fs venv" pub_req
  | Frame nat frame

fun hit_step :: "('fs, 'ar, 'acc) hit \<Rightarrow> 'fs ui \<Rightarrow> 'fs ui" where
  "hit_step (ToServer rt V r) st = set_core (fst (serve rt (V\<lparr>v_server := live_server st\<rparr>) r (core st))) st"
| "hit_step (ToUI rt X r) st = fst (Mount rt X r st)"
| "hit_step (ToPublic rt P V r) st = fst (public rt P V r st)"
| "hit_step (Frame c fr) st = on_frame c fr st"

text \<open>
  The requests considered: no raw SQL, and with a library behind the authorization server that treats
  sessions as documented. \<open>new_ids\<close> are the identifiers a request may give to a new account.
\<close>

fun ordinary :: "('fs, 'ar, 'acc) hit \<Rightarrow> bool" where
  "ordinary (ToUI rt X r) \<longleftrightarrow> rt \<noteq> PostSQL"
| "ordinary (ToPublic rt P V r) \<longleftrightarrow> fosite_sessions (p_fosite P)"
| "ordinary _ \<longleftrightarrow> True"

fun new_ids :: "('fs, 'ar, 'acc) hit \<Rightarrow> string set" where
  "new_ids (ToServer rt V r) = drawn V"
| "new_ids (ToUI rt X r) = drawn (x_env X)"
| "new_ids _ = {}"

context server_invariant
begin

lemma keeps_hit: "ordinary h \<Longrightarrow> new_ids h \<subseteq> N \<Longrightarrow> I (core st) \<Longrightarrow> I (core (hit_step h st))"
  by (induction h) (simp_all add: keeps_serve keeps_Mount keeps_public keeps_bus drawn_def set_core_def on_frame_def)

lemma keeps_hits: "\<forall>h \<in> set hs. ordinary h \<and> new_ids h \<subseteq> N \<Longrightarrow> I (core st) \<Longrightarrow> I (core (fold hit_step hs st))"
  by (induction hs arbitrary: st) (simp_all add: keeps_hit)

end


section \<open>A deleted account stays out\<close>

definition locked_out :: "string \<Rightarrow> 'fs state \<Rightarrow> bool" where
  "locked_out u st \<longleftrightarrow> u \<notin> set (account_ids (acct st)) \<and> u \<notin> grant_subjects (oau st)"

interpretation locked: server_invariant "locked_out u" "- {u}" for u
  by unfold_locales (auto simp: locked_out_def)

lemma bearer_subject: "fosite_sessions (p_fosite P) \<Longrightarrow> bearer P scope r st = Some u \<Longrightarrow> u \<in> grant_subjects (oau (core st))"
  by (fastforce simp: bearer_def Authenticate_def Let_def fosite_sessions_def grant_subjects_def split: if_splits sum.splits)

lemma RevokeForSubject_done: "RevokeForSubject bad u st = (st', Inr ()) \<Longrightarrow> u \<notin> grant_subjects st'"
proof -
  assume "RevokeForSubject bad u st = (st', Inr ())"
  then have "st' = cut_grants (granted_by u) UNIV st"
    unfolding RevokeForSubject_eq by (metis revoke_tables_all all_grant_tables)
  then show ?thesis by (auto simp: grant_subjects_def granted_by_def)
qed

lemma deleted_locked_out:
  assumes "handleDeleteAccount V c r st = (st', reply_with [ClearCookie] 204 BNone)" and "cx_user c = Some u"
  shows "locked_out (user_id u) st'"
proof -
  obtain d x where d: "DeleteOwned (v_engine V) (v_server V) (user_id u) (rest st) = (d, x)" by fastforce
  obtain s ok where s: "DeleteOwnedFiles (v_backend V) (v_file V) (v_remove V) (user_id u) (stor st) = (s, ok)" by fastforce
  obtain w y where w: "RevokeForSubject (v_oauth V) (user_id u) (oau st) = (w, y)" by fastforce
  obtain st1 z where z: "delete_user V (user_id u) (st\<lparr>rest := d, stor := s, oau := w\<rparr>) = (st1, z)" by fastforce
  have ok: "x = Erased" "ok" "y = Inr ()" "z"
    using assms by (cases x; cases ok; cases y; cases z; simp add: handleDeleteAccount_def d s w z)+
  then have st': "st' = audit_note V EventCustomerAccountDeleted (user_party u) (user_party u) None st1"
    using assms by (simp add: handleDeleteAccount_def d s w z)
  have "user_id u \<notin> grant_subjects w" using RevokeForSubject_done w ok(3) by blast
  moreover have "grant_subjects (oau st1) = grant_subjects w"
    using z by (intro grant_subjects_cong) (auto simp: delete_user_def DeleteUser_def cascade_user_def split: if_splits)
  ultimately show ?thesis
    using z ok(4) by (auto simp: st' locked_out_def delete_user_def DeleteUser_def cascade_user_def account_ids_def split: if_splits)
qed


section \<open>What a bearer of a token can reach\<close>

text \<open>
  What belongs to a subject: its rows in the collections that restrict updates and deletes to the owner, and
  its files with their bytes.
\<close>

definition same_holdings :: "'fs backend \<Rightarrow> string \<Rightarrow> 'fs ui \<Rightarrow> 'fs ui \<Rightarrow> bool" where
  "same_holdings B v st st' \<longleftrightarrow>
     (\<forall>n col. Get (registry (live_server st)) n = Some col \<and> guarded col \<longrightarrow>
        filter (owned_by col v) (tables (rest (core st')) n) = filter (owned_by col v) (tables (rest (core st)) n)) \<and>
     view B v (stor (core st')) = view B v (stor (core st))"

lemma same_holdings_refl [simp]: "same_holdings B v st st"
  by (simp add: same_holdings_def)

text \<open>What no bearer route touches at all.\<close>

definition same_planes :: "'fs ui \<Rightarrow> 'fs ui \<Rightarrow> bool" where
  "same_planes st st' \<longleftrightarrow>
     acct (core st') = acct (core st) \<and> own (core st') = own (core st) \<and> oau (core st') = oau (core st) \<and>
     trail (core st') = trail (core st) \<and> db_schema st' = db_schema st \<and> live_server st' = live_server st"

lemma same_planes_refl [simp]: "same_planes st st"
  by (simp add: same_planes_def)

lemma planes_of_resources:
  "same_planes st (fst (write_data h n i u P V r st))" "same_planes st (fst (write_files f u P V r st))"
  "same_planes st (fst (read_data g n i u P V r st))" "same_planes st (fst (read_files e u P V r st))"
  "same_planes st (fst (connect P V r st))"
  by (auto simp: same_planes_def write_data_def write_files_def read_data_def read_files_def connect_def Let_def set_bus_def set_core_def
      split: prod.split sum.split)

lemma reads_hold:
  "same_holdings B v st (fst (read_data g n i u P V r st))" "same_holdings B v st (fst (read_files e u P V r st))"
  "same_holdings B v st (fst (connect P V r st))"
  by (auto simp: same_holdings_def read_data_def read_files_def connect_def Let_def set_bus_def set_core_def split: sum.split)

lemma write_data_holds:
  assumes "served (live_server st)" and "engine_ok (v_engine V)" and "u \<noteq> []" and "v \<noteq> u"
    and h: "\<And>s q d. fst (h P (v_engine V) s q d) = write_step (v_engine V) fv s (w, q) d"
  shows "same_holdings B v st (fst (write_data h n i u P V r st))"
proof -
  have "rest (core (fst (write_data h n i u P V r st))) =
      write_step (v_engine V) fv (live_server st) (w, data_request u n i r) (rest (core st))"
    unfolding write_data_def h [symmetric] by (simp add: case_prod_beta set_core_def)
  moreover have "filter (owned_by col v) (tables (write_step (v_engine V) fv (live_server st) (w, data_request u n i r) (rest (core st))) m) =
      filter (owned_by col v) (tables (rest (core st)) m)"
    if "Get (registry (live_server st)) m = Some col" "guarded col" for m col
    by (rule write_step_others [OF assms(1,2) that]) (use assms(3,4) in \<open>simp_all add: data_request_def\<close>)
  ultimately show ?thesis by (simp add: same_holdings_def write_data_def case_prod_beta set_core_def)
qed

lemma write_files_holds:
  "view B v (fst (h (live_files V (core st)) (v_backend V) u r (stor (core st)))) = view B v (stor (core st))
    \<Longrightarrow> same_holdings B v st (fst (write_files h u P V r st))"
  by (simp add: same_holdings_def write_files_def case_prod_beta set_core_def)

lemma refused_withScope:
  assumes "bearer P scope r st = None"
  shows "fst (withScope scope nxt P V r st) = st" "\<exists>msg. snd (withScope scope nxt P V r st) = Denied 401 msg"
  using withScope_None [OF assms, of nxt V] by auto

lemma refused_connect:
  assumes "bearer P ''records:read'' r st = None"
  shows "fst (connect P V r st) = st" "\<exists>msg. snd (connect P V r st) = Denied 401 msg"
  using assms by (auto simp: bearer_def connect_def Let_def split: if_splits sum.splits)

text \<open>
  C3. What a bearer token opens. On every route that asks for a scope, a request whose token is missing, unknown
  or lacks that scope is refused and changes nothing. With the token of a subject, the accounts, the
  owner plane, the grants, the audit trail and the schema stay as they are, and so does everything that
  belongs to anybody else: their rows in every collection that restricts updates and deletes to the owner,
  and their files with their bytes.
\<close>

theorem bearer_requests_confined:
  assumes "scope_of rt = Some scope" and "served (live_server st)" and "engine_ok (v_engine V)"
    and "v_backend V = LocalBackend w" and "ids_unique (stor (core st))" and "f_uuid (v_file V) \<notin> f_id ` set (files (stor (core st)))"
  shows "(case bearer P scope r st of
      None \<Rightarrow> fst (public rt P V r st) = st \<and> ((\<exists>msg. snd (public rt P V r st) = Denied 401 msg) \<or> rt = Data GetSchema)
    | Some u \<Rightarrow> same_planes st (fst (public rt P V r st)) \<and>
        (\<forall>v. u \<noteq> [] \<and> v \<noteq> u \<longrightarrow> same_holdings (LocalBackend w) v st (fst (public rt P V r st))))"
proof (cases "bearer P scope r st")
  case None
  then show ?thesis
    using assms(1) refused_withScope [OF None] refused_connect [of P r st] by (induction rt rule: pub_route_flat) simp_all
next
  case (Some u)
  have uuid: "f_uuid (live_files V (core st)) \<notin> f_id ` set (files (stor (core st)))" using assms(6) by (simp add: live_files_def)
  have planes: "same_planes st (fst (public rt P V r st))"
    using assms(1) Some by (induction rt rule: pub_route_flat) (simp_all add: withScope_Some planes_of_resources HandleWhoAmI_def)
  moreover have "same_holdings (LocalBackend w) v st (fst (public rt P V r st))" if u: "u \<noteq> []" "v \<noteq> u" for v
  proof -
    note d = write_data_holds [OF assms(2,3) u]
    have c: "same_holdings (LocalBackend w) v st (fst (write_data (\<lambda>P E. handleCreate E (p_first_value P) (p_row_uuid P)) n [] u P V r st))"
      "same_holdings (LocalBackend w) v st (fst (write_data (\<lambda>P E. handleUpdate E (p_first_value P)) n i u P V r st))"
      "same_holdings (LocalBackend w) v st (fst (write_data (\<lambda>P. handleDelete) n i u P V r st))" for n i
      by (rule d [where fv = "p_first_value P" and w = "WCreate (p_row_uuid P)"] d [where fv = "p_first_value P" and w = WUpdate]
          d [where fv = "p_first_value P" and w = WDelete], simp add: write_step_def)+
    have f: "same_holdings (LocalBackend w) v st (fst (write_files (\<lambda>E B u r. handleUpload B E u (pq_body r)) u P V r st))"
      "same_holdings (LocalBackend w) v st (fst (write_files (\<lambda>E B u r. handleFileDelete B E u i) u P V r st))" for i
      using dirstore.upload_view [OF assms(5) uuid u(2) [symmetric]] dirstore.delete_view [OF assms(5) u(2) [symmetric]]
      by (auto intro!: write_files_holds simp: assms(4))
    show ?thesis using assms(1) Some by (induction rt rule: pub_route_flat) (simp_all add: withScope_Some reads_hold c f HandleWhoAmI_def)
  qed
  ultimately show ?thesis using Some by simp
qed

text \<open>The same user, whose client may also write records.\<close>

definition writer_ui :: "dir ui" where
  "writer_ui = set_core ((core leaver_ui)\<lparr>oau := (oau (core leaver_ui))\<lparr>grants := (\<lambda>t.
     map (\<lambda>g. g\<lparr>gr_requester := (gr_requester g)\<lparr>sr_granted_scope := [''records:write'']\<rparr>\<rparr>) (grants consent_example t))\<rparr>\<rparr>) leaver_ui"

theorem bearer_requests_confined_witness:
  "bearer small_pub ''records:write'' (pub_get ''s'') writer_ui = Some ''u'' \<and>
   filter (owned_by journal ''ann'')
     (tables (rest (core (fst (public (Data (DeleteRecord ''journal'' ''1'')) small_pub demo_env (pub_get ''s'') writer_ui)))) ''journal'') =
   [note_row ''1'' ''ann'' ''hi'']"
proof -
  have b: "bearer small_pub ''records:write'' (pub_get ''s'') writer_ui = Some ''u''"
    by (simp add: bearer_def small_pub_def small_fosite_def pub_get_def Authenticate_def writer_ui_def set_core_def consent_example_def)
  have st: "live_server writer_ui = journal_server" "rest (core writer_ui) = journal_state None" "stor (core writer_ui) = no_files"
    by (simp_all add: writer_ui_def set_core_def leaver_ui_def demo_ui_def demo_state_def)
  have e: "engine_ok (v_engine demo_env)" "v_backend demo_env = LocalBackend 0" using lite_ok by (simp_all add: demo_env_def)
  have f: "served (live_server writer_ui)" "ids_unique (stor (core writer_ui))"
    "f_uuid (v_file demo_env) \<notin> f_id ` set (files (stor (core writer_ui)))"
    using served_journal by (simp_all add: st no_files_def)
  have "same_holdings (LocalBackend 0) ''ann'' writer_ui (fst (public (Data (DeleteRecord ''journal'' ''1'')) small_pub demo_env (pub_get ''s'') writer_ui))"
    using bearer_requests_confined [OF _ f(1) e(1,2) f(2,3), of "Data (DeleteRecord ''journal'' ''1'')" "''records:write''" small_pub "pub_get ''s''"] b
    by simp
  moreover have "filter (owned_by journal ''ann'') (tables (journal_state None) ''journal'') = [note_row ''1'' ''ann'' ''hi'']"
    by (simp add: owned_by_def cell_def)
  ultimately show ?thesis
    using b unfolding same_holdings_def st by (metis Get_journal guarded_def journal_simps(6,7) server.select_convs(1))
qed

end
