(* ===== verification/Startup.thy ===== *)
theory Startup
  imports Auth_Service Owner_Auth OAuth_Storage Providers Migrations Registry "HOL-Library.Word"
begin

text \<open>
  Configuration and startup: \<^verbatim>\<open>internal/config/config.go\<close> and \<^verbatim>\<open>cmd/maubase/main.go\<close>. The environment
  is a function from names to values, empty when unset; integers are 64 bits wide. Opening the
  database, the directories and the relay, and listening, may fail, which are arguments.
\<close>

section \<open>Configuration\<close>

record Config =
  Addr :: string
  DBPath :: string
  Issuer :: string
  BootstrapOwnerEmail :: string
  BootstrapOwnerPassword :: string
  MigrationsDir :: string
  LoginRateLimit :: int
  LoginRateWindow :: duration
  SessionCleanupInterval :: duration
  StorageDir :: string
  MaxUploadBytes :: int
  MaxRequestBodyBytes :: int
  ResendAPIKey :: string
  EmailFrom :: string
  PasswordResetURL :: string
  GoogleClientID :: string
  GoogleClientSecret :: string
  GitHubClientID :: string
  GitHubClientSecret :: string
  SocialLoginRedirectURL :: string
  RedisURL :: string
  Env :: string

definition IsDevelopment :: "Config \<Rightarrow> bool" where
  "IsDevelopment c \<longleftrightarrow> Env c = ''development''"

text \<open>The product of two signed 64-bit integers, which wraps around.\<close>

definition mul64 :: "int \<Rightarrow> int \<Rightarrow> int" where
  "mul64 a b = sint (word_of_int a * word_of_int b :: 64 word)"

definition getEnv :: "(string \<Rightarrow> string) \<Rightarrow> string \<Rightarrow> string \<Rightarrow> string" where
  "getEnv env key fallback = (if env key \<noteq> [] then env key else fallback)"

definition getEnvInt :: "(string \<Rightarrow> string) \<Rightarrow> string \<Rightarrow> int \<Rightarrow> int" where
  "getEnvInt env key fallback =
     (if env key = [] then fallback else (case Atoi (env key) of None \<Rightarrow> fallback | Some n \<Rightarrow> n))"

definition getEnvSeconds :: "(string \<Rightarrow> string) \<Rightarrow> string \<Rightarrow> duration \<Rightarrow> duration" where
  "getEnvSeconds env key fallback =
     (let n = getEnvInt env key (- 1) in if n < 0 then fallback else mul64 n second)"

definition Load :: "(string \<Rightarrow> string) \<Rightarrow> Config" where
  "Load env =
     \<lparr>Addr = getEnv env ''MAUBASE_ADDR'' '':8080'',
      DBPath = getEnv env ''MAUBASE_DB_PATH'' ''data/maubase.db'',
      Issuer = getEnv env ''MAUBASE_ISSUER'' ''http://localhost:8080'',
      BootstrapOwnerEmail = getEnv env ''MAUBASE_BOOTSTRAP_OWNER_EMAIL'' [],
      BootstrapOwnerPassword = getEnv env ''MAUBASE_BOOTSTRAP_OWNER_PASSWORD'' [],
      MigrationsDir = getEnv env ''MAUBASE_MIGRATIONS_DIR'' ''migrations'',
      LoginRateLimit = getEnvInt env ''MAUBASE_LOGIN_RATE_LIMIT'' 10,
      LoginRateWindow = getEnvSeconds env ''MAUBASE_LOGIN_RATE_WINDOW_SECONDS'' (60 * second),
      SessionCleanupInterval = getEnvSeconds env ''MAUBASE_SESSION_CLEANUP_INTERVAL_SECONDS'' hour,
      StorageDir = getEnv env ''MAUBASE_STORAGE_DIR'' ''data/storage'',
      MaxUploadBytes = mul64 (mul64 (getEnvInt env ''MAUBASE_MAX_UPLOAD_MB'' 25) 1024) 1024,
      MaxRequestBodyBytes = mul64 (getEnvInt env ''MAUBASE_MAX_REQUEST_BODY_KB'' 1024) 1024,
      ResendAPIKey = getEnv env ''MAUBASE_RESEND_API_KEY'' [],
      EmailFrom = getEnv env ''MAUBASE_EMAIL_FROM'' [],
      PasswordResetURL = getEnv env ''MAUBASE_PASSWORD_RESET_URL'' [],
      GoogleClientID = getEnv env ''MAUBASE_GOOGLE_CLIENT_ID'' [],
      GoogleClientSecret = getEnv env ''MAUBASE_GOOGLE_CLIENT_SECRET'' [],
      GitHubClientID = getEnv env ''MAUBASE_GITHUB_CLIENT_ID'' [],
      GitHubClientSecret = getEnv env ''MAUBASE_GITHUB_CLIENT_SECRET'' [],
      SocialLoginRedirectURL = getEnv env ''MAUBASE_SOCIAL_LOGIN_REDIRECT_URL'' [],
      RedisURL = getEnv env ''MAUBASE_REDIS_URL'' [],
      Env = getEnv env ''MAUBASE_ENV'' ''production''\<rparr>"


section \<open>The command\<close>

datatype action =
    PrintUsage | Serve | Init "string list" | MigrateCommand "string list" | PrintVersion | UnknownCommand string

definition main_action :: "string list \<Rightarrow> action" where
  "main_action args =
     (case args of
        [] \<Rightarrow> PrintUsage
      | cmd # rest \<Rightarrow>
          if cmd = ''serve'' then Serve
          else if cmd = ''init'' then Init rest
          else if cmd = ''migrate'' then MigrateCommand rest
          else if cmd \<in> {''help'', ''-h'', ''--help''} then PrintUsage
          else if cmd \<in> {''version'', ''-v'', ''--version''} then PrintVersion
          else UnknownCommand cmd)"

definition bootstrapOwner :: "owner_env \<Rightarrow> time \<Rightarrow> string \<Rightarrow> Config \<Rightarrow> owners \<Rightarrow> owners \<times> owner_error option" where
  "bootstrapOwner W now i cfg st =
     (if BootstrapOwnerEmail cfg = [] \<or> BootstrapOwnerPassword cfg = [] then (st, None)
      else (case Bootstrap W now i (BootstrapOwnerEmail cfg) (BootstrapOwnerPassword cfg) st of
              (st', Inl e) \<Rightarrow> (st', if e = OErrAlreadyBootstrapped then None else Some e)
            | (st', Inr _) \<Rightarrow> (st', None)))"

definition choose_sender :: "(mail \<Rightarrow> nat option) \<Rightarrow> Config \<Rightarrow> Sender" where
  "choose_sender post cfg = (if ResendAPIKey cfg \<noteq> [] \<and> EmailFrom cfg \<noteq> [] then ResendSender post else NoopSender)"

text \<open>The providers, given what the OAuth 2 client library makes of a client and a callback address.\<close>

definition choose_providers :: "(string \<Rightarrow> string \<Rightarrow> string \<Rightarrow> provider) \<Rightarrow> (string \<Rightarrow> string \<Rightarrow> string \<Rightarrow> provider) \<Rightarrow> Config \<Rightarrow> (string \<times> provider) list" where
  "choose_providers google github cfg =
     (if GoogleClientID cfg \<noteq> [] \<and> GoogleClientSecret cfg \<noteq> []
      then [(''google'', google (GoogleClientID cfg) (GoogleClientSecret cfg) (Issuer cfg @ ''/api/auth/social/google/callback''))] else [])
     @ (if GitHubClientID cfg \<noteq> [] \<and> GitHubClientSecret cfg \<noteq> []
        then [(''github'', github (GitHubClientID cfg) (GitHubClientSecret cfg) (Issuer cfg @ ''/api/auth/social/github/callback''))] else [])"

text \<open>The janitor: \<^verbatim>\<open>time.NewTicker\<close> panics unless the interval is positive; failures of a tick are only logged.\<close>

definition ticker_panics :: "duration \<Rightarrow> bool" where
  "ticker_panics interval \<longleftrightarrow> interval \<le> 0"

definition janitor_tick :: "Auth_Service.env \<Rightarrow> owner_env \<Rightarrow> time \<Rightarrow> auth \<times> owners \<Rightarrow> auth \<times> owners" where
  "janitor_tick V W now st =
     (let a = fst (PurgeExpiredSessions V now (fst st));
          b = fst (ownerPurgeExpired W now (snd st))
      in (fst (PurgeExpiredResetTokens V now a), b))"

fun runSessionJanitor :: "(Auth_Service.env \<times> owner_env \<times> time) list \<Rightarrow> duration \<Rightarrow> auth \<times> owners \<Rightarrow> (auth \<times> owners) option" where
  "runSessionJanitor ticks interval st =
     (if ticker_panics interval then None else Some (fold (\<lambda>(V, W, now). janitor_tick V W now) ticks st))"

definition oauthNewServer :: "(oauth_stmt \<Rightarrow> bool) \<Rightarrow> rsa_lib \<Rightarrow> string option \<Rightarrow> string \<Rightarrow> string option \<Rightarrow> oauth \<Rightarrow> oauth \<times> storage_error option" where
  "oauthNewServer bad lib secret kid key st =
     (case EnsureHMACSecret bad secret st of
        (st1, Inl e) \<Rightarrow> (st1, Some e)
      | (st1, Inr _) \<Rightarrow>
          (case EnsureKey bad lib kid key st1 of
             (st2, Inl e) \<Rightarrow> (st2, Some e)
           | (st2, Inr _) \<Rightarrow> (st2, None)))"


section \<open>Serving\<close>

record 'db deployment =
  dp_db :: "'db mdb"
  dp_oauth :: oauth
  dp_owners :: owners

record 'db boot_env =
  bt_open_fails :: bool
  bt_mig :: "'db mig_env"
  bt_embedded :: mig_dir
  bt_dir :: mig_dir
  bt_oauth :: "oauth_stmt \<Rightarrow> bool"
  bt_lib :: rsa_lib
  bt_secret :: "string option"
  bt_kid :: string
  bt_key :: "string option"
  bt_owner :: owner_env
  bt_now :: time
  bt_uuid :: string
  bt_relay_fails :: bool
  bt_schema :: "'db mdb \<Rightarrow> schema"
  bt_storage_fails :: bool

datatype boot_error =
    BootOpen | BootMigrate mig_error | BootAppMigrate mig_error | BootOAuth storage_error | BootOwner owner_error
  | BootRelay | BootDiscover reg_error | BootStorage

text \<open>Everything \<^verbatim>\<open>run\<close> does before it listens: the state it leaves and the registry it serves, or the error.\<close>

definition run_until_listening :: "'db boot_env \<Rightarrow> Config \<Rightarrow> 'db deployment \<Rightarrow> 'db deployment \<times> (boot_error + Registry)" where
  "run_until_listening B cfg st =
     (if bt_open_fails B then (st, Inl BootOpen)
      else (case Migrate (bt_mig B) (bt_embedded B) (dp_db st) of
        (m1, Some e) \<Rightarrow> (st\<lparr>dp_db := m1\<rparr>, Inl (BootMigrate e))
      | (m1, None) \<Rightarrow>
          (case MigrateDir (bt_mig B) (bt_dir B) m1 of
             (m2, Some e) \<Rightarrow> (st\<lparr>dp_db := m2\<rparr>, Inl (BootAppMigrate e))
           | (m2, None) \<Rightarrow>
               (case oauthNewServer (bt_oauth B) (bt_lib B) (bt_secret B) (bt_kid B) (bt_key B) (dp_oauth st) of
                  (w, Some e) \<Rightarrow> (st\<lparr>dp_db := m2, dp_oauth := w\<rparr>, Inl (BootOAuth e))
                | (w, None) \<Rightarrow>
                    (case bootstrapOwner (bt_owner B) (bt_now B) (bt_uuid B) cfg (dp_owners st) of
                       (ow, Some e) \<Rightarrow> (st\<lparr>dp_db := m2, dp_oauth := w, dp_owners := ow\<rparr>, Inl (BootOwner e))
                     | (ow, None) \<Rightarrow>
                         (let st' = st\<lparr>dp_db := m2, dp_oauth := w, dp_owners := ow\<rparr>
                          in if RedisURL cfg \<noteq> [] \<and> bt_relay_fails B then (st', Inl BootRelay)
                             else (case Discover (bt_schema B m2) of
                                     Inl e \<Rightarrow> (st', Inl (BootDiscover e))
                                   | Inr reg \<Rightarrow> if bt_storage_fails B then (st', Inl BootStorage) else (st', Inr reg))))))))"

section \<open>Restarting\<close>

lemma apply_tx_records:
  "apply_tx E n v c st = (st', None) \<Longrightarrow> recorded v st' \<and> (\<forall>x. recorded x st \<longrightarrow> recorded x st') \<and> (\<exists>rs. table st' = Table rs)"
  by (auto simp: apply_tx_def recorded_def split: if_splits option.splits)

lemma apply_loop_records:
  assumes "apply_loop E d pre ns st = (st', dn, None)"
  shows "(\<forall>n \<in> set ns. recorded (pre @ n) st') \<and> (\<forall>v. recorded v st \<longrightarrow> recorded v st') \<and> (st' = st \<or> (\<exists>rs. table st' = Table rs))"
  using assms
proof (induction ns arbitrary: st dn)
  case (Cons n ns)
  have nf: "\<not> m_fails E (MCount n)" using Cons.prems by (auto split: if_splits)
  show ?case
  proof (cases "recorded (pre @ n) st")
    case True
    with Cons nf show ?thesis by auto
  next
    case False
    with Cons.prems nf obtain c st1 dn1 where
      c: "apply_tx E n (pre @ n) c st = (st1, None)" "apply_loop E d pre ns st1 = (st', dn1, None)"
      by (auto split: option.splits prod.splits)
    from apply_tx_records [OF c(1)] Cons.IH [OF c(2)] show ?thesis by auto
  qed
qed simp

lemma apply_loop_nothing:
  "\<forall>n \<in> set ns. recorded (pre @ n) st \<Longrightarrow> (\<And>q. \<not> m_fails E q) \<Longrightarrow> apply_loop E d pre ns st = (st, [], None)"
  by (induction ns) auto

lemma Migrate_ok:
  assumes "Migrate E d st = (st', None)"
  shows "(\<forall>n \<in> set (file_names d). recorded n st') \<and> (\<exists>rs. table st' = Table rs) \<and> \<not> md_read_error d"
proof -
  obtain st1 where s1: "ensureMigrationsTable E st = (st1, None)"
    using assms by (auto simp: Migrate_def split: prod.splits option.splits)
  obtain dn where "applyMigrations E d [] st1 = (st', dn, None)"
    using assms s1 by (auto simp: Migrate_def split: prod.splits)
  then have l: "apply_loop E d [] (file_names d) st1 = (st', dn, None)" "\<not> md_read_error d"
    by (auto simp: applyMigrations_def split: if_splits)
  from apply_loop_records [OF l(1)] ensure_spec [OF s1] l(2) show ?thesis by auto
qed

lemma MigrateDir_ok:
  assumes "MigrateDir E d st = (st', None)" and "table st = Table rs"
  shows "(\<forall>v. recorded v st \<longrightarrow> recorded v st') \<and> (\<exists>rs. table st' = Table rs) \<and>
    (md_missing d \<or> (\<not> md_stat_error d \<and> \<not> md_read_error d \<and> (\<forall>n \<in> set (file_names d). recorded (app_version n) st')))"
proof (cases "md_missing d")
  case True
  with assms show ?thesis by (auto simp: MigrateDir_def MigrateDirApplied_def)
next
  case False
  obtain dn where a: "MigrateDirApplied E d st = (st', dn, None)" using assms(1) by (auto simp: MigrateDir_def split: prod.splits)
  then obtain st1 where s1: "ensureMigrationsTable E st = (st1, None)" "\<not> md_stat_error d"
    using False by (auto simp: MigrateDirApplied_def split: if_splits prod.splits option.splits)
  with a False have l: "apply_loop E d ''app:'' (file_names d) st1 = (st', dn, None)" "\<not> md_read_error d"
    by (auto simp: MigrateDirApplied_def applyMigrations_def split: if_splits)
  have "recorded v st1 \<longleftrightarrow> recorded v st" for v using ensure_spec [OF s1(1)] by (simp add: recorded_def)
  with apply_loop_records [OF l(1)] ensure_spec [OF s1(1)] s1(2) l(2) show ?thesis by auto
qed

lemma Migrate_again:
  assumes "\<forall>n \<in> set (file_names d). recorded n st" and "table st = Table rs" and "\<not> md_read_error d" and "\<And>q. \<not> m_fails E q"
  shows "Migrate E d st = (st, None)"
  using assms apply_loop_nothing [of "file_names d" "[]" st E d] ensure_calm [OF assms(2)]
  by (simp add: Migrate_def applyMigrations_def)

lemma MigrateDir_again:
  assumes "md_missing d \<or> (\<not> md_stat_error d \<and> \<not> md_read_error d \<and> (\<forall>n \<in> set (file_names d). recorded (app_version n) st))"
    and "table st = Table rs" and "\<And>q. \<not> m_fails E q"
  shows "MigrateDir E d st = (st, None)"
  using assms apply_loop_nothing [of "file_names d" "''app:''" st E d] ensure_calm [OF assms(2)]
  by (cases "md_missing d") (auto simp: MigrateDir_def MigrateDirApplied_def applyMigrations_def)

text \<open>What the code relies on of the key library: an encoded private key is read back.\<close>

definition rsa_ok :: "rsa_lib \<Rightarrow> bool" where
  "rsa_ok lib \<longleftrightarrow> (\<forall>key. ParsePKCS1PrivateKey lib (MarshalPKCS1PrivateKey lib key) = Some key)"

lemma oauthNewServer_again:
  assumes "rsa_ok lib" and "oauthNewServer bad lib secret kid key st = (st', None)"
  shows "oauthNewServer (\<lambda>_. False) lib secret' kid' key' st' = (st', None)"
proof -
  obtain st1 s where h: "EnsureHMACSecret bad secret st = (st1, Inr s)"
    using assms(2) by (auto simp: oauthNewServer_def split: prod.splits sum.splits)
  then obtain k where e: "EnsureKey bad lib kid key st1 = (st', Inr k)"
    using assms(2) by (auto simp: oauthNewServer_def split: prod.splits sum.splits)
  have s1: "hmac_secret st1 = Some s" using h by (auto simp: EnsureHMACSecret_def split: if_splits option.splits)
  have "hmac_secret st' = Some s \<and> (\<exists>k'. currentKey (\<lambda>_. False) lib st' = Inr k')"
  proof (cases "currentKey bad lib st1")
    case (Inr k0)
    then have "st' = st1" "\<not> bad SelKey" using e by (auto simp: EnsureKey_def currentKey_def split: if_splits)
    with Inr s1 show ?thesis by (auto simp: currentKey_def split: option.splits)
  next
    case (Inl err)
    with e obtain fresh where r: "key = Some fresh" "st' = st1\<lparr>keys := map (\<lambda>x. x\<lparr>key_current := False\<rparr>) (keys st1)
                    @ [\<lparr>key_kid = kid, key_der = MarshalPKCS1PrivateKey lib fresh, key_current = True\<rparr>]\<rparr>"
      by (auto simp: EnsureKey_def rotate_key_def split: if_splits option.splits)
    have "find key_current (keys st') = Some \<lparr>key_kid = kid, key_der = MarshalPKCS1PrivateKey lib fresh, key_current = True\<rparr>"
      by (simp add: r find_app_none [OF filter_current_none])
    with assms(1) s1 r show ?thesis by (simp add: currentKey_def rsa_ok_def)
  qed
  then show ?thesis by (auto simp: oauthNewServer_def EnsureHMACSecret_def EnsureKey_def)
qed

lemma bootstrapOwner_again:
  assumes "bootstrapOwner W now i cfg st = (st', None)" and "\<not> ofails W' OCount"
  shows "bootstrapOwner W' now' i' cfg st' = (st', None)"
proof (cases "BootstrapOwnerEmail cfg = [] \<or> BootstrapOwnerPassword cfg = []")
  case True
  with assms show ?thesis by (simp add: bootstrapOwner_def)
next
  case False
  have "owner_users st' \<noteq> []"
  proof (cases "owner_users st = []")
    case True
    with assms(1) False show ?thesis
      by (auto simp: bootstrapOwner_def Bootstrap_def createOwner_def Let_def split: prod.splits sum.splits if_splits option.splits)
  next
    case ne: False
    with assms(1) False show ?thesis
      by (auto simp: bootstrapOwner_def Bootstrap_def split: prod.splits sum.splits if_splits)
  qed
  with False assms(2) show ?thesis by (simp add: bootstrapOwner_def Bootstrap_def)
qed


lemma mul64_exact: "- (2 ^ 63) \<le> a * b \<Longrightarrow> a * b < 2 ^ 63 \<Longrightarrow> mul64 a b = a * b"
proof -
  assume r: "- (2 ^ 63) \<le> a * b" "a * b < 2 ^ 63"
  have w: "(word_of_int a * word_of_int b :: 64 word) = word_of_int (a * b)" by simp
  have "mul64 a b = signed_take_bit 63 (a * b)" unfolding mul64_def w by (simp add: signed_of_int del: of_int_mult)
  also have "\<dots> = a * b" using r by (intro signed_take_bit_int_eq_self) auto
  finally show ?thesis .
qed

text \<open>
  The interval of the session janitor. Unset, malformed and negative values mean an hour, values
  from one second up to the largest that fits in 64 bits of nanoseconds mean what they say, and the
  janitor runs. The value 0 is let through and makes the ticker panic, which takes the whole process
  down as soon as the server has come up.
\<close>

theorem janitor_interval:
  "(env ''MAUBASE_SESSION_CLEANUP_INTERVAL_SECONDS'' = ''0'' \<longrightarrow>
      runSessionJanitor ticks (SessionCleanupInterval (Load env)) st = None) \<and>
   (Atoi (env ''MAUBASE_SESSION_CLEANUP_INTERVAL_SECONDS'') = Some n \<and> 1 \<le> n \<and> n \<le> 9223372036 \<longrightarrow>
      SessionCleanupInterval (Load env) = n * second \<and> runSessionJanitor ticks (SessionCleanupInterval (Load env)) st \<noteq> None) \<and>
   (Atoi (env ''MAUBASE_SESSION_CLEANUP_INTERVAL_SECONDS'') = None \<or> (Atoi (env ''MAUBASE_SESSION_CLEANUP_INTERVAL_SECONDS'') = Some n \<and> n < 0) \<longrightarrow>
      SessionCleanupInterval (Load env) = hour \<and> runSessionJanitor ticks (SessionCleanupInterval (Load env)) st \<noteq> None)"
proof -
  let ?v = "env ''MAUBASE_SESSION_CLEANUP_INTERVAL_SECONDS''"
  have i: "SessionCleanupInterval (Load env) = getEnvSeconds env ''MAUBASE_SESSION_CLEANUP_INTERVAL_SECONDS'' hour" by (simp add: Load_def)
  have z: "Atoi ''0'' = Some 0" by code_simp
  have e: "Atoi [] = None" by code_simp
  have m: "mul64 n second = n * second" if "1 \<le> n" "n \<le> 9223372036" using that by (intro mul64_exact) auto
  have m0: "mul64 0 second = 0" by (simp add: mul64_def)
  show ?thesis
  proof (intro conjI impI)
    assume "?v = ''0''"
    then show "runSessionJanitor ticks (SessionCleanupInterval (Load env)) st = None"
      using z m0 by (simp add: i getEnvSeconds_def getEnvInt_def ticker_panics_def)
  next
    assume a: "Atoi ?v = Some n \<and> 1 \<le> n \<and> n \<le> 9223372036"
    then have "?v \<noteq> []" using e by auto
    with a m show "SessionCleanupInterval (Load env) = n * second" "runSessionJanitor ticks (SessionCleanupInterval (Load env)) st \<noteq> None"
      by (auto simp: i getEnvSeconds_def getEnvInt_def ticker_panics_def)
  next
    assume "Atoi ?v = None \<or> (Atoi ?v = Some n \<and> n < 0)"
    then show "SessionCleanupInterval (Load env) = hour" "runSessionJanitor ticks (SessionCleanupInterval (Load env)) st \<noteq> None"
      by (auto simp: i getEnvSeconds_def getEnvInt_def ticker_panics_def split: option.splits)
  qed
qed

theorem janitor_interval_witness:
  "runSessionJanitor [] (SessionCleanupInterval (Load (\<lambda>k. if k = ''MAUBASE_SESSION_CLEANUP_INTERVAL_SECONDS'' then ''0'' else []))) (empty_auth, no_owners) = None
   \<and> SessionCleanupInterval (Load (\<lambda>k. [])) = hour"
proof -
  have "Atoi [] = None" by code_simp
  then show ?thesis
    using janitor_interval [of "\<lambda>k. if k = ''MAUBASE_SESSION_CLEANUP_INTERVAL_SECONDS'' then ''0'' else []"]
      janitor_interval [of "\<lambda>k. []"] by simp
qed

abbreviation tiny_boot :: "string list boot_env" where
  "tiny_boot \<equiv>
     \<lparr>bt_open_fails = False,
      bt_mig = \<lparr>m_fails = (\<lambda>_. False), m_exec = (\<lambda>sql db. Some (db @ [sql])), m_sum = id, m_time = (\<lambda>_. 0)\<rparr>,
      bt_embedded = \<lparr>md_missing = False, md_stat_error = False, md_read_error = False, md_entries = [(''0001_init.sql'', Some ''a'')], md_unreadable = (\<lambda>_. False)\<rparr>,
      bt_dir = \<lparr>md_missing = False, md_stat_error = False, md_read_error = False, md_entries = [(''0001_app.sql'', Some ''b'')], md_unreadable = (\<lambda>_. False)\<rparr>,
      bt_oauth = (\<lambda>_. False), bt_lib = \<lparr>ParsePKCS1PrivateKey = Some, MarshalPKCS1PrivateKey = id, PublicKey = id\<rparr>,
      bt_secret = Some ''s'', bt_kid = ''k1'', bt_key = Some ''key'', bt_owner = owner_calm plain_crypto, bt_now = 0, bt_uuid = ''o1'',
      bt_relay_fails = False, bt_schema = (\<lambda>_. \<lparr>sqlite_master = [], info_of = (\<lambda>_. []), policies = [], query_fails = (\<lambda>_. False)\<rparr>),
      bt_storage_fails = False\<rparr>"

abbreviation new_deployment :: "string list deployment" where
  "new_deployment \<equiv> \<lparr>dp_db = \<lparr>app = [], table = NoTable\<rparr>, dp_oauth = client_example, dp_owners = no_owners\<rparr>"


end
