(* ===== verification/Lifecycle.thy ===== *)
theory Lifecycle
  imports Deployment Startup
begin

text \<open>
  The life of a deployment: \<^verbatim>\<open>run\<close> of \<^verbatim>\<open>cmd/maubase/main.go\<close> around the router. The process is started on
  what is on disk, assembles the services (\<^verbatim>\<open>NewServer\<close> of \<^verbatim>\<open>restapi\<close> and \<^verbatim>\<open>adminui\<close>, \<^verbatim>\<open>New\<close> of
  \<^verbatim>\<open>internal/server\<close>), serves requests while the janitor purges, and stops; then it is started again. The
  second half is the end of the process: the goroutine that waits for the signal, the listener and
  \<^verbatim>\<open>main\<close>'s return, step by step.
\<close>

section \<open>Assembling the services\<close>

text \<open>Throttles, broker and registry live in memory only; the rest is what the tables and files hold.\<close>

definition assemble :: "Config \<Rightarrow> Registry \<Rightarrow> schema \<Rightarrow> 'fs state \<Rightarrow> 'fs ui" where
  "assemble cfg reg sch c =
     (let limiter = New (LoginRateLimit cfg) (LoginRateWindow cfg)
      in \<lparr>core = c\<lparr>rest := (rest c)\<lparr>bus := Some (NewBroker (RedisURL cfg \<noteq> []))\<rparr>,
            loginLimiter := limiter, registerLimiter := limiter, ownerLoginLimiter := limiter\<rparr>,
          db_schema = sch,
          live_server = \<lparr>registry = reg, maxBodyBytes = nat (MaxRequestBodyBytes cfg), devMode = IsDevelopment cfg\<rparr>,
          uiLoginLimiter = limiter\<rparr>)"


section \<open>Starts, requests, ticks and stops\<close>

record ('fs, 'db) life =
  l_ui :: "'fs ui"
  l_db :: "'db mdb"
  l_up :: bool

datatype ('fs, 'ar, 'acc, 'db) life_event =
    Start "'db boot_env" Config
  | Request "('fs, 'ar, 'acc) hit"
  | Tick Auth_Service.env owner_env time
  | Stop

definition boot :: "'db boot_env \<Rightarrow> Config \<Rightarrow> ('fs, 'db) life \<Rightarrow> ('fs, 'db) life" where
  "boot B cfg l =
     (let c = core (l_ui l);
          (d, res) = run_until_listening B cfg \<lparr>dp_db = l_db l, dp_oauth = oau c, dp_owners = own c\<rparr>;
          c' = c\<lparr>oau := dp_oauth d, own := dp_owners d\<rparr>
      in case res of
           Inl _ \<Rightarrow> l\<lparr>l_ui := set_core c' (l_ui l), l_db := dp_db d\<rparr>
         | Inr reg \<Rightarrow> \<lparr>l_ui = assemble cfg reg (bt_schema B (dp_db d)) c', l_db = dp_db d,
                       l_up = (\<not> ticker_panics (SessionCleanupInterval cfg))\<rparr>)"

definition tick :: "Auth_Service.env \<Rightarrow> owner_env \<Rightarrow> time \<Rightarrow> 'fs ui \<Rightarrow> 'fs ui" where
  "tick E W now st =
     (case janitor_tick E W now (acct (core st), own (core st)) of (a, b) \<Rightarrow> set_core ((core st)\<lparr>acct := a, own := b\<rparr>) st)"

fun life_step :: "('fs, 'ar, 'acc, 'db) life_event \<Rightarrow> ('fs, 'db) life \<Rightarrow> ('fs, 'db) life" where
  "life_step (Start B cfg) l = (if l_up l then l else boot B cfg l)"
| "life_step (Request h) l = (if l_up l then l\<lparr>l_ui := hit_step h (l_ui l)\<rparr> else l)"
| "life_step (Tick E W now) l = (if l_up l then l\<lparr>l_ui := tick E W now (l_ui l)\<rparr> else l)"
| "life_step Stop l = l\<lparr>l_up := False\<rparr>"

fun life_ordinary :: "string set \<Rightarrow> ('fs, 'ar, 'acc, 'db) life_event \<Rightarrow> bool" where
  "life_ordinary N (Request h) \<longleftrightarrow> ordinary h \<and> new_ids h \<subseteq> N"
| "life_ordinary N _ \<longleftrightarrow> True"

lemma EnsureHMACSecret_grants: "grants (fst (EnsureHMACSecret bad secret st)) = grants st"
  by (auto simp: EnsureHMACSecret_def split: option.split)

lemma oauthNewServer_grants: "grants (fst (oauthNewServer bad lib secret kid key st)) = grants st"
proof -
  obtain st1 x where x: "EnsureHMACSecret bad secret st = (st1, x)" by fastforce
  have 1: "grants st1 = grants st" using EnsureHMACSecret_grants [of bad secret st] x by simp
  obtain st2 y where y: "EnsureKey bad lib kid key st1 = (st2, y)" by fastforce
  have "grants st2 = grants st1" using EnsureKey_grants [of bad lib kid key st1] y by simp
  with 1 show ?thesis by (cases x; cases y) (simp_all add: oauthNewServer_def x y)
qed

lemma bootstrapOwner_effect:
  "fst (bootstrapOwner W now i cfg st) = st \<or> (\<exists>e p. fst (bootstrapOwner W now i cfg st) = fst (Bootstrap W now i e p st))"
  by (auto simp: bootstrapOwner_def split: prod.split sum.split) (metis fst_conv)+

lemma boot_effect:
  assumes "run_until_listening B cfg st = (d, res)"
  shows "grants (dp_oauth d) = grants (dp_oauth st)"
    and "dp_owners d = dp_owners st \<or> (\<exists>now i e p. dp_owners d = fst (Bootstrap (bt_owner B) now i e p (dp_owners st)))"
proof -
  obtain w x where w: "oauthNewServer (bt_oauth B) (bt_lib B) (bt_secret B) (bt_kid B) (bt_key B) (dp_oauth st) = (w, x)" by fastforce
  have g: "grants w = grants (dp_oauth st)"
    using oauthNewServer_grants [of "bt_oauth B" "bt_lib B" "bt_secret B" "bt_kid B" "bt_key B" "dp_oauth st"] w by simp
  obtain ow y where o: "bootstrapOwner (bt_owner B) (bt_now B) (bt_uuid B) cfg (dp_owners st) = (ow, y)" by fastforce
  have b: "ow = dp_owners st \<or> (\<exists>now i e p. ow = fst (Bootstrap (bt_owner B) now i e p (dp_owners st)))"
    using bootstrapOwner_effect [of "bt_owner B" "bt_now B" "bt_uuid B" cfg "dp_owners st"] o by (metis fst_conv)
  have "(dp_oauth d = dp_oauth st \<or> dp_oauth d = w) \<and> (dp_owners d = dp_owners st \<or> dp_owners d = ow)"
    using assms unfolding run_until_listening_def w o
    by (auto simp: Let_def split: if_splits prod.splits option.splits sum.splits)
  with g b show "grants (dp_oauth d) = grants (dp_oauth st)"
    and "dp_owners d = dp_owners st \<or> (\<exists>now i e p. dp_owners d = fst (Bootstrap (bt_owner B) now i e p (dp_owners st)))" by auto
qed

context server_invariant
begin

lemma keeps_tick: "I (core st) \<Longrightarrow> I (core (tick E W now st))"
proof -
  assume i: "I (core st)"
  let ?a = "fst (PurgeExpiredSessions E now (acct (core st)))" and ?b = "fst (ownerPurgeExpired W now (own (core st)))"
  let ?c = "fst (PurgeExpiredResetTokens E now ?a)"
  have 1: "I ((core st)\<lparr>acct := ?a\<rparr>)" by (rule acct_step [OF i auth_step.intros(6) account_ids_old(4)])
  have 2: "I ((core st)\<lparr>acct := ?c\<rparr>)"
    using acct_step [OF 1, of E ?c] auth_step.intros(7) [of E ?a now] account_ids_same(5) [of E now ?a] by simp
  have "I ((core st)\<lparr>acct := ?c, own := ?b\<rparr>)"
    using own_step [OF 2, of W ?b] owner_step.purge [of W "own (core st)" now] by simp
  then show ?thesis by (simp add: tick_def janitor_tick_def set_core_def)
qed

lemma keeps_assemble: "I c \<Longrightarrow> I (core (assemble cfg reg sch c))"
  using rest_step login_limiter owner_limiter register_limiter by (simp add: assemble_def Let_def)

lemma keeps_boot: "I (core (l_ui l)) \<Longrightarrow> I (core (l_ui (boot B cfg l)))"
proof -
  assume i: "I (core (l_ui l))"
  let ?c = "core (l_ui l)"
  obtain d res where d: "run_until_listening B cfg \<lparr>dp_db = l_db l, dp_oauth = oau ?c, dp_owners = own ?c\<rparr> = (d, res)" by fastforce
  note e = boot_effect [OF d, simplified]
  have 1: "I (?c\<lparr>oau := dp_oauth d\<rparr>)" by (rule oau_old [OF i]) (simp add: grant_subjects_cong [OF e(1)])
  have "I (?c\<lparr>oau := dp_oauth d, own := dp_owners d\<rparr>)"
    using e(2)
  proof (elim disjE exE)
    assume "dp_owners d = own ?c"
    with 1 show ?thesis by simp
  next
    fix now i e p
    assume "dp_owners d = fst (Bootstrap (bt_owner B) now i e p (own ?c))"
    with own_step [OF 1, of "bt_owner B" "dp_owners d"] owner_step.boot [of "bt_owner B" "own ?c"] show ?thesis by simp
  qed
  then show ?thesis by (cases res) (simp_all add: boot_def d keeps_assemble set_core_def)
qed

lemma keeps_life: "\<forall>e \<in> set es. life_ordinary N e \<Longrightarrow> I (core (l_ui l)) \<Longrightarrow> I (core (l_ui (fold life_step es l)))"
proof (induction es arbitrary: l)
  case (Cons e es)
  have "I (core (l_ui (life_step e l)))" using Cons.prems by (cases e) (simp_all add: keeps_boot keeps_hit keeps_tick)
  with Cons show ?case by simp
qed simp

end

text \<open>
  C5. The whole life of a deployment keeps the server sound. Whatever is served, on the server's routes, the
  admin UI, the authorization server, the data API, the files and on websockets, whatever the janitor
  purges, and however often the process stops, fails to start or starts again, in whatever order and with
  whatever failures, as long as no request submits raw SQL: the identity planes stay in states their own
  operations reach, so the last owner is never lost and no two accounts share an address, file
  identifiers stay unique, and the audit trail only grows at its end.
\<close>

theorem life_keeps_server_sound:
  assumes "sound (core (l_ui l))" and "\<forall>e \<in> set es. life_ordinary UNIV e"
  shows "(let c = core (l_ui (fold life_step es l))
     in sound c \<and> auth_ok (acct c) \<and> owners_ok (own c) \<and> (\<exists>new. trail c = trail (core (l_ui l)) @ new))"
proof -
  have "sound (core (l_ui (fold life_step es l)))" by (rule reached.keeps_life [OF assms(2,1)])
  moreover have "extends (trail (core (l_ui l))) (core (l_ui (fold life_step es l)))"
    by (rule grows.keeps_life [OF assms(2)]) (simp add: extends_def)
  ultimately show ?thesis by (simp add: Let_def sound_def extends_def auth_reach_ok owner_reach_ok)
qed

definition idle_life :: "(dir, string list) life" where
  "idle_life = \<lparr>l_ui = demo_ui\<lparr>core := demo_state\<rparr>, l_db = \<lparr>app = [], table = NoTable\<rparr>, l_up = True\<rparr>"

theorem life_keeps_server_sound_witness:
  "sound (core (l_ui (fold life_step [Request (ToServer PostLogout demo_env blank_req), Request (ToPublic PostToken small_pub demo_env (pub_get ''x'')),
     Tick (Auth_Service.calm plain_crypto) (owner_calm plain_crypto) 9, Stop, Request (Frame 1 None)] idle_life)))"
proof -
  let ?es = "[Request (ToServer PostLogout demo_env blank_req), Request (ToPublic PostToken small_pub demo_env (pub_get ''x'')),
     Tick (Auth_Service.calm plain_crypto) (owner_calm plain_crypto) 9, Stop, Request (Frame 1 None)]"
  have a: "sound (core (l_ui idle_life))" using demo_sound by (simp add: idle_life_def)
  have b: "\<forall>e \<in> set ?es. life_ordinary UNIV e" using small_fosite_sessions by (simp add: small_pub_def)
  show ?thesis using life_keeps_server_sound [OF a b] unfolding Let_def by blast
qed

text \<open>
  C4. A deleted account stays out. Once the request of a signed-in user to delete the account has been
  answered with 204, and whatever is served, purged, stopped and started afterwards, short of raw SQL
  and of an identifier generator that repeats the identifier: no bearer token is ever accepted in that
  user's name again, on any route and for any scope, and no session belongs to that user.
\<close>

theorem deleted_account_stays_out:
  assumes "serve DeleteMe V r (core (l_ui l)) = (c, reply_with [ClearCookie] 204 BNone)"
    and "ValidateSession (v_auth V) (v_now V) (sessionTokenFromRequest r) (acct (core (l_ui l))) = Inr u"
    and "\<forall>e \<in> set es. life_ordinary (- {user_id u}) e"
    and "fosite_sessions (p_fosite P)"
  shows "(let st' = l_ui (fold life_step es (l\<lparr>l_ui := set_core c (l_ui l)\<rparr>))
     in (\<forall>scope q. bearer P scope q st' \<noteq> Some (user_id u)) \<and>
        (\<forall>E now tok v. ValidateSession E now tok (acct (core st')) = Inr v \<longrightarrow> user_id v \<noteq> user_id u))"
proof -
  have "handleDeleteAccount V \<lparr>cx_user = Some u, cx_owner = None\<rparr> r (core (l_ui l)) = (c, reply_with [ClearCookie] 204 BNone)"
    using assms(1,2) by (simp add: serve_def requireAuth_def Let_def split: if_splits)
  then have "locked_out (user_id u) c" by (rule deleted_locked_out) simp
  then have "locked_out (user_id u) (core (l_ui (fold life_step es (l\<lparr>l_ui := set_core c (l_ui l)\<rparr>))))"
    using assms(3) by (intro locked.keeps_life) (auto simp: set_core_def)
  then show ?thesis
    using bearer_subject [OF assms(4)] session_account by (fastforce simp: Let_def locked_out_def)
qed

definition leave_req :: http_req where
  "leave_req = blank_req\<lparr>hq_authorization := ''Bearer t''\<rparr>"

theorem deleted_account_stays_out_witness:
  "let l = idle_life\<lparr>l_ui := set_core (fst (serve DeleteMe demo_env leave_req (core leaver_ui))) leaver_ui\<rparr>;
       st' = l_ui (fold life_step [Request (ToServer PostLogin demo_env blank_req), Stop, Request (ToPublic PostToken small_pub demo_env (pub_get ''x''))] l)
   in bearer small_pub ''profile'' (pub_get ''s'') leaver_ui = Some ''u'' \<and> bearer small_pub ''profile'' (pub_get ''s'') st' \<noteq> Some ''u''"
proof -
  have tok: "sessionTokenFromRequest leave_req = ''t''" by code_simp
  have ses: "ValidateSession (v_auth demo_env) (v_now demo_env) (sessionTokenFromRequest leave_req) (acct (core leaver_ui)) = Inr user_u"
    by (simp add: tok ValidateSession_def demo_env_def leaver_ui_def session_for_def user_by_id_def plain_crypto_def user_u_def)
  have "bus_ok (rest (core leaver_ui))" "ids_unique (stor (core leaver_ui))"
    by (simp_all add: leaver_ui_def demo_state_def bus_ok_def no_files_def)
  then have "snd (handleDeleteAccount demo_env \<lparr>cx_user = Some user_u, cx_owner = None\<rparr> leave_req (core leaver_ui)) = reply_with [ClearCookie] 204 BNone"
    using partly_finishes [OF demo_untroubled partly_refl, of "core leaver_ui" "\<lparr>cx_user = Some user_u, cx_owner = None\<rparr>"] by simp
  moreover have "serve DeleteMe demo_env leave_req (core leaver_ui) =
      handleDeleteAccount demo_env \<lparr>cx_user = Some user_u, cx_owner = None\<rparr> leave_req (core leaver_ui)"
    using ses by (simp add: serve_def requireAuth_def tok)
  ultimately have del: "serve DeleteMe demo_env leave_req (core leaver_ui) =
      (fst (serve DeleteMe demo_env leave_req (core leaver_ui)), reply_with [ClearCookie] 204 BNone)" by (metis prod.collapse)
  have es: "\<forall>e \<in> set [Request (ToServer PostLogin demo_env blank_req), Stop, Request (ToPublic PostToken small_pub demo_env (pub_get ''x''))].
      life_ordinary (- {user_id user_u}) e"
    using small_fosite_sessions by (simp add: small_pub_def drawn_def demo_env_def user_u_def)
  have F: "fosite_sessions (p_fosite small_pub)" using small_fosite_sessions by (simp add: small_pub_def)
  have before: "bearer small_pub ''profile'' (pub_get ''s'') leaver_ui = Some ''u''"
    by (simp add: bearer_def small_pub_def small_fosite_def pub_get_def Authenticate_def leaver_ui_def consent_example_def)
  show ?thesis
    using deleted_account_stays_out [of demo_env leave_req "idle_life\<lparr>l_ui := leaver_ui\<rparr>", OF _ _ es F] del ses before by (simp add: Let_def user_u_def)
qed

section \<open>The end of the process\<close>

text \<open>
  While \<^verbatim>\<open>main\<close> is inside \<^verbatim>\<open>ListenAndServe\<close>, requests are accepted and answered by goroutines of their own. A
  second goroutine waits for the signal and then calls \<^verbatim>\<open>Shutdown\<close>, which closes the listener at once, makes
  \<^verbatim>\<open>ListenAndServe\<close> return \<^verbatim>\<open>ErrServerClosed\<close> at once, and itself returns when no request is in flight or after
  ten seconds. When \<^verbatim>\<open>main\<close> returns, the process is gone with every goroutine that is left.
\<close>

datatype main_pc = Listening | Returned "string option"

datatype waiter_pc = AwaitSignal | InShutdown | ShutdownReturned

record process =
  signalled :: bool
  main_at :: main_pc
  waiter_at :: waiter_pc
  janitor_on :: bool
  in_flight :: "nat list"
  answered :: "nat list"
  exited :: bool

datatype proc_action =
    Accept nat | AnswerRequest nat | Signal | CallShutdown | ShutdownReturns bool | ServerClosed | ListenFails string
  | JanitorReturns | MainReturns

text \<open>\<open>ShutdownReturns\<close> carries whether the ten seconds are over.\<close>

fun proc_act :: "proc_action \<Rightarrow> process \<Rightarrow> process option" where
  "proc_act (Accept r) p =
     (if \<not> exited p \<and> main_at p = Listening \<and> waiter_at p = AwaitSignal then Some (p\<lparr>in_flight := in_flight p @ [r]\<rparr>) else None)"
| "proc_act (AnswerRequest r) p =
     (if \<not> exited p \<and> r \<in> set (in_flight p) then Some (p\<lparr>in_flight := remove1 r (in_flight p), answered := answered p @ [r]\<rparr>) else None)"
| "proc_act Signal p = (if \<not> exited p \<and> \<not> signalled p then Some (p\<lparr>signalled := True\<rparr>) else None)"
| "proc_act CallShutdown p =
     (if \<not> exited p \<and> signalled p \<and> waiter_at p = AwaitSignal then Some (p\<lparr>waiter_at := InShutdown\<rparr>) else None)"
| "proc_act (ShutdownReturns late) p =
     (if \<not> exited p \<and> waiter_at p = InShutdown \<and> (in_flight p = [] \<or> late) then Some (p\<lparr>waiter_at := ShutdownReturned\<rparr>) else None)"
| "proc_act ServerClosed p =
     (if \<not> exited p \<and> main_at p = Listening \<and> waiter_at p \<noteq> AwaitSignal then Some (p\<lparr>main_at := Returned None\<rparr>) else None)"
| "proc_act (ListenFails e) p =
     (if \<not> exited p \<and> main_at p = Listening \<and> waiter_at p = AwaitSignal then Some (p\<lparr>main_at := Returned (Some e)\<rparr>) else None)"
| "proc_act JanitorReturns p = (if \<not> exited p \<and> signalled p \<and> janitor_on p then Some (p\<lparr>janitor_on := False\<rparr>) else None)"
| "proc_act MainReturns p = (if \<not> exited p \<and> main_at p \<noteq> Listening then Some (p\<lparr>exited := True\<rparr>) else None)"

inductive proc_step :: "process \<Rightarrow> process \<Rightarrow> bool" where
  "proc_act a p = Some p' \<Longrightarrow> proc_step p p'"

inductive_cases proc_stepE: "proc_step p p'"

text \<open>How much is left to do once \<^verbatim>\<open>Shutdown\<close> has been called.\<close>

definition to_do :: "process \<Rightarrow> nat" where
  "to_do p = length (in_flight p) + of_bool (\<not> signalled p) + of_bool (janitor_on p) + of_bool (\<not> exited p)
     + of_bool (main_at p = Listening) + of_bool (waiter_at p = InShutdown)"

lemma to_do_decreases:
  assumes "proc_act a p = Some p'" and "waiter_at p \<noteq> AwaitSignal"
  shows "to_do p' < to_do p \<and> waiter_at p' \<noteq> AwaitSignal"
proof (cases a)
  case (AnswerRequest r)
  with assms have "r \<in> set (in_flight p)" "p' = p\<lparr>in_flight := remove1 r (in_flight p), answered := answered p @ [r]\<rparr>"
    by (simp_all split: if_splits)
  moreover from this(1) have "length (remove1 r (in_flight p)) < length (in_flight p)"
    using length_pos_if_in_set [of r "in_flight p"] by (simp add: length_remove1)
  ultimately show ?thesis using assms(2) by (simp add: to_do_def)
qed (use assms in \<open>clarsimp simp: to_do_def split: if_split_asm; fail\<close>)+

lemma shutdown_progress:
  assumes "waiter_at p \<noteq> AwaitSignal" and "\<not> exited p"
  shows "\<exists>p'. proc_step p p'"
proof (cases "main_at p = Listening")
  case True
  with assms have "proc_act ServerClosed p = Some (p\<lparr>main_at := Returned None\<rparr>)" by simp
  then show ?thesis by (blast intro: proc_step.intros)
next
  case False
  with assms have "proc_act MainReturns p = Some (p\<lparr>exited := True\<rparr>)" by simp
  then show ?thesis by (blast intro: proc_step.intros)
qed

lemma shutdown_runs:
  assumes "(proc_step ^^ n) p p'" and "waiter_at p \<noteq> AwaitSignal"
  shows "n + to_do p' \<le> to_do p \<and> waiter_at p' \<noteq> AwaitSignal"
  using assms
proof (induction n arbitrary: p')
  case (Suc n)
  then obtain q where q: "(proc_step ^^ n) p q" "proc_step q p'" by auto
  with Suc.IH Suc.prems(2) have "n + to_do q \<le> to_do p" "waiter_at q \<noteq> AwaitSignal" by blast+
  with q(2) show ?case by (auto elim!: proc_stepE dest!: to_do_decreases)
qed simp


definition busy :: process where
  "busy = \<lparr>signalled = True, main_at = Listening, waiter_at = InShutdown, janitor_on = True, in_flight = [7], answered = [], exited = False\<rparr>"


text \<open>
  C40. Requests are not waited for. From every state in which the server listens, with whatever requests in
  flight, the signal can lead to an exit without error on which not one of those requests has been answered: \<^verbatim>\<open>main\<close>
  returns as soon as the listener is closed, while the goroutine is still inside the \<^verbatim>\<open>Shutdown\<close> that
  was to give the requests ten seconds.
\<close>

theorem shutdown_abandons_requests:
  assumes "main_at p = Listening" and "waiter_at p = AwaitSignal" and "\<not> exited p"
  shows "\<exists>p'. proc_step\<^sup>*\<^sup>* p p' \<and> exited p' \<and> main_at p' = Returned None \<and> waiter_at p' = InShutdown
    \<and> in_flight p' = in_flight p \<and> answered p' = answered p"
proof -
  let ?p1 = "p\<lparr>signalled := True\<rparr>"
  let ?p2 = "?p1\<lparr>waiter_at := InShutdown\<rparr>"
  let ?p3 = "?p2\<lparr>main_at := Returned None\<rparr>"
  have "proc_step\<^sup>*\<^sup>* p ?p1"
  proof (cases "signalled p")
    case True
    then have "?p1 = p" by simp
    then show ?thesis by simp
  next
    case False
    with assms(3) have "proc_act Signal p = Some ?p1" by simp
    then show ?thesis by (blast intro: proc_step.intros)
  qed
  moreover have "proc_step ?p1 ?p2" by (rule proc_step.intros [of CallShutdown]) (simp add: assms)
  moreover have "proc_step ?p2 ?p3" by (rule proc_step.intros [of ServerClosed]) (simp add: assms)
  moreover have "proc_step ?p3 (?p3\<lparr>exited := True\<rparr>)" by (rule proc_step.intros [of MainReturns]) (simp add: assms)
  ultimately have "proc_step\<^sup>*\<^sup>* p (?p3\<lparr>exited := True\<rparr>)" by (meson rtranclp.rtrancl_into_rtrancl)
  then show ?thesis by (intro exI [of _ "?p3\<lparr>exited := True\<rparr>"]) simp
qed

definition listening :: process where
  "listening = \<lparr>signalled = False, main_at = Listening, waiter_at = AwaitSignal, janitor_on = True, in_flight = [7], answered = [], exited = False\<rparr>"

theorem shutdown_abandons_requests_witness:
  "\<exists>p'. proc_step\<^sup>*\<^sup>* listening p' \<and> exited p' \<and> in_flight p' = [7] \<and> answered p' = []"
  using shutdown_abandons_requests [of listening] by (auto simp: listening_def)

end
