(* ===== verification/Migrate_CLI.thy ===== *)
theory Migrate_CLI
  imports Migrations "HOL-Library.AList"
begin

text \<open>
  The command line of the migrations: \<^verbatim>\<open>cmd/maubase/migrate.go\<close>. A command returns what it printed
  and its error; the database and the directory it works on are passed in and out. The environment's
  defaults for the two paths are arguments, and \<open>open_db\<close> stands for the database a path opens.
\<close>

section \<open>Arguments\<close>

datatype cli_error =
    Usage string | UnknownSubcommand string | FlagNotDefined string | FlagNeedsArgument string | BadFlag string | FlagHelp
  | BadCount string | BadName string | AlreadyExists string | MkdirFailed | ScanFailed | WriteFailed | OpenFailed
  | MigError mig_error | DriftFound nat

definition strip_dashes :: "string \<Rightarrow> string" where
  "strip_dashes a = TrimPrefix (TrimPrefix a ''--'') ''-''"

definition cut_equals :: "string \<Rightarrow> (string \<times> string) option" where
  "cut_equals s = map_option (\<lambda>i. (take i s, drop (i + 1) s)) (Index s ''='')"

fun extract_loop :: "string list \<Rightarrow> string list \<Rightarrow> (string \<times> string) list \<Rightarrow> string list \<Rightarrow>
    cli_error + (string \<times> string) list \<times> string list" where
  "extract_loop known [] vals rest = Inr (vals, rest)"
| "extract_loop known (a # as) vals rest =
     (let trimmed = strip_dashes a
      in if trimmed = a \<or> a = ''-'' then extract_loop known as vals (rest @ [a])
         else (case cut_equals trimmed of
                 Some (name, v) \<Rightarrow>
                   if name \<notin> set known then Inl (FlagNotDefined a)
                   else extract_loop known as (AList.update name v vals) rest
               | None \<Rightarrow>
                   if trimmed \<notin> set known then Inl (FlagNotDefined a)
                   else (case as of
                           [] \<Rightarrow> Inl (FlagNeedsArgument a)
                         | v # as' \<Rightarrow> extract_loop known as' (AList.update trimmed v vals) rest)))"

definition extractFlags :: "string list \<Rightarrow> string list \<Rightarrow> cli_error + (string \<times> string) list \<times> string list" where
  "extractFlags args names = extract_loop names args [] []"

definition flag_or :: "(string \<times> string) list \<Rightarrow> string \<Rightarrow> string \<Rightarrow> string" where
  "flag_or vals name dflt = (case map_of vals name of None \<Rightarrow> dflt | Some v \<Rightarrow> v)"

definition parseOptionalCount :: "string \<times> string \<Rightarrow> string \<Rightarrow> string list \<Rightarrow> cli_error + int \<times> string \<times> string" where
  "parseOptionalCount dflt sub args =
     (case extractFlags args [''dir'', ''db''] of
        Inl e \<Rightarrow> Inl e
      | Inr (vals, rest) \<Rightarrow>
          (case (case rest of
                   [] \<Rightarrow> Inr 1
                 | [s] \<Rightarrow> (case Atoi s of None \<Rightarrow> Inl (BadCount s) | Some n \<Rightarrow> if n \<le> 0 then Inl (BadCount s) else Inr n)
                 | _ \<Rightarrow> Inl (Usage sub)) of
             Inl e \<Rightarrow> Inl e
           | Inr n \<Rightarrow> Inr (n, flag_or vals ''dir'' (fst dflt), flag_or vals ''db'' (snd dflt))))"

text \<open>
  The parser of Go's \<^verbatim>\<open>flag\<close> package for string flags: it stops at the first argument that is no flag
  and leaves the rest alone.
\<close>

fun flag_parse :: "string list \<Rightarrow> string list \<Rightarrow> (string \<times> string) list \<Rightarrow> cli_error + (string \<times> string) list" where
  "flag_parse known [] vals = Inr vals"
| "flag_parse known (a # as) vals =
     (if length a < 2 \<or> \<not> HasPrefix a ''-'' \<or> a = ''--'' then Inr vals
      else (let name = (if HasPrefix a ''--'' then drop 2 a else drop 1 a)
            in if HasPrefix name ''-'' \<or> HasPrefix name ''='' then Inl (BadFlag a)
               else (case cut_equals name of
                       Some (n, v) \<Rightarrow>
                         if n \<in> set known then flag_parse known as (AList.update n v vals)
                         else if n = ''help'' \<or> n = ''h'' then Inl FlagHelp else Inl (FlagNotDefined n)
                     | None \<Rightarrow>
                         if name \<in> set known
                         then (case as of [] \<Rightarrow> Inl (FlagNeedsArgument name)
                               | v # as' \<Rightarrow> flag_parse known as' (AList.update name v vals))
                         else if name = ''help'' \<or> name = ''h'' then Inl FlagHelp else Inl (FlagNotDefined name))))"


section \<open>New files\<close>

text \<open>Runs of bytes outside \<^verbatim>\<open>[a-z0-9]\<close> become one underscore.\<close>

fun collapse :: "bool \<Rightarrow> string \<Rightarrow> string" where
  "collapse inrun [] = []"
| "collapse inrun (c # s) =
     (if is_lower c \<or> is_digit c then c # collapse False s
      else if inrun then collapse True s else CHR ''_'' # collapse True s)"

definition slug_of :: "string \<Rightarrow> string" where
  "slug_of name = Trim_by (\<lambda>c. c = CHR ''_'') (collapse False (ToLower (TrimSpace name)))"

definition wrap64 :: "int \<Rightarrow> int" where
  "wrap64 x = (x + 2 ^ 63) mod 2 ^ 64 - 2 ^ 63"

fun number_loop :: "(string \<times> string option) list \<Rightarrow> int \<times> nat \<Rightarrow> int \<times> nat" where
  "number_loop [] (number, width) = (number, width)"
| "number_loop ((n, c) # es) (number, width) =
     (if c = None then number_loop es (number, width)
      else (case version_number n of
              None \<Rightarrow> number_loop es (number, width)
            | Some k \<Rightarrow>
                if k \<ge> number then number_loop es (k, length (takeWhile is_digit n)) else number_loop es (number, width)))"

definition nextMigrationNumber :: "mig_dir \<Rightarrow> (int \<times> nat) option" where
  "nextMigrationNumber d =
     (if md_read_error d then None
      else (let (number, width) = number_loop (sort_key fst (md_entries d)) (0, 4) in Some (wrap64 (number + 1), width)))"

text \<open>\<^verbatim>\<open>%0*d\<close>: the sign, zeros up to the width, the digits.\<close>

definition pad_number :: "nat \<Rightarrow> int \<Rightarrow> string" where
  "pad_number width n =
     (if n < 0 then (let ds = Itoa_nat (nat (- n)) in CHR ''-'' # replicate (width - Suc (length ds)) (CHR ''0'') @ ds)
      else (let ds = Itoa_nat (nat n) in replicate (width - length ds) (CHR ''0'') @ ds))"

abbreviation quote :: string where "quote \<equiv> [CHR 0x22]"
abbreviation em_dash :: string where "em_dash \<equiv> [CHR 0xE2, CHR 0x80, CHR 0x94]"

definition template_lines :: "string list" where
  "template_lines =
     [''-- Created by '' @ quote @ ''maubase migrate new'' @ quote @ ''. Add your schema changes under'',
      ''-- '' @ quote @ ''+migrate Up'' @ quote @ '' below '' @ em_dash @ '' it runs once, in a transaction, the next time'',
      ''-- '' @ quote @ ''maubase migrate up'' @ quote @ '' runs (or the server boots). The '' @ quote @ ''+migrate Down'' @ quote,
      ''-- section is optional but lets '' @ quote @ ''maubase migrate down'' @ quote @ '' undo this'',
      ''-- migration later; a migration with no Down section simply can'' @ [CHR 0x27] @ ''t be'',
      ''-- reverted.'', [], migrateUpMarker, [], [], migrateDownMarker, [], []]"

definition new_content :: "string \<Rightarrow> string" where
  "new_content name = ''-- '' @ name @ [newline] @ Join template_lines [newline]"

text \<open>A write may fail before the file exists, or after some bytes of it.\<close>

datatype write_result = Written | NotCreated | Partial nat

record fs_faults =
  ff_mkdir :: bool
  ff_write :: write_result

definition newMigrationFile :: "fs_faults \<Rightarrow> mig_dir \<Rightarrow> string \<Rightarrow> mig_dir \<times> (cli_error + string)" where
  "newMigrationFile F d name =
     (let slug = slug_of name
      in if slug = [] then (d, Inl (BadName name))
         else if ff_mkdir F then (d, Inl MkdirFailed)
         else (let d1 = d\<lparr>md_missing := False\<rparr>
               in case nextMigrationNumber d1 of
                    None \<Rightarrow> (d1, Inl ScanFailed)
                  | Some (number, width) \<Rightarrow>
                      (let filename = pad_number width number @ ''_'' @ slug @ ''.sql''
                       in if filename \<in> fst ` set (md_entries d1) then (d1, Inl (AlreadyExists filename))
                          else (case ff_write F of
                                  NotCreated \<Rightarrow> (d1, Inl WriteFailed)
                                | Partial k \<Rightarrow>
                                    (d1\<lparr>md_entries := md_entries d1 @ [(filename, Some (take k (new_content name)))]\<rparr>, Inl WriteFailed)
                                | Written \<Rightarrow>
                                    (d1\<lparr>md_entries := md_entries d1 @ [(filename, Some (new_content name))]\<rparr>, Inr filename)))))"

section \<open>The subcommands\<close>

record cli_out =
  o_out :: "string list"
  o_err :: "string list"
  o_error :: "cli_error option"

abbreviation printed :: "string list \<Rightarrow> cli_out" where
  "printed ls \<equiv> \<lparr>o_out = ls, o_err = [], o_error = None\<rparr>"

abbreviation failed :: "cli_error \<Rightarrow> cli_out" where
  "failed e \<equiv> \<lparr>o_out = [], o_err = [], o_error = Some e\<rparr>"

text \<open>What the commands report of a list of files they touched.\<close>

definition report :: "string \<Rightarrow> string \<Rightarrow> string list \<times> mig_error option \<Rightarrow> cli_out" where
  "report none verb res =
     (case res of
        (_, Some e) \<Rightarrow> failed (MigError e)
      | (names, None) \<Rightarrow> printed (if names = [] then [none] else map (\<lambda>n. verb @ '' '' @ n) names))"

definition migrateUp :: "'db mig_env \<Rightarrow> mig_dir \<Rightarrow> 'db mdb \<Rightarrow> 'db mdb \<times> cli_out" where
  "migrateUp E d st =
     (case VerifyChecksums E d st of
        (st1, Inl e) \<Rightarrow> (st1, failed (MigError e))
      | (st1, Inr mismatches) \<Rightarrow>
          (let warning = (if mismatches = [] then []
                          else [''warning: these already-applied migrations have been modified since they ran:'']
                               @ map (\<lambda>n. ''  '' @ n) mismatches
                               @ [''if that was intentional, '' @ quote @ ''maubase migrate redo'' @ quote
                                  @ '' reapplies a migration with its current content'']);
               (st2, res) = MigrateDirApplied E d st1
           in (st2, (report ''no pending migrations'' ''applied'' res)\<lparr>o_err := warning\<rparr>)))"

definition status_line :: "(time \<Rightarrow> string) \<Rightarrow> MigrationStatus \<Rightarrow> string" where
  "status_line fmt s =
     (if s_applied s \<and> s_mismatch s
      then ''applied  '' @ s_name s @ ''  (applied '' @ fmt (s_applied_at s) @ '', MODIFIED SINCE APPLIED '' @ em_dash
           @ '' file content no longer matches what was recorded)''
      else if s_applied s \<and> s_has_down s then ''applied  '' @ s_name s @ ''  (applied '' @ fmt (s_applied_at s) @ '')''
      else if s_applied s then ''applied  '' @ s_name s @ ''  (applied '' @ fmt (s_applied_at s) @ '', no down '' @ em_dash
           @ '' can'' @ [CHR 0x27] @ ''t be reverted)''
      else ''pending  '' @ s_name s)"

definition migrateStatus :: "(time \<Rightarrow> string) \<Rightarrow> 'db mig_env \<Rightarrow> string \<Rightarrow> mig_dir \<Rightarrow> 'db mdb \<Rightarrow> 'db mdb \<times> cli_out" where
  "migrateStatus fmt E dir d st =
     (case Status E d st of
        (st1, Inl e) \<Rightarrow> (st1, failed (MigError e))
      | (st1, Inr ss) \<Rightarrow>
          (st1, printed (if ss = [] then [''no migrations found in '' @ dir] else map (status_line fmt) ss)))"

definition migrateDown :: "'db mig_env \<Rightarrow> mig_dir \<Rightarrow> int \<Rightarrow> 'db mdb \<Rightarrow> 'db mdb \<times> cli_out" where
  "migrateDown E d n st = (let (st', res) = MigrateDirDown E d n st in (st', report ''nothing to revert'' ''reverted'' res))"

definition migrateRedo :: "'db mig_env \<Rightarrow> mig_dir \<Rightarrow> int \<Rightarrow> 'db mdb \<Rightarrow> 'db mdb \<times> cli_out" where
  "migrateRedo E d n st = (let (st', res) = MigrateDirRedo E d n st in (st', report ''nothing to redo'' ''redone'' res))"

definition migrateTo :: "'db mig_env \<Rightarrow> mig_dir \<Rightarrow> string \<Rightarrow> 'db mdb \<Rightarrow> 'db mdb \<times> cli_out" where
  "migrateTo E d target st =
     (let (st', direction, res) = MigrateDirTo E d target st
      in (st', report ''already at that version'' (if direction = Inr Down then ''reverted'' else ''applied'') res))"

definition drift_line :: "DiffResult \<Rightarrow> string" where
  "drift_line r =
     (case df_kind r of
        Unexplained \<Rightarrow> ''unexplained  '' @ df_table r @ ''  (exists in the database, not accounted for by any applied migration)''
      | Missing \<Rightarrow> ''missing      '' @ df_table r @ ''  (an applied migration should have created this table, but it doesn'' @ [CHR 0x27] @ ''t exist)''
      | Altered \<Rightarrow> ''altered      '' @ df_table r @ ''  (live definition differs from what its migration(s) produced)'')"

definition migrateDiff :: "(mig_dir \<Rightarrow> 'db mdb \<Rightarrow> 'db mdb \<times> (mig_error + DiffResult list)) \<Rightarrow> mig_dir \<Rightarrow> 'db mdb \<Rightarrow> 'db mdb \<times> cli_out" where
  "migrateDiff diff d st =
     (case diff d st of
        (st1, Inl e) \<Rightarrow> (st1, failed (MigError e))
      | (st1, Inr []) \<Rightarrow> (st1, printed [''no drift: every live table is accounted for by an applied migration''])
      | (st1, Inr rs) \<Rightarrow> (st1, \<lparr>o_out = map drift_line rs, o_err = [], o_error = Some (DriftFound (length rs))\<rparr>))"

section \<open>Dispatch\<close>

record 'db cli_world =
  w_dbs :: "string \<Rightarrow> 'db mdb"
  w_dirs :: "string \<Rightarrow> mig_dir"

record 'db cli_env =
  ce_mig :: "'db mig_env"
  ce_fmt :: "time \<Rightarrow> string"
  ce_diff :: "mig_dir \<Rightarrow> 'db mdb \<Rightarrow> 'db mdb \<times> (mig_error + DiffResult list)"
  ce_open_fails :: "string \<Rightarrow> bool"
  ce_fs :: fs_faults
  ce_dir :: string
  ce_db :: string

definition with_db :: "'db cli_env \<Rightarrow> string \<Rightarrow> ('db mdb \<Rightarrow> 'db mdb \<times> cli_out) \<Rightarrow> 'db cli_world \<Rightarrow> 'db cli_world \<times> cli_out" where
  "with_db C path f w =
     (if ce_open_fails C path then (w, failed OpenFailed)
      else (let (st, out) = f (w_dbs w path) in (w\<lparr>w_dbs := (w_dbs w)(path := st)\<rparr>, out)))"

definition runMigrateUpStatusOrDiff :: "'db cli_env \<Rightarrow> string \<Rightarrow> string list \<Rightarrow> 'db cli_world \<Rightarrow> 'db cli_world \<times> cli_out" where
  "runMigrateUpStatusOrDiff C sub args w =
     (case flag_parse [''db'', ''dir''] args [] of
        Inl e \<Rightarrow> (w, failed e)
      | Inr vals \<Rightarrow>
          (let dbPath = flag_or vals ''db'' (ce_db C); dir = flag_or vals ''dir'' (ce_dir C); d = w_dirs w dir
           in with_db C dbPath
                (if sub = ''up'' then migrateUp (ce_mig C) d
                 else if sub = ''status'' then migrateStatus (ce_fmt C) (ce_mig C) dir d
                 else if sub = ''diff'' then migrateDiff (ce_diff C) d
                 else (\<lambda>st. (st, failed (UnknownSubcommand sub)))) w))"

definition runMigrateNew :: "'db cli_env \<Rightarrow> string list \<Rightarrow> 'db cli_world \<Rightarrow> 'db cli_world \<times> cli_out" where
  "runMigrateNew C args w =
     (case extractFlags args [''dir''] of
        Inl e \<Rightarrow> (w, failed e)
      | Inr (vals, rest) \<Rightarrow>
          (let dir = flag_or vals ''dir'' (ce_dir C); name = Join rest '' ''
           in if TrimSpace name = [] then (w, failed (Usage ''new''))
              else (case newMigrationFile (ce_fs C) (w_dirs w dir) name of
                      (d, Inl e) \<Rightarrow> (w\<lparr>w_dirs := (w_dirs w)(dir := d)\<rparr>, failed e)
                    | (d, Inr file) \<Rightarrow> (w\<lparr>w_dirs := (w_dirs w)(dir := d)\<rparr>, printed [''created '' @ dir @ ''/'' @ file]))))"

definition runMigrateDownOrRedo :: "'db cli_env \<Rightarrow> string \<Rightarrow> string list \<Rightarrow> 'db cli_world \<Rightarrow> 'db cli_world \<times> cli_out" where
  "runMigrateDownOrRedo C sub args w =
     (case parseOptionalCount (ce_dir C, ce_db C) sub args of
        Inl e \<Rightarrow> (w, failed e)
      | Inr (n, dir, dbPath) \<Rightarrow>
          with_db C dbPath
            (if sub = ''down'' then migrateDown (ce_mig C) (w_dirs w dir) n
             else if sub = ''redo'' then migrateRedo (ce_mig C) (w_dirs w dir) n
             else (\<lambda>st. (st, failed (UnknownSubcommand sub)))) w)"

definition runMigrateTo :: "'db cli_env \<Rightarrow> string list \<Rightarrow> 'db cli_world \<Rightarrow> 'db cli_world \<times> cli_out" where
  "runMigrateTo C args w =
     (case extractFlags args [''dir'', ''db''] of
        Inl e \<Rightarrow> (w, failed e)
      | Inr (vals, rest) \<Rightarrow>
          (case rest of
             [target] \<Rightarrow>
               with_db C (flag_or vals ''db'' (ce_db C)) (migrateTo (ce_mig C) (w_dirs w (flag_or vals ''dir'' (ce_dir C))) target) w
           | _ \<Rightarrow> (w, failed (Usage ''to''))))"

definition runMigrate :: "'db cli_env \<Rightarrow> string list \<Rightarrow> 'db cli_world \<Rightarrow> 'db cli_world \<times> cli_out" where
  "runMigrate C args w =
     (case args of
        [] \<Rightarrow> (w, failed (Usage ''migrate''))
      | sub # rest \<Rightarrow>
          if sub = ''new'' then runMigrateNew C rest w
          else if sub = ''down'' \<or> sub = ''redo'' then runMigrateDownOrRedo C sub rest w
          else if sub = ''to'' then runMigrateTo C rest w
          else if sub = ''up'' \<or> sub = ''status'' \<or> sub = ''diff'' then runMigrateUpStatusOrDiff C sub rest w
          else (w, failed (UnknownSubcommand sub)))"


section \<open>Flags anywhere among the arguments\<close>

text \<open>A token is positional when it has no leading dash, or is the dash alone.\<close>

definition positional :: "string \<Rightarrow> bool" where
  "positional a \<longleftrightarrow> \<not> HasPrefix a ''-'' \<or> a = ''-''"

lemma strip_dashes_same: "strip_dashes a = a \<longleftrightarrow> \<not> HasPrefix a ''-''"
proof (cases a)
  case (Cons c s)
  show ?thesis
  proof (cases "c = CHR ''-''")
    case True
    have "length (strip_dashes a) < length a"
      using Cons True by (cases s) (auto simp: strip_dashes_def TrimPrefix_def)
    then have "strip_dashes a \<noteq> a" by auto
    with Cons True show ?thesis by simp
  next
    case False
    with Cons show ?thesis by (simp add: strip_dashes_def TrimPrefix_def)
  qed
qed (simp add: strip_dashes_def TrimPrefix_def)

lemma extract_positional:
  "\<forall>a \<in> set as. positional a \<Longrightarrow> extract_loop known (as @ bs) vals rest = extract_loop known bs vals (rest @ as)"
  by (induction as arbitrary: rest) (auto simp: positional_def strip_dashes_same Let_def)

lemma extract_flag:
  assumes "name \<in> set known" and "\<not> Contains name ''=''" and "name \<noteq> []" and "\<not> HasPrefix name ''-''"
  shows "extract_loop known ((''--'' @ name) # v # as) vals rest = extract_loop known as (AList.update name v vals) rest"
    and "extract_loop known ((''--'' @ name @ ''='' @ v) # as) vals rest = extract_loop known as (AList.update name v vals) rest"
proof -
  have no: "Index name ''='' = None" using assms(2) by (simp add: Contains_def)
  have idx: "Index (n @ ''='' @ w) ''='' = Some (length n)" if "Index n ''='' = None" for n w
    using that by (induction n) (auto split: if_splits)
  have s1: "strip_dashes (''--'' @ name) = name" "strip_dashes (''--'' @ name @ w) = name @ w" for w
    using assms(3,4) by (cases name; simp add: strip_dashes_def TrimPrefix_def)+
  show "extract_loop known ((''--'' @ name) # v # as) vals rest = extract_loop known as (AList.update name v vals) rest"
    using assms(1) no by (simp only: extract_loop.simps Let_def s1 cut_equals_def) simp
  show "extract_loop known ((''--'' @ name @ ''='' @ v) # as) vals rest = extract_loop known as (AList.update name v vals) rest"
    using assms(1) idx [OF no, of v] by (simp only: extract_loop.simps Let_def s1 cut_equals_def) simp
qed

section \<open>Numbers in file names\<close>

lemma digit_less: "is_digit c \<Longrightarrow> is_digit d \<Longrightarrow> c < d \<longleftrightarrow> digit_val c < digit_val d"
  by (auto simp: is_digit_of_char digit_val_def less_char_def)

lemma digits_val_bounds: "digits_val a ds = Some m \<Longrightarrow> a * 10 ^ length ds \<le> m \<and> m < (a + 1) * 10 ^ length ds"
proof (induction a ds rule: digits_val.induct)
  case (2 acc c s)
  then have d: "is_digit c" "digits_val (10 * acc + digit_val c) s = Some m" by (auto split: if_splits)
  then have b: "(10 * acc + digit_val c) * 10 ^ length s \<le> m" "m < (10 * acc + digit_val c + 1) * 10 ^ length s"
    using 2 by auto
  have v: "digit_val c < 10" using d(1) by (auto simp: is_digit_of_char digit_val_def)
  have "acc * 10 ^ length (c # s) \<le> (10 * acc + digit_val c) * 10 ^ length s" by (simp add: algebra_simps)
  with b(1) have "acc * 10 ^ length (c # s) \<le> m" by (rule order_trans [rotated])
  moreover have "(10 * acc + digit_val c + 1) * 10 ^ length s \<le> (10 * acc + 10) * 10 ^ length s"
    using v by (intro mult_right_mono) auto
  with b(2) have "m < (10 * acc + 10) * 10 ^ length s" by (rule order_less_le_trans)
  then have "m < (acc + 1) * 10 ^ length (c # s)" by (simp add: algebra_simps)
  ultimately show ?case by simp
qed simp

text \<open>Numbers of the same width compare like the strings that start with them.\<close>

lemma same_width_less:
  assumes "length ds = length es" and "digits_val a ds = Some m" and "digits_val a es = Some n" and "m < n"
  shows "ds @ x < es @ (y :: string)"
  using assms
proof (induction ds es arbitrary: a rule: list_induct2)
  case (Cons c ds d es)
  have c: "is_digit c" "digits_val (10 * a + digit_val c) ds = Some m" and d: "is_digit d" "digits_val (10 * a + digit_val d) es = Some n"
    using Cons.prems by (auto split: if_splits)
  show ?case
  proof (cases "digit_val c" "digit_val d" rule: linorder_cases)
    case less
    then show ?thesis using digit_less [OF c(1) d(1)] by simp
  next
    case equal
    then have "c = d" using digit_less [OF c(1) d(1)] digit_less [OF d(1) c(1)] by auto
    with Cons.IH [OF c(2)] d(2) Cons.prems(3) show ?thesis by simp
  next
    case greater
    have "n < (10 * a + digit_val d + 1) * 10 ^ length es" using digits_val_bounds [OF d(2)] by simp
    also have "\<dots> \<le> (10 * a + digit_val c) * 10 ^ length ds"
      using greater Cons.hyps by (intro mult_mono) auto
    also have "\<dots> \<le> m" using digits_val_bounds [OF c(2)] by simp
    finally show ?thesis using Cons.prems(3) by simp
  qed
qed simp

lemma Itoa_nat_length: "n < 10 ^ w \<Longrightarrow> 0 < w \<Longrightarrow> length (Itoa_nat n) \<le> w"
proof (induction n arbitrary: w rule: Itoa_nat.induct)
  case (1 n)
  show ?case
  proof (cases "n < 10")
    case True
    then show ?thesis using 1 by (subst Itoa_nat.simps) simp
  next
    case False
    with 1 obtain v where v: "w = Suc v" "0 < v" by (cases w; cases "w - 1") auto
    with 1 have "n div 10 < 10 ^ v" by (simp add: less_mult_imp_div_less mult.commute)
    with 1 False v have "length (Itoa_nat (n div 10)) \<le> v" by blast
    with False v show ?thesis by (subst Itoa_nat.simps) simp
  qed
qed

lemma pad_number_shape:
  assumes "n < 10 ^ w" and "0 < w"
  shows "length (pad_number w (int n)) = w" "digits_val 0 (pad_number w (int n)) = Some n" "\<forall>c \<in> set (pad_number w (int n)). is_digit c"
proof -
  have p: "pad_number w (int n) = replicate (w - length (Itoa_nat n)) (CHR ''0'') @ Itoa_nat n"
    by (simp add: pad_number_def Let_def)
  show "length (pad_number w (int n)) = w" unfolding p using Itoa_nat_length [OF assms] by simp
  show "digits_val 0 (pad_number w (int n)) = Some n" unfolding p by (simp add: digits_val_Itoa_nat)
  show "\<forall>c \<in> set (pad_number w (int n)). is_digit c"
    unfolding p using Itoa_nat_digits [of n] by (auto simp: is_digit_of_char)
qed

text \<open>A file name that follows the convention at a given width, with its number.\<close>

definition numbered :: "nat \<Rightarrow> nat \<Rightarrow> string \<Rightarrow> bool" where
  "numbered w k name \<longleftrightarrow> (\<exists>ds s. name = ds @ CHR ''_'' # s \<and> length ds = w \<and> 0 < w \<and> digits_val 0 ds = Some k \<and> k < 2 ^ 63)"

lemma digits_val_digits: "digits_val a ds = Some k \<Longrightarrow> \<forall>c \<in> set ds. is_digit c"
  by (induction a ds rule: digits_val.induct) (auto split: if_splits)

lemma Atoi_digits:
  assumes "digits_val 0 ds = Some k" and "ds \<noteq> []" and "k < 2 ^ 63"
  shows "Atoi ds = Some (int k)"
proof -
  obtain c t where c: "ds = c # t" using assms(2) by (cases ds) auto
  then have "is_digit c" using digits_val_digits [OF assms(1)] by simp
  then have "c \<noteq> CHR ''-''" "c \<noteq> CHR ''+''" by (auto simp: is_digit_of_char)
  then show ?thesis using assms c by (simp add: Atoi_def parse_nat_def)
qed

lemma numbered_parts:
  assumes "numbered w k name"
  shows "version_number name = Some (int k)" "length (takeWhile is_digit name) = w"
proof -
  obtain ds s where n: "name = ds @ CHR ''_'' # s" "length ds = w" "0 < w" "digits_val 0 ds = Some k" "k < 2 ^ 63"
    using assms by (auto simp: numbered_def)
  have "\<not> is_digit (CHR ''_'')" by (simp add: is_digit_of_char)
  then have "takeWhile is_digit name = ds" "dropWhile is_digit name = CHR ''_'' # s"
    using digits_val_digits [OF n(4)] by (auto simp: n(1) takeWhile_append dropWhile_append)
  with n Atoi_digits [OF n(4) _ n(5)] show "version_number name = Some (int k)" "length (takeWhile is_digit name) = w"
    by (auto simp: version_number_def)
qed

lemma number_loop_same_width:
  assumes "\<forall>(n, c) \<in> set es. c \<noteq> None \<and> (\<exists>k. numbered w k n)"
  shows "\<exists>M. number_loop es (int N, w) = (int M, w) \<and> N \<le> M \<and> (\<forall>(n, c) \<in> set es. \<exists>k \<le> M. numbered w k n)
    \<and> (M = N \<or> (\<exists>(n, c) \<in> set es. numbered w M n))"
  using assms
proof (induction es arbitrary: N)
  case (Cons e es)
  obtain n c where e: "e = (n, c)" by (cases e)
  then obtain k where k: "c \<noteq> None" "numbered w k n" using Cons.prems by auto
  note v = numbered_parts [OF k(2)]
  have rest: "\<forall>(n, c) \<in> set es. c \<noteq> None \<and> (\<exists>k. numbered w k n)" using Cons.prems by auto
  show ?case
  proof (cases "N \<le> k")
    case True
    obtain M where M: "number_loop es (int k, w) = (int M, w)" "k \<le> M" "\<forall>(n, c) \<in> set es. \<exists>k \<le> M. numbered w k n"
      "M = k \<or> (\<exists>(n, c) \<in> set es. numbered w M n)" using Cons.IH [OF rest] by blast
    with True k e v show ?thesis by (intro exI [of _ M]) auto
  next
    case False
    obtain M where M: "number_loop es (int N, w) = (int M, w)" "N \<le> M" "\<forall>(n, c) \<in> set es. \<exists>k \<le> M. numbered w k n"
      "M = N \<or> (\<exists>(n, c) \<in> set es. numbered w M n)" using Cons.IH [OF rest] by blast
    have "k \<le> M" using False M(2) by simp
    with False k e v M show ?thesis by (intro exI [of _ M]) (auto intro: exI [of _ k])
  qed
qed simp

text \<open>The first file always sets the width, since numbers start at zero.\<close>

lemma number_loop_first:
  assumes "(n, c) = e" "c \<noteq> None" "numbered w k n"
  shows "number_loop (e # es) (0, v) = number_loop (e # es) (0, w)"
  using assms numbered_parts [OF assms(3)] by auto

lemma next_number:
  assumes files: "\<forall>(n, c) \<in> set (md_entries d). c \<noteq> None \<and> (\<exists>k. numbered w k n \<and> k + 1 < 2 ^ 63)"
    and width: "md_entries d = [] \<longrightarrow> w = 4" and "\<not> md_read_error d"
  shows "\<exists>M. nextMigrationNumber d = Some (int (M + 1), w) \<and> (\<forall>(n, c) \<in> set (md_entries d). \<exists>k \<le> M. numbered w k n)
    \<and> (M = 0 \<or> (\<exists>(n, c) \<in> set (md_entries d). numbered w M n))"
proof -
  let ?es = "sort_key fst (md_entries d)"
  have all: "\<forall>(n, c) \<in> set ?es. c \<noteq> None \<and> (\<exists>k. numbered w k n)" using files by auto
  have "number_loop ?es (0, 4) = number_loop ?es (0, w)"
  proof (cases ?es)
    case Nil
    then have "md_entries d = []" by (metis set_empty set_sort)
    then have "w = 4" using width by simp
    then show ?thesis by simp
  next
    case (Cons e es)
    obtain n c where e: "e = (n, c)" by (cases e)
    with all Cons obtain k where "c \<noteq> None" "numbered w k n" by auto
    with e Cons show ?thesis using number_loop_first [of n c e w k es 4] by simp
  qed
  with number_loop_same_width [OF all, of 0] obtain M where
    M: "number_loop ?es (0, 4) = (int M, w)" "\<forall>(n, c) \<in> set ?es. \<exists>k \<le> M. numbered w k n"
      "M = 0 \<or> (\<exists>(n, c) \<in> set ?es. numbered w M n)" by auto
  have "M + 1 < 2 ^ 63"
  proof (cases "M = 0")
    case False
    then obtain n c where n: "(n, c) \<in> set (md_entries d)" "numbered w M n" using M(3) by auto
    with files obtain k where "numbered w k n" "k + 1 < 2 ^ 63" by auto
    with numbered_parts(1) [OF n(2)] numbered_parts(1) [of w k n] show ?thesis by simp
  qed simp
  then have "wrap64 (int M + 1) = int (M + 1)" by (simp add: wrap64_def)
  with M assms(3) show ?thesis by (intro exI [of _ M]) (simp add: nextMigrationNumber_def)
qed

lemma Split_template: "Split (Join template_lines [newline]) newline = template_lines"
  by code_simp

lemma scan_template: "scan_markers template_lines (0 + 1) (None, None) = (Some 9, Some 11)"
  by code_simp

lemma template_halves:
  "Join (drop 8 (take 10 template_lines)) [newline] = [newline]" "Join (drop 11 template_lines) [newline] = [newline]"
  by code_simp+

lemma new_content_halves:
  assumes "newline \<notin> set name" and "TrimSpace (''-- '' @ name) \<notin> {migrateUpMarker, migrateDownMarker}"
  shows "splitMigrationSQL (new_content name) = ([newline], [newline], True)"
proof -
  have lines: "Split (new_content name) newline = (''-- '' @ name) # template_lines"
  proof -
    have "new_content name = (''-- '' @ name) @ newline # Join template_lines [newline]" by (simp add: new_content_def)
    moreover have "newline \<notin> set (''-- '' @ name)" using assms(1) by simp
    ultimately show ?thesis using Split_line Split_template by metis
  qed
  have "scan_markers ((''-- '' @ name) # template_lines) 0 (None, None) = (Some 9, Some 11)"
    using assms(2) by (simp only: scan_markers.simps(2) scan_template) simp
  moreover have "drop 9 (take 11 ((''-- '' @ name) # template_lines)) = drop 8 (take 10 template_lines)"
    "drop (11 + 1) ((''-- '' @ name) # template_lines) = drop 11 template_lines"
    by (simp_all add: eval_nat_numeral)
  ultimately show ?thesis
    unfolding splitMigrationSQL_def lines Let_def using template_halves by simp
qed

lemma numbered_less:
  assumes "numbered w k n" and "k < m" and "m < 10 ^ w"
  shows "n < pad_number w (int m) @ (s :: string)"
proof -
  obtain ds t where n: "n = ds @ CHR ''_'' # t" "length ds = w" "0 < w" "digits_val 0 ds = Some k"
    using assms(1) by (auto simp: numbered_def)
  from pad_number_shape [OF assms(3) n(3)] n same_width_less [of ds "pad_number w (int m)" 0 k m] assms(2) show ?thesis by simp
qed

text \<open>
  A new migration file comes last. In a directory whose files all carry numbers of one width,
  with room for one more, \<^verbatim>\<open>migrate new\<close> creates a file whose number has the same width and whose name
  sorts after every other, so that an upgrade applies it after all of them; its two halves are there and
  blank, ready to be filled in.
\<close>

theorem new_migration_comes_last:
  assumes files: "\<forall>(n, c) \<in> set (md_entries d). c \<noteq> None \<and> (\<exists>k. numbered w k n \<and> k + 1 < 10 ^ w \<and> k + 1 < 2 ^ 63)"
    and width: "md_entries d = [] \<longrightarrow> w = 4" and "\<not> md_read_error d"
    and name: "slug_of name \<noteq> []" "newline \<notin> set name" "TrimSpace (''-- '' @ name) \<notin> {migrateUpMarker, migrateDownMarker}"
    and calm: "\<not> ff_mkdir F" "ff_write F = Written"
  shows "\<exists>d' f k. newMigrationFile F d name = (d', Inr f) \<and> numbered w k f \<and> file_names d' = file_names d @ [f]
    \<and> (\<exists>c. md_entries d' = md_entries d @ [(f, Some c)] \<and> splitMigrationSQL c = ([newline], [newline], True))"
proof -
  let ?d = "d\<lparr>md_missing := False\<rparr>"
  have f0: "\<forall>(n, c) \<in> set (md_entries ?d). c \<noteq> None \<and> (\<exists>k. numbered w k n \<and> k + 1 < 2 ^ 63)"
    "md_entries ?d = [] \<longrightarrow> w = 4" "\<not> md_read_error ?d" using files width assms(3) by (fastforce, simp_all)
  from next_number [OF f0] obtain M where
    M: "nextMigrationNumber ?d = Some (int (M + 1), w)" "\<forall>(n, c) \<in> set (md_entries d). \<exists>k \<le> M. numbered w k n"
      "M = 0 \<or> (\<exists>(n, c) \<in> set (md_entries d). numbered w M n)" by auto
  have fits: "M + 1 < 10 ^ w \<and> M + 1 < 2 ^ 63 \<and> 0 < w"
  proof (cases "md_entries d = []")
    case True
    with M(3) width show ?thesis by simp
  next
    case False
    then obtain n c where e: "(n, c) \<in> set (md_entries d)" by (metis list.set_intros(1) neq_Nil_conv surj_pair)
    with files obtain k where k: "numbered w k n" by blast
    then have w: "0 < w" by (auto simp: numbered_def)
    then have "(1 :: nat) < 10 ^ w" by (rule one_less_power [rotated]) simp
    show ?thesis
    proof (cases "M = 0")
      case True
      with w \<open>1 < 10 ^ w\<close> show ?thesis by simp
    next
      case False
      then obtain n' c' where "(n', c') \<in> set (md_entries d)" and nm: "numbered w M n'" using M(3) by auto
      with files obtain k' where k': "numbered w k' n'" "k' + 1 < 10 ^ w" "k' + 1 < 2 ^ 63" by blast
      have "int k' = int M" using numbered_parts(1) [OF nm] numbered_parts(1) [OF k'(1)] by simp
      with k' w show ?thesis by simp
    qed
  qed
  let ?f = "pad_number w (int (M + 1)) @ ''_'' @ slug_of name @ ''.sql''"
  have less: "n < ?f" if "n \<in> fst ` set (md_entries d)" for n
  proof -
    from that M(2) obtain k where "k \<le> M" "numbered w k n" by fastforce
    with numbered_less [of w k n "M + 1"] fits show ?thesis by simp
  qed
  then have new: "?f \<notin> fst ` set (md_entries d)" by blast
  let ?c = "new_content name"
  have run: "newMigrationFile F d name = (?d\<lparr>md_entries := md_entries d @ [(?f, Some ?c)]\<rparr>, Inr ?f)"
    using name(1) calm M(1) new by (simp add: newMigrationFile_def Let_def)
  have num: "numbered w (M + 1) ?f"
    using pad_number_shape [of "M + 1" w] fits unfolding numbered_def by auto
  have "file_names d = sort (map fst (md_entries d))"
    using files by (auto simp: file_names_def intro!: arg_cong [where f = sort] arg_cong [where f = "map fst"] simp: filter_id_conv)
  moreover have "file_names (?d\<lparr>md_entries := md_entries d @ [(?f, Some ?c)]\<rparr>) = sort (map fst (md_entries d) @ [?f])"
    using files by (auto simp: file_names_def intro!: arg_cong [where f = sort] arg_cong [where f = "map fst"] simp: filter_id_conv)
  moreover have "sort (xs @ [x]) = sort xs @ [x]" if "\<forall>y \<in> set xs. y < x" for xs and x :: string
    using that by (intro properties_for_sort) (auto simp: sorted_append)
  ultimately show ?thesis using run num less new_content_halves [OF name(2,3)]
    by (intro exI conjI) (assumption | simp)+
qed

abbreviation one_file :: "string \<Rightarrow> mig_dir" where
  "one_file n \<equiv> \<lparr>md_missing = False, md_stat_error = False, md_read_error = False,
     md_entries = [(n, Some ''x'')], md_unreadable = (\<lambda>_. False)\<rparr>"

abbreviation no_faults :: fs_faults where
  "no_faults \<equiv> \<lparr>ff_mkdir = False, ff_write = Written\<rparr>"

theorem new_migration_comes_last_witness:
  "\<exists>d' f. newMigrationFile no_faults (one_file ''0009_init.sql'') ''Add posts!'' = (d', Inr f) \<and> file_names d' = [''0009_init.sql'', f]"
proof -
  have v: "digits_val 0 ''0009'' = Some 9" by code_simp
  have "numbered 4 9 ''0009_init.sql''"
    unfolding numbered_def by (rule exI [of _ "''0009''"], rule exI [of _ "''init.sql''"]) (simp add: v del: digits_val.simps)
  then have files: "\<forall>(n, c) \<in> set (md_entries (one_file ''0009_init.sql'')). c \<noteq> None \<and> (\<exists>k. numbered 4 k n \<and> k + 1 < 10 ^ 4 \<and> k + 1 < 2 ^ 63)"
    by (auto intro!: exI [of _ 9])
  have slug: "slug_of ''Add posts!'' \<noteq> []" "TrimSpace (''-- '' @ ''Add posts!'') \<notin> {migrateUpMarker, migrateDownMarker}" by code_simp+
  have names: "file_names (one_file ''0009_init.sql'') = [''0009_init.sql'']" by code_simp
  have nl: "newline \<notin> set ''Add posts!''" by simp
  have "\<exists>d' f k. newMigrationFile no_faults (one_file ''0009_init.sql'') ''Add posts!'' = (d', Inr f) \<and> numbered 4 k f
      \<and> file_names d' = file_names (one_file ''0009_init.sql'') @ [f]
      \<and> (\<exists>c. md_entries d' = md_entries (one_file ''0009_init.sql'') @ [(f, Some c)] \<and> splitMigrationSQL c = ([newline], [newline], True))"
    by (rule new_migration_comes_last [OF files _ _ slug(1) nl slug(2)]) simp_all
  then show ?thesis unfolding names by auto
qed

text \<open>
  Where the width runs out, the order breaks: next to \<^verbatim>\<open>9999_last.sql\<close> the new file is called
  \<^verbatim>\<open>10000_more.sql\<close>, which sorts before it, so an upgrade of an empty database runs the newer file first.
\<close>

theorem new_migration_can_come_first:
  "snd (newMigrationFile no_faults (one_file ''9999_last.sql'') ''more'') = Inr ''10000_more.sql''
   \<and> file_names (fst (newMigrationFile no_faults (one_file ''9999_last.sql'') ''more'')) = [''10000_more.sql'', ''9999_last.sql'']"
proof -
  let ?d = "one_file ''9999_last.sql''"
  have v: "digits_val 0 ''9999'' = Some 9999" by (simp add: is_digit_of_char digit_val_def)
  have "numbered 4 9999 ''9999_last.sql''"
    unfolding numbered_def by (rule exI [of _ "''9999''"], rule exI [of _ "''last.sql''"]) (simp add: v del: digits_val.simps)
  note n = numbered_parts [OF this]
  have next_no: "nextMigrationNumber ?d = Some (10000, 4)" by (simp add: nextMigrationNumber_def n wrap64_def is_digit_of_char)
  have "digit_char 0 = CHR ''0''" "digit_char 1 = CHR ''1''" by code_simp+
  then have "Itoa_nat 10000 = ''10000''" by (simp add: Itoa_nat.simps)
  then have pad: "pad_number 4 10000 = ''10000''" by (simp add: pad_number_def Let_def)
  have slug: "slug_of ''more'' = ''more''" by code_simp
  have run: "newMigrationFile no_faults ?d ''more'' = (?d\<lparr>md_entries := md_entries ?d @ [(''10000_more.sql'', Some (new_content ''more''))]\<rparr>, Inr ''10000_more.sql'')"
    unfolding newMigrationFile_def slug by (simp add: next_no pad Let_def)
  have "sort [''9999_last.sql'', ''10000_more.sql''] = [''10000_more.sql'', ''9999_last.sql'']" by code_simp
  then show ?thesis by (simp add: run file_names_def)
qed

text \<open>
  Flags may stand anywhere among the positional arguments, in either spelling: the value is
  found, and the positional arguments come out in their order, as if the flag had not been there.
\<close>

theorem flags_in_any_position:
  assumes "\<forall>a \<in> set (before @ after). positional a" and "name \<in> set known" and "\<not> Contains name ''=''"
    and "name \<noteq> []" and "\<not> HasPrefix name ''-''"
  shows "extractFlags (before @ [''--'' @ name, v] @ after) known = Inr ([(name, v)], before @ after)
    \<and> extractFlags (before @ [''--'' @ name @ ''='' @ v] @ after) known = Inr ([(name, v)], before @ after)"
proof -
  have b: "\<forall>a \<in> set before. positional a" and a: "\<forall>a \<in> set after. positional a" using assms(1) by auto
  note f = extract_flag [OF assms(2-5)]
  have "extract_loop known after [(name, v)] before = Inr ([(name, v)], before @ after)"
    using extract_positional [OF a, of known "[]"] by simp
  with f show ?thesis by (simp add: extractFlags_def extract_positional [OF b])
qed

theorem flags_in_any_position_witness:
  "extractFlags [''create'', ''--dir'', ''m'', ''posts''] [''dir''] = Inr ([(''dir'', ''m'')], [''create'', ''posts''])"
  using flags_in_any_position [of "[''create'']" "[''posts'']" "''dir''" "[''dir'']" "''m''"]
  by (simp add: positional_def Contains_def)

end
