(* ===== verification/Scaffold_Templates.thy ===== *)
theory Scaffold_Templates
  imports Maubase_Prelude
begin

text \<open>
  The texts that \<^verbatim>\<open>maubase init\<close> writes, line by line as they stand in \<^verbatim>\<open>cmd/maubase/init.go\<close>,
  \<^verbatim>\<open>skill.go\<close> and \<^verbatim>\<open>jsclient.go\<close>: bytes outside ASCII and quotation marks by their codes, the parts of
  a Go concatenation in its order.
\<close>

abbreviation nl :: string where "nl \<equiv> [CHR 0x0A]"

definition specURL :: "string \<Rightarrow> string \<Rightarrow> string" where
  "specURL ref file = ''https://raw.githubusercontent.com/'' @ ''Ucok23/maubase'' @ ''/'' @ ref @ ''/spec/'' @ file"

definition initMigrationTemplate :: string where
  "initMigrationTemplate = concat [
     ''-- Your first application migration. maubase's own embedded schema'' @ nl,
     ''-- (users, sessions, oauth clients, etc.) is separate and applied'' @ nl,
     ''-- automatically '' @ [CHR 0xE2, CHR 0x80, CHR 0x94] @ '' this file, and every one after it, is entirely'' @ nl,
     ''-- yours: add your own CREATE TABLE statements under '' @ [CHR 0x22] @ ''+migrate Up'' @ [CHR 0x22] @ '' below'' @ nl,
     ''-- (or just leave this one empty and run '' @ [CHR 0x22] @ ''maubase migrate new <name>'' @ [CHR 0x22] @ nl,
     ''-- to scaffold your first real one instead).'' @ nl,
     nl,
     ''-- +migrate Up'' @ nl,
     nl,
     nl,
     ''-- +migrate Down'' @ nl,
     nl]"

definition envExampleLines :: "string list" where
  "envExampleLines = [
     ''# Config for maubase. Copy to .env and fill in what you need '' @ [CHR 0xE2, CHR 0x80, CHR 0x94] @ '' every'',
     ''# line below shows its default, so anything you don't set just falls'',
     ''# back to that. See internal/config/config.go and README.md's '' @ [CHR 0x22] @ ''Running'',
     ''# it'' @ [CHR 0x22] @ '' section for the full explanation of each.'',
     [],
     ''MAUBASE_ADDR=:8080'',
     ''MAUBASE_DB_PATH=data/maubase.db'',
     ''# This server's own public base URL '' @ [CHR 0xE2, CHR 0x80, CHR 0x94] @ '' must be what clients actually use'',
     ''# to reach it, since it's baked into JWT '' @ [CHR 0x22] @ ''iss'' @ [CHR 0x22] @ '' claims and discovery'',
     ''# metadata.'',
     ''MAUBASE_ISSUER=http://localhost:8080'',
     [],
     ''# Set both to create the first owner-plane account on first run; a'',
     ''# no-op on every run after.'',
     ''MAUBASE_BOOTSTRAP_OWNER_EMAIL='',
     ''MAUBASE_BOOTSTRAP_OWNER_PASSWORD='',
     [],
     ''# Where this deployment's own application-schema .sql files live.'',
     ''MAUBASE_MIGRATIONS_DIR=migrations'',
     [],
     ''# At most this many login attempts per client IP per window.'',
     ''MAUBASE_LOGIN_RATE_LIMIT=10'',
     ''MAUBASE_LOGIN_RATE_WINDOW_SECONDS=60'',
     [],
     ''# How often the background janitor purges expired session rows.'',
     ''MAUBASE_SESSION_CLEANUP_INTERVAL_SECONDS=3600'',
     [],
     ''# Where uploaded file bytes are written, one file per upload.'',
     ''MAUBASE_STORAGE_DIR=data/storage'',
     ''MAUBASE_MAX_UPLOAD_MB=25'',
     ''MAUBASE_MAX_REQUEST_BODY_KB=1024'',
     [],
     ''# Password reset email. All three unset is fine if you don't use it '' @ [CHR 0xE2, CHR 0x80, CHR 0x94],
     ''# you'll just get a clear error the first time something tries to send.'',
     ''MAUBASE_RESEND_API_KEY='',
     ''MAUBASE_EMAIL_FROM='',
     ''MAUBASE_PASSWORD_RESET_URL='',
     [],
     ''# '' @ [CHR 0x22] @ ''Continue with Google/GitHub.'' @ [CHR 0x22] @ '' Each pair is independently optional '' @ [CHR 0xE2, CHR 0x80, CHR 0x94],
     ''# leaving one unset just 404s that provider, not a startup error.'',
     ''MAUBASE_GOOGLE_CLIENT_ID='',
     ''MAUBASE_GOOGLE_CLIENT_SECRET='',
     ''MAUBASE_GITHUB_CLIENT_ID='',
     ''MAUBASE_GITHUB_CLIENT_SECRET='',
     ''MAUBASE_SOCIAL_LOGIN_REDIRECT_URL='',
     [],
     ''# Set to a redis:// URL shared by every instance to upgrade realtime'',
     ''# fan-out from single-process to cross-process. Leave unset for a'',
     ''# single-instance deployment.'',
     ''MAUBASE_REDIS_URL='',
     [],
     ''# Set to '' @ [CHR 0x22] @ ''development'' @ [CHR 0x22] @ '' to enable GET /api/schema (live collection/column/'',
     ''# access-rule introspection, useful for local tooling) '' @ [CHR 0xE2, CHR 0x80, CHR 0x94] @ '' 404s outright'',
     ''# when this isn't '' @ [CHR 0x22] @ ''development'' @ [CHR 0x22] @ ''. Never set this in production.'',
     ''MAUBASE_ENV=production'']"

definition envExampleTemplate :: string where
  "envExampleTemplate = concat (map (\<lambda>line. line @ nl) envExampleLines)"

text \<open>
  The body of the agent documents. Its closing paragraph mentions the end marker of the managed block;
  the lines before that mention and those after it are listed apart.
\<close>

definition agentDocUpper :: "string list" where
  "agentDocUpper = [
     ''<!-- maubase:begin {{VERSION}} -->'' @ nl,
     ''# maubase'' @ nl,
     nl,
     ''This project's backend is maubase '' @ [CHR 0xE2, CHR 0x80, CHR 0x94] @ '' self-hosted auth, a database with'' @ nl,
     ''an automatic REST API, file storage, realtime, and OAuth 2.1, on one'' @ nl,
     ''SQLite file. One '' @ [CHR 0x60] @ ''maubase serve'' @ [CHR 0x60] @ '' process serves exactly this project.'' @ nl,
     nl,
     ''Generated by '' @ [CHR 0x60] @ ''maubase init'' @ [CHR 0x60] @ '' for **{{VERSION}}**. Below is either a live'' @ nl,
     ''command (this project's actual current state) or a spec link pinned to'' @ nl,
     ''the exact commit that generated this file '' @ [CHR 0xE2, CHR 0x80, CHR 0x94] @ '' not prose written from'' @ nl,
     ''memory. Prefer both of those over training data or anything you might'' @ nl,
     ''otherwise recall about maubase's own source: neither is this project's'' @ nl,
     ''actual version, and both can simply be wrong for it.'' @ nl,
     nl,
     ''## What actually exists in this project right now'' @ nl,
     nl,
     ''Tables, columns, and access rules are created by a migration, the admin'' @ nl,
     ''UI's create-table form, or SQL Studio '' @ [CHR 0xE2, CHR 0x80, CHR 0x94] @ '' all *after* this file was'' @ nl,
     ''generated, so nothing below describes them; ask the running server'' @ nl,
     ''instead:'' @ nl,
     nl,
     ''- '' @ [CHR 0x60] @ ''GET /api/schema'' @ [CHR 0x60] @ '' '' @ [CHR 0xE2, CHR 0x80, CHR 0x94] @ '' every collection '' @ [CHR 0x60] @ ''/api/data/*'' @ [CHR 0x60] @ '' exposes right'' @ nl,
     ''  now (columns, types, owner scoping, resolved read/write rules).'' @ nl,
     ''  Requires a '' @ [CHR 0x60] @ ''records:read'' @ [CHR 0x60] @ '' access token, and only exists at all when'' @ nl,
     ''  this project's '' @ [CHR 0x60] @ ''.env'' @ [CHR 0x60] @ '' sets '' @ [CHR 0x60] @ ''MAUBASE_ENV=development'' @ [CHR 0x60] @ '' '' @ [CHR 0xE2, CHR 0x80, CHR 0x94] @ '' 404s'' @ nl,
     ''  otherwise. ('' @ specURL ''{{DOCREF}}'' ''schema-introspection.md'' @ '')'' @ nl,
     ''- Not in development mode, or need history rather than current state:'' @ nl,
     ''  '' @ [CHR 0x60] @ ''maubase migrate status'' @ [CHR 0x60] @ '' plus '' @ [CHR 0x60] @ ''migrations/*.sql'' @ [CHR 0x60] @ ''. Keep in mind the'' @ nl,
     ''  admin UI/SQL Studio can change the live schema without a matching'' @ nl,
     ''  migration file '' @ [CHR 0xE2, CHR 0x80, CHR 0x94] @ '' '' @ [CHR 0x60] @ ''maubase migrate diff'' @ [CHR 0x60] @ '' catches that drift; run it'' @ nl,
     ''  before trusting migrations/ as a complete picture.'' @ nl,
     ''{{JSCLIENT}}'' @ nl,
     ''## What this backend's fixed API surface is '' @ [CHR 0xE2, CHR 0x80, CHR 0x94] @ '' spec, not summary'' @ nl,
     nl,
     ''- Auth (signup/login/session): '' @ specURL ''{{DOCREF}}'' ''identity.md'' @ nl,
     ''- Auto-REST ('' @ [CHR 0x60] @ ''/api/data/{table}'' @ [CHR 0x60] @ ''): '' @ specURL ''{{DOCREF}}'' ''auto-rest.md'' @ nl,
     ''- Access rules beyond owner_id ('' @ [CHR 0x60] @ ''_policies'' @ [CHR 0x60] @ ''): '' @ specURL ''{{DOCREF}}'' ''access-rules.md'' @ nl,
     ''- Storage: '' @ specURL ''{{DOCREF}}'' ''storage.md'' @ nl,
     ''- Realtime: '' @ specURL ''{{DOCREF}}'' ''realtime.md'' @ nl,
     ''- OAuth 2.1 (where access tokens come from): '' @ specURL ''{{DOCREF}}'' ''oauth-token.md'' @ nl,
     ''- Admin UI ('' @ [CHR 0x60] @ ''/admin/ui/*'' @ [CHR 0x60] @ '', operating this deployment): '' @ specURL ''{{DOCREF}}'' ''admin-ui.md'' @ nl,
     ''- Full index: '' @ specURL ''{{DOCREF}}'' ''README.md'' @ nl,
     nl,
     ''## Commands'' @ nl,
     nl,
     [CHR 0x60] @ ''maubase serve'' @ [CHR 0x60] @ '', '' @ [CHR 0x60] @ ''maubase migrate new/up/down/redo/to/status/diff'' @ [CHR 0x60] @ '', '' @ [CHR 0x60] @ ''maubase version'' @ [CHR 0x60] @ '','' @ nl,
     [CHR 0x60] @ ''maubase init --update-agent-docs'' @ [CHR 0x60] @ '' (refreshes this file after a'' @ nl,
     [CHR 0x60] @ ''maubase'' @ [CHR 0x60] @ '' upgrade '' @ [CHR 0xE2, CHR 0x80, CHR 0x94] @ '' see below)'' @ nl,
     nl,
     ''## The one rule with no exception'' @ nl,
     nl,
     ''Never edit the live schema (raw SQL, admin UI create-table, SQL Studio)'' @ nl,
     ''without also writing a migration for it. Run '' @ [CHR 0x60] @ ''maubase migrate diff'' @ [CHR 0x60] @ nl,
     ''before considering schema work done. Full migration workflow (new/up/'' @ nl,
     ''down/redo/to/status/diff, the Up/Down marker format, checksums):'' @ nl,
     specURL ''{{DOCREF}}'' ''migrations-cli.md'' @ nl,
     nl,
     ''## Keeping this file current'' @ nl,
     nl,
     ''This file is pinned to **{{VERSION}}** '' @ [CHR 0xE2, CHR 0x80, CHR 0x94] @ '' every link above resolves to'' @ nl,
     ''that exact commit/tag's spec, not whatever a newer maubase might say.'' @ nl,
     ''After upgrading the '' @ [CHR 0x60] @ ''maubase'' @ [CHR 0x60] @ '' binary this project runs, re-run'' @ nl,
     [CHR 0x60] @ ''maubase init --update-agent-docs'' @ [CHR 0x60] @ '' to refresh the version marker and'' @ nl,
     ''every link above to match; it only replaces the content between this'' @ nl,
     ''comment and the matching '']"

definition agentDocLower :: "string list" where
  "agentDocLower = [
     '' below, so anything'' @ nl,
     ''you've added elsewhere in this file (including below that line) is left'' @ nl,
     ''alone.'' @ nl,
     ''<!-- maubase:end -->'' @ nl]"

definition blockEnd :: string where
  "blockEnd = ''<!-- maubase:end -->''"

definition agentDocBody :: string where
  "agentDocBody = concat agentDocUpper @ [CHR 0x60] @ blockEnd @ [CHR 0x60] @ concat agentDocLower"

definition skillTemplate :: string where
  "skillTemplate = concat [
     ''---'' @ nl,
     ''name: maubase'' @ nl,
     ''description: Use when working on a project backed by maubase (a self-hosted auth/database/storage/realtime backend) '' @ [CHR 0xE2, CHR 0x80, CHR 0x94] @ '' adding endpoints, changing schema, or touching auth/migrations/access rules in this project.'' @ nl,
     ''---'' @ nl,
     nl] @ agentDocBody"

definition agentsTemplate :: string where
  "agentsTemplate = agentDocBody"

definition jsClientSection :: string where
  "jsClientSection = concat [
     nl,
     ''## Client library'' @ nl,
     nl,
     ''This project has maubase's TypeScript client vendored at'' @ nl,
     [CHR 0x60] @ ''maubase-client/'' @ [CHR 0x60] @ '' ('' @ [CHR 0x60] @ ''maubase init --js-client'' @ [CHR 0x60] @ '', generated for'' @ nl,
     ''{{VERSION}}) '' @ [CHR 0xE2, CHR 0x80, CHR 0x94] @ '' prefer it over raw fetch calls for auth ('' @ [CHR 0x60] @ ''client.auth'' @ [CHR 0x60] @ '')'' @ nl,
     ''and auto-REST ('' @ [CHR 0x60] @ ''client.data'' @ [CHR 0x60] @ ''). It does not cover storage or realtime;'' @ nl,
     ''see '' @ [CHR 0x60] @ ''maubase-client/README.md'' @ [CHR 0x60] @ '', or the spec links below, for those.'' @ nl]"

definition jsClientReadmeTemplate :: string where
  "jsClientReadmeTemplate = concat [
     ''# @maubase/client (vendored)'' @ nl,
     nl,
     ''This is maubase's own TypeScript client (auth + auto-REST), vendored'' @ nl,
     ''here by '' @ [CHR 0x60] @ ''maubase init --js-client'' @ [CHR 0x60] @ '' from **{{VERSION}}**'s'' @ nl,
     [CHR 0x60] @ ''sdk/js/dist'' @ [CHR 0x60] @ '' '' @ [CHR 0xE2, CHR 0x80, CHR 0x94] @ '' not a separate package, not npm-installed, just'' @ nl,
     ''copied in so it's exactly what this maubase binary shipped. Import it'' @ nl,
     ''with a relative path:'' @ nl,
     nl,
     [CHR 0x60, CHR 0x60, CHR 0x60] @ ''ts'' @ nl,
     ''import { createClient } from '' @ [CHR 0x22] @ ''./maubase-client/index.js'' @ [CHR 0x22] @ '';'' @ nl,
     [CHR 0x60, CHR 0x60, CHR 0x60] @ nl,
     nl,
     ''## What this does not cover yet'' @ nl,
     nl,
     ''Only auth ('' @ [CHR 0x60] @ ''client.auth'' @ [CHR 0x60] @ '') and auto-REST ('' @ [CHR 0x60] @ ''client.data'' @ [CHR 0x60] @ '') '' @ [CHR 0xE2, CHR 0x80, CHR 0x94] @ nl,
     ''carried over directly from the source SDK's own limits, not something'' @ nl,
     ''specific to vendoring it here:'' @ nl,
     nl,
     ''- **Storage** '' @ [CHR 0xE2, CHR 0x80, CHR 0x94] @ '' no wrapper; call '' @ [CHR 0x60] @ ''/api/storage/*'' @ [CHR 0x60] @ '' directly, see'' @ nl,
     ''  '' @ specURL ''{{DOCREF}}'' ''storage.md'' @ nl,
     ''- **Realtime** '' @ [CHR 0xE2, CHR 0x80, CHR 0x94] @ '' no wrapper; use the WebSocket broker directly, see'' @ nl,
     ''  '' @ specURL ''{{DOCREF}}'' ''realtime.md'' @ nl,
     nl,
     ''## Getting a newer client'' @ nl,
     nl,
     ''This directory is a snapshot, not something '' @ [CHR 0x60] @ ''maubase init'' @ [CHR 0x60] @ '' updates in'' @ nl,
     ''place. To pick up a client matching a newer maubase binary: delete'' @ nl,
     [CHR 0x60] @ ''maubase-client/'' @ [CHR 0x60] @ '' and re-run '' @ [CHR 0x60] @ ''maubase init --js-client'' @ [CHR 0x60] @ ''.'' @ nl]"

end
