(* ===== verification/Scaffold.thy ===== *)
theory Scaffold
  imports Scaffold_Templates Startup
begin

text \<open>
  Scaffolding a project: \<^verbatim>\<open>maubase init\<close> with its flags (\<^verbatim>\<open>cmd/maubase/init.go\<close>, \<^verbatim>\<open>jsclient.go\<close>), the
  refresh of the managed documents (\<^verbatim>\<open>updateagentdocs.go\<close>, \<^verbatim>\<open>skill.go\<close>) and the version
  (\<^verbatim>\<open>version.go\<close>). Files are those below the directory the arguments name; a path is the list of its
  components. Each call of the file system may fail, a failed write may leave any text behind, and a
  failed directory creation some of the directories; which do is the environment. What is printed
  is left out. The build information and the embedded client are parameters.
\<close>

section \<open>The file system\<close>

type_synonym path = "string list"

datatype node = Directory | Regular string

type_synonym tree = "path \<rightharpoonup> node"

datatype fs_call = CStat path | CMkdir path | CWrite path | CRead path

record io_env =
  io_fails :: "fs_call \<Rightarrow> bool"
  io_made :: "path \<Rightarrow> nat"
  io_torn :: "path \<Rightarrow> string option"

datatype init_error =
    InitUsage | CannotCombine | AlreadyInitialized "path list"
  | MkdirFailed path | WriteFailed path | ReadFailed path | VendorFailed | NoManagedBlock path | NoRenderedBlock path

definition Stat :: "io_env \<Rightarrow> tree \<Rightarrow> path \<Rightarrow> bool" where
  "Stat E t p \<longleftrightarrow> t p \<noteq> None \<and> \<not> io_fails E (CStat p)"

definition prefixes :: "path \<Rightarrow> path list" where
  "prefixes p = map (\<lambda>n. take n p) [1..<Suc (length p)]"

fun mkdirs :: "path list \<Rightarrow> tree \<Rightarrow> tree \<times> bool" where
  "mkdirs [] t = (t, True)"
| "mkdirs (q # qs) t =
     (case t q of
        None \<Rightarrow> mkdirs qs (t(q \<mapsto> Directory))
      | Some Directory \<Rightarrow> mkdirs qs t
      | Some (Regular _) \<Rightarrow> (t, False))"

definition MkdirAll :: "io_env \<Rightarrow> path \<Rightarrow> tree \<Rightarrow> tree \<times> init_error option" where
  "MkdirAll E p t =
     (if io_fails E (CMkdir p) then (fst (mkdirs (take (io_made E p) (prefixes p)) t), Some (MkdirFailed p))
      else (case mkdirs (prefixes p) t of (t', ok) \<Rightarrow> (t', if ok then None else Some (MkdirFailed p))))"

definition writable :: "tree \<Rightarrow> path \<Rightarrow> bool" where
  "writable t p \<longleftrightarrow> t p \<noteq> Some Directory \<and> (butlast p = [] \<or> t (butlast p) = Some Directory)"

definition WriteFile :: "io_env \<Rightarrow> path \<Rightarrow> string \<Rightarrow> tree \<Rightarrow> tree \<times> init_error option" where
  "WriteFile E p s t =
     (if \<not> writable t p then (t, Some (WriteFailed p))
      else if io_fails E (CWrite p)
      then (case io_torn E p of None \<Rightarrow> t | Some s' \<Rightarrow> t(p \<mapsto> Regular s'), Some (WriteFailed p))
      else (t(p \<mapsto> Regular s), None))"

datatype read_result = NotExist | ReadError | Content string

definition ReadFile :: "io_env \<Rightarrow> path \<Rightarrow> tree \<Rightarrow> read_result" where
  "ReadFile E p t =
     (if io_fails E (CRead p) then ReadError
      else (case t p of None \<Rightarrow> NotExist | Some Directory \<Rightarrow> ReadError | Some (Regular s) \<Rightarrow> Content s))"

text \<open>The next call is made only when the one before has succeeded.\<close>

definition and_then :: "tree \<times> init_error option \<Rightarrow> (tree \<Rightarrow> tree \<times> init_error option) \<Rightarrow> tree \<times> init_error option" where
  "and_then r k = (case r of (t, Some e) \<Rightarrow> (t, Some e) | (t, None) \<Rightarrow> k t)"


section \<open>The version\<close>

record build_info =
  bi_version :: string
  bi_settings :: "(string \<times> string) list"

definition setting :: "string \<Rightarrow> (string \<times> string) list \<Rightarrow> string" where
  "setting k xs = fold (\<lambda>(key, v) acc. if key = k then v else acc) xs []"

definition moduleVersion :: "build_info \<Rightarrow> string" where
  "moduleVersion info =
     (let version = (if bi_version info = [] then ''(devel)'' else bi_version info)
      in if version = ''(devel)''
         then (let commit = setting ''vcs.revision'' (bi_settings info);
                   modified = (setting ''vcs.modified'' (bi_settings info) = ''true'')
               in if commit \<noteq> []
                  then ''(devel), commit '' @ (if length commit > 12 then take 12 commit else commit) @ (if modified then '', modified'' else [])
                  else version)
         else version)"

definition currentModuleVersion :: "build_info option \<Rightarrow> string" where
  "currentModuleVersion info = (case info of None \<Rightarrow> ''(unknown)'' | Some i \<Rightarrow> moduleVersion i)"

text \<open>The regular expression of a release tag: the letter v and three numbers between dots.\<close>

definition cleanTagPattern :: "string \<Rightarrow> bool" where
  "cleanTagPattern s \<longleftrightarrow>
     (case s of
        [] \<Rightarrow> False
      | c # t \<Rightarrow> c = CHR ''v'' \<and> length (Split t (CHR ''.'')) = 3 \<and> list_all (\<lambda>w. w \<noteq> [] \<and> list_all is_digit w) (Split t (CHR ''.'')))"

definition currentDocRef :: "build_info option \<Rightarrow> string" where
  "currentDocRef info =
     (case info of
        None \<Rightarrow> ''main''
      | Some i \<Rightarrow>
          if cleanTagPattern (bi_version i) then bi_version i
          else (case find (\<lambda>(k, v). k = ''vcs.revision'' \<and> v \<noteq> []) (bi_settings i) of None \<Rightarrow> ''main'' | Some (_, v) \<Rightarrow> v))"


section \<open>Rendering\<close>

text \<open>\<^verbatim>\<open>strings.Replace\<close> of the first occurrence, and \<^verbatim>\<open>strings.ReplaceAll\<close> of a non-empty string.\<close>

definition ReplaceFirst :: "string \<Rightarrow> string \<Rightarrow> string \<Rightarrow> string" where
  "ReplaceFirst s old new = (case Index s old of None \<Rightarrow> s | Some i \<Rightarrow> take i s @ new @ drop (i + length old) s)"

function ReplaceStr :: "string \<Rightarrow> string \<Rightarrow> string \<Rightarrow> string" where
  "ReplaceStr s old new =
     (if old = [] then s
      else case Index s old of None \<Rightarrow> s | Some i \<Rightarrow> take i s @ new @ ReplaceStr (drop (i + length old) s) old new)"
  by pat_completeness auto

termination
proof (relation "measure (\<lambda>(s, _). length s)")
  fix s old new :: string and i
  assume "old \<noteq> []" and "Index s old = Some i"
  then show "((drop (i + length old) s, old, new), s, old, new) \<in> measure (\<lambda>(s, _). length s)"
    using Index_Some_split [of s old i] by (cases old) auto
qed simp

declare ReplaceStr.simps [simp del]

definition renderAgentDoc :: "build_info option \<Rightarrow> string \<Rightarrow> bool \<Rightarrow> string" where
  "renderAgentDoc B tmpl jsClient =
     (let out = ReplaceFirst tmpl ''{{JSCLIENT}}'' (if jsClient then jsClientSection else []);
          out = ReplaceStr out ''{{VERSION}}'' (currentModuleVersion B)
      in ReplaceStr out ''{{DOCREF}}'' (currentDocRef B))"

definition renderSkill :: "build_info option \<Rightarrow> bool \<Rightarrow> string" where
  "renderSkill B jsClient = renderAgentDoc B skillTemplate jsClient"

definition renderAgentsDoc :: "build_info option \<Rightarrow> bool \<Rightarrow> string" where
  "renderAgentsDoc B jsClient = renderAgentDoc B agentsTemplate jsClient"

definition renderJSClientReadme :: "build_info option \<Rightarrow> string" where
  "renderJSClientReadme B =
     ReplaceStr (ReplaceStr jsClientReadmeTemplate ''{{VERSION}}'' (currentModuleVersion B)) ''{{DOCREF}}'' (currentDocRef B)"

section \<open>The managed block\<close>

definition blockBegin :: string where
  "blockBegin = ''<!-- maubase:begin''"

text \<open>
  The leftmost shortest match of the pattern, with what stands before and after it. From the first begin
  marker the match runs to the first end marker after it; without one there, no later begin marker has one.
\<close>

definition split_block :: "string \<Rightarrow> (string \<times> string \<times> string) option" where
  "split_block s =
     (case Index s blockBegin of
        None \<Rightarrow> None
      | Some i \<Rightarrow>
          (let body = drop (i + length blockBegin) s
           in case Index body blockEnd of
                None \<Rightarrow> None
              | Some j \<Rightarrow> Some (take i s, blockBegin @ take j body @ blockEnd, drop (j + length blockEnd) body)))"

definition FindString :: "string \<Rightarrow> string" where
  "FindString s = (case split_block s of None \<Rightarrow> [] | Some (_, b, _) \<Rightarrow> b)"

lemma split_block_append: "split_block s = Some (a, b, c) \<Longrightarrow> s = a @ b @ c \<and> b \<noteq> []"
  by (auto simp: split_block_def Let_def blockBegin_def blockEnd_def dest!: Index_Some_split split: option.splits)

function ReplaceAllLiteralString :: "string \<Rightarrow> string \<Rightarrow> string" where
  "ReplaceAllLiteralString s new =
     (case split_block s of None \<Rightarrow> s | Some (a, b, c) \<Rightarrow> a @ new @ ReplaceAllLiteralString c new)"
  by pat_completeness auto

termination
  by (relation "measure (\<lambda>(s, _). length s)") (auto dest!: split_block_append)

declare ReplaceAllLiteralString.simps [simp del]

datatype doc_status = Created | Updated | Unchanged

definition updateManagedBlock :: "io_env \<Rightarrow> path \<Rightarrow> string \<Rightarrow> tree \<Rightarrow> tree \<times> (init_error + doc_status)" where
  "updateManagedBlock E p rendered t =
     (let newBlock = FindString rendered
      in if newBlock = [] then (t, Inl (NoRenderedBlock p))
         else (case ReadFile E p t of
                 NotExist \<Rightarrow>
                   (case and_then (MkdirAll E (butlast p) t) (WriteFile E p rendered) of
                      (t', Some e) \<Rightarrow> (t', Inl e) | (t', None) \<Rightarrow> (t', Inr Created))
               | ReadError \<Rightarrow> (t, Inl (ReadFailed p))
               | Content existing \<Rightarrow>
                   if split_block existing = None then (t, Inl (NoManagedBlock p))
                   else (let updated = ReplaceAllLiteralString existing newBlock
                         in if updated = existing then (t, Inr Unchanged)
                            else (case WriteFile E p updated t of
                                    (t', Some e) \<Rightarrow> (t', Inl e) | (t', None) \<Rightarrow> (t', Inr Updated)))))"

abbreviation migrationsDir :: path where "migrationsDir \<equiv> [''migrations'']"

abbreviation envExamplePath :: path where "envExamplePath \<equiv> [''.env.example'']"

abbreviation skillRelPath :: path where "skillRelPath \<equiv> [''.claude'', ''skills'', ''maubase'', ''SKILL.md'']"

abbreviation agentsRelPath :: path where "agentsRelPath \<equiv> [''.maubase'', ''AGENTS.md'']"

abbreviation jsClientRelDir :: path where "jsClientRelDir \<equiv> [''maubase-client'']"

abbreviation gitignorePath :: path where "gitignorePath \<equiv> [''.gitignore'']"

definition hasJSClient :: "io_env \<Rightarrow> tree \<Rightarrow> bool" where
  "hasJSClient E t = Stat E t jsClientRelDir"

definition runUpdateAgentDocs :: "io_env \<Rightarrow> build_info option \<Rightarrow> tree \<Rightarrow> tree \<times> init_error option" where
  "runUpdateAgentDocs E B t =
     (let jsClient = hasJSClient E t
      in case updateManagedBlock E skillRelPath (renderSkill B jsClient) t of
           (t1, Inl e) \<Rightarrow> (t1, Some e)
         | (t1, Inr _) \<Rightarrow>
             (case updateManagedBlock E agentsRelPath (renderAgentsDoc B jsClient) t1 of
                (t2, Inl e) \<Rightarrow> (t2, Some e)
              | (t2, Inr _) \<Rightarrow> (t2, None)))"


section \<open>Scaffolding\<close>

definition covers_data :: "string \<Rightarrow> bool" where
  "covers_data content =
     list_ex (\<lambda>line. TrimSpace line = ''data/'' \<or> TrimSpace line = ''/data'' \<or> TrimSpace line = ''/data/'') (Split content (CHR 0x0A))"

definition HasSuffix :: "string \<Rightarrow> string \<Rightarrow> bool" where
  "HasSuffix s x \<longleftrightarrow> HasPrefix (rev s) (rev x)"

definition ensureGitignoreHasDataDir :: "io_env \<Rightarrow> path \<Rightarrow> tree \<Rightarrow> tree \<times> init_error option" where
  "ensureGitignoreHasDataDir E p t =
     (case ReadFile E p t of
        NotExist \<Rightarrow> WriteFile E p (''data/'' @ nl) t
      | ReadError \<Rightarrow> (t, Some (ReadFailed p))
      | Content content \<Rightarrow>
          if covers_data content then (t, None)
          else WriteFile E p ((if HasSuffix content nl then content else content @ nl) @ ''data/'' @ nl) t)"

text \<open>The embedded client in the order of the walk, directories before what they hold.\<close>

fun walk_dist :: "io_env \<Rightarrow> (path \<times> node) list \<Rightarrow> tree \<Rightarrow> tree \<times> init_error option" where
  "walk_dist E [] t = (t, None)"
| "walk_dist E ((rel, Directory) # xs) t = and_then (MkdirAll E (jsClientRelDir @ rel) t) (walk_dist E xs)"
| "walk_dist E ((rel, Regular bytes) # xs) t = and_then (WriteFile E (jsClientRelDir @ rel) bytes t) (walk_dist E xs)"

definition writeJSClient :: "io_env \<Rightarrow> build_info option \<Rightarrow> (path \<times> node) list \<Rightarrow> tree \<Rightarrow> tree \<times> init_error option" where
  "writeJSClient E B dist t =
     (case walk_dist E dist t of
        (t1, Some _) \<Rightarrow> (t1, Some VendorFailed)
      | (t1, None) \<Rightarrow> WriteFile E (jsClientRelDir @ [''README.md'']) (renderJSClientReadme B) t1)"

definition init_conflicts :: "io_env \<Rightarrow> bool \<Rightarrow> tree \<Rightarrow> path list" where
  "init_conflicts E jsClient t =
     filter (Stat E t) ([migrationsDir, envExamplePath, skillRelPath, agentsRelPath] @ (if jsClient then [jsClientRelDir] else []))"

definition scaffold :: "io_env \<Rightarrow> build_info option \<Rightarrow> (path \<times> node) list \<Rightarrow> bool \<Rightarrow> tree \<Rightarrow> tree \<times> init_error option" where
  "scaffold E B dist jsClient t =
     (if init_conflicts E jsClient t \<noteq> [] then (t, Some (AlreadyInitialized (init_conflicts E jsClient t)))
      else and_then (MkdirAll E migrationsDir t) (\<lambda>t.
           and_then (WriteFile E (migrationsDir @ [''0001_init.sql'']) initMigrationTemplate t) (\<lambda>t.
           and_then (WriteFile E envExamplePath envExampleTemplate t) (\<lambda>t.
           and_then (if jsClient then and_then (MkdirAll E jsClientRelDir t) (writeJSClient E B dist) else (t, None)) (\<lambda>t.
           and_then (MkdirAll E (butlast skillRelPath) t) (\<lambda>t.
           and_then (WriteFile E skillRelPath (renderSkill B jsClient) t) (\<lambda>t.
           and_then (MkdirAll E (butlast agentsRelPath) t) (\<lambda>t.
           and_then (WriteFile E agentsRelPath (renderAgentsDoc B jsClient) t) (\<lambda>t.
           ensureGitignoreHasDataDir E gitignorePath t)))))))))"

fun init_flags :: "string list \<Rightarrow> bool \<times> bool \<times> string list \<Rightarrow> init_error + bool \<times> bool \<times> string list" where
  "init_flags [] acc = Inr acc"
| "init_flags (a # as) (upd, js, pos) =
     (if a = ''--update-agent-docs'' then init_flags as (True, js, pos)
      else if a = ''--js-client'' then init_flags as (upd, True, pos)
      else if HasPrefix a ''-'' then Inl InitUsage
      else init_flags as (upd, js, pos @ [a]))"

text \<open>What to do and in which directory.\<close>

definition init_args :: "string list \<Rightarrow> init_error + bool \<times> bool \<times> string" where
  "init_args args =
     (case init_flags args (False, False, []) of
        Inl e \<Rightarrow> Inl e
      | Inr (upd, js, pos) \<Rightarrow>
          (case (case pos of [] \<Rightarrow> Some ''.'' | [d] \<Rightarrow> Some d | _ \<Rightarrow> None) of
             None \<Rightarrow> Inl InitUsage
           | Some dir \<Rightarrow> if upd \<and> js then Inl CannotCombine else Inr (upd, js, dir)))"

definition runInit :: "io_env \<Rightarrow> build_info option \<Rightarrow> (path \<times> node) list \<Rightarrow> string list \<Rightarrow> tree \<Rightarrow> tree \<times> init_error option" where
  "runInit E B dist args t =
     (case init_args args of
        Inl e \<Rightarrow> (t, Some e)
      | Inr (upd, js, dir) \<Rightarrow> if upd then runUpdateAgentDocs E B t else scaffold E B dist js t)"

section \<open>Refreshing the managed block\<close>

lemma Index_None_iff: "Index s pat = None \<longleftrightarrow> \<not> Contains s pat"
  by (simp add: Contains_def)

text \<open>A pattern whose first byte does not recur in it cannot overlap itself.\<close>

lemma Index_unbordered:
  assumes "p \<notin> set ps" and "\<not> Contains a (p # ps)"
  shows "Index (a @ (p # ps) @ r) (p # ps) = Some (length a)"
  using assms(2)
proof (induction a)
  case Nil
  show ?case using Index_prefix [of "p # ps" r] by simp
next
  case (Cons c a)
  have less: "\<not> Contains a (p # ps)"
    using Cons.prems unfolding Contains_iff by (metis append_Cons)
  have "\<not> HasPrefix ((c # a) @ (p # ps) @ r) (p # ps)"
  proof
    assume "HasPrefix ((c # a) @ (p # ps) @ r) (p # ps)"
    then obtain z where z: "(c # a) @ (p # ps) @ r = (p # ps) @ z" by (auto simp: HasPrefix_iff)
    show False
    proof (cases "length (p # ps) \<le> length (c # a)")
      case True
      with z obtain y where "c # a = (p # ps) @ y" by (metis append_eq_append_conv_if append_take_drop_id)
      then have "Contains (c # a) (p # ps)" unfolding Contains_iff by (metis append_Nil)
      with Cons.prems show False by contradiction
    next
      case False
      have "p = ((c # a) @ (p # ps) @ r) ! length (c # a)" by (simp add: nth_append)
      also have "\<dots> = (p # ps) ! length (c # a)" using False unfolding z by (simp add: nth_append)
      also have "\<dots> \<in> set ps" using False by (simp add: nth_Cons')
      finally show False using assms(1) by simp
    qed
  qed
  then show ?case using Cons.IH [OF less] by simp
qed

lemma Index_first: "Index s pat = Some i \<Longrightarrow> pat \<noteq> [] \<Longrightarrow> \<not> Contains (take i s) pat"
proof (induction s arbitrary: i)
  case Nil
  then show ?case by (simp split: if_splits)
next
  case (Cons c s)
  show ?case
  proof (cases "HasPrefix (c # s) pat")
    case True
    with Cons.prems show ?thesis by (auto simp: Contains_iff)
  next
    case False
    then obtain j where j: "Index s pat = Some j" "i = Suc j" using Cons.prems by auto
    have "\<not> HasPrefix (c # take j s) pat"
    proof
      assume "HasPrefix (c # take j s) pat"
      then obtain z where "c # take j s = pat @ z" by (auto simp: HasPrefix_iff)
      then have "c # s = pat @ z @ drop j s" by (metis append_Cons append_assoc append_take_drop_id)
      with False show False by (auto simp: HasPrefix_iff)
    qed
    moreover have "\<not> Contains (take j s) pat" using Cons.IH [OF j(1) Cons.prems(2)] .
    ultimately show ?thesis using j(2) by (auto simp: Contains_def)
  qed
qed

lemma marker_heads: "blockBegin = CHR ''<'' # tl blockBegin" "CHR ''<'' \<notin> set (tl blockBegin)"
  "blockEnd = CHR ''<'' # tl blockEnd" "CHR ''<'' \<notin> set (tl blockEnd)"
  by (simp_all add: blockBegin_def blockEnd_def)

lemma Index_begin: "\<not> Contains a blockBegin \<Longrightarrow> Index (a @ blockBegin @ r) blockBegin = Some (length a)"
  using Index_unbordered [of "CHR ''<''" "tl blockBegin" a r] marker_heads by simp

lemma Index_end: "\<not> Contains a blockEnd \<Longrightarrow> Index (a @ blockEnd @ r) blockEnd = Some (length a)"
  using Index_unbordered [of "CHR ''<''" "tl blockEnd" a r] marker_heads by simp

text \<open>What a match is: no begin marker before it, one end marker, at its end.\<close>

lemma split_block_iff:
  "split_block s = Some (a, b, c) \<longleftrightarrow>
     (\<exists>m. s = a @ b @ c \<and> b = blockBegin @ m @ blockEnd \<and> \<not> Contains a blockBegin \<and> \<not> Contains m blockEnd)"
proof
  assume s: "split_block s = Some (a, b, c)"
  then obtain i j where i: "Index s blockBegin = Some i" "a = take i s"
      and j: "Index (drop (i + length blockBegin) s) blockEnd = Some j" "b = blockBegin @ take j (drop (i + length blockBegin) s) @ blockEnd"
    by (auto simp: split_block_def Let_def split: option.splits)
  have "blockBegin \<noteq> []" "blockEnd \<noteq> []" by (simp_all add: blockBegin_def blockEnd_def)
  with Index_first [OF i(1)] Index_first [OF j(1)] i(2) j(2) split_block_append [OF s]
  show "\<exists>m. s = a @ b @ c \<and> b = blockBegin @ m @ blockEnd \<and> \<not> Contains a blockBegin \<and> \<not> Contains m blockEnd" by blast
next
  assume "\<exists>m. s = a @ b @ c \<and> b = blockBegin @ m @ blockEnd \<and> \<not> Contains a blockBegin \<and> \<not> Contains m blockEnd"
  then obtain m where m: "s = a @ blockBegin @ m @ blockEnd @ c" "b = blockBegin @ m @ blockEnd"
    "\<not> Contains a blockBegin" "\<not> Contains m blockEnd" by auto
  from Index_begin [OF m(3), of "m @ blockEnd @ c"] Index_end [OF m(4), of c] m(1,2)
  show "split_block s = Some (a, b, c)" by (simp add: split_block_def Let_def)
qed

lemma replace_block:
  assumes "split_block s = Some (a, b, c)"
  shows "ReplaceAllLiteralString s new = a @ new @ ReplaceAllLiteralString c new"
  using assms by (simp add: ReplaceAllLiteralString.simps [of s])

lemma replace_blocks_idem:
  assumes "split_block r = Some (x, new, y)"
  shows "ReplaceAllLiteralString (ReplaceAllLiteralString s new) new = ReplaceAllLiteralString s new"
proof (induction s rule: length_induct)
  case (1 s)
  show ?case
  proof (cases "split_block s")
    case None
    then show ?thesis by (simp add: ReplaceAllLiteralString.simps [of s])
  next
    case (Some abc)
    then obtain a b c where s: "split_block s = Some (a, b, c)" by (cases abc) auto
    have "length c < length s" using split_block_append [OF s] by auto
    with 1 have c: "ReplaceAllLiteralString (ReplaceAllLiteralString c new) new = ReplaceAllLiteralString c new" by blast
    have "split_block (a @ new @ ReplaceAllLiteralString c new) = Some (a, new, ReplaceAllLiteralString c new)"
      using s assms unfolding split_block_iff by blast
    from replace_block [OF this, of new] c show ?thesis by (simp add: replace_block [OF s])
  qed
qed

lemma no_begin_no_block: "\<not> Contains s blockBegin \<Longrightarrow> ReplaceAllLiteralString s new = s"
  by (simp add: ReplaceAllLiteralString.simps [of s] split_block_def flip: Index_None_iff)

text \<open>
  Refreshing a document after an upgrade. When the file has a managed block, the block is replaced by that
  of the newly rendered document and everything before it stays as it was, and so does everything
  after it, as long as that does not itself begin a block; no other file changes. Refreshing again
  changes nothing and says so.
\<close>

theorem refresh_exact_and_idempotent:
  assumes "t p = Some (Regular s)" and "split_block s = Some (before, old, after)" and "split_block rendered = Some (x, new, y)"
    and "writable t p" and "\<not> io_fails E (CRead p)" and "\<not> io_fails E (CWrite p)"
  shows "(let (t1, res) = updateManagedBlock E p rendered t
     in (\<exists>status. res = Inr status) \<and> (\<exists>rest. t1 = t(p \<mapsto> Regular (before @ new @ rest)) \<and> (\<not> Contains after blockBegin \<longrightarrow> rest = after)) \<and>
        updateManagedBlock E p rendered t1 = (t1, Inr Unchanged))"
proof -
  let ?s' = "ReplaceAllLiteralString s new"
  have s': "?s' = before @ new @ ReplaceAllLiteralString after new" by (rule replace_block [OF assms(2)])
  have new: "FindString rendered = new" "new \<noteq> []" using assms(3) split_block_append by (auto simp: FindString_def)
  have "split_block ?s' = Some (before, new, ReplaceAllLiteralString after new)"
    using assms(2,3) unfolding s' split_block_iff by blast
  then have again: "updateManagedBlock E p rendered (t(p \<mapsto> Regular ?s')) = (t(p \<mapsto> Regular ?s'), Inr Unchanged)"
    using assms(5) new replace_blocks_idem [OF assms(3), of s] by (simp add: updateManagedBlock_def ReadFile_def)
  have once: "updateManagedBlock E p rendered t = (t(p \<mapsto> Regular ?s'), Inr (if ?s' = s then Unchanged else Updated))"
    using assms new by (auto simp: updateManagedBlock_def ReadFile_def WriteFile_def Let_def fun_upd_idem)
  show ?thesis
    unfolding once using again s' no_begin_no_block [of after new] by auto
qed

definition calm_io :: io_env where
  "calm_io = \<lparr>io_fails = (\<lambda>_. False), io_made = (\<lambda>_. 0), io_torn = (\<lambda>_. None)\<rparr>"

theorem refresh_exact_and_idempotent_witness:
  "let old = ''hi '' @ blockBegin @ '' 1'' @ blockEnd @ '' bye''; t = [[''AGENTS.md''] \<mapsto> Regular old];
       (t1, res) = updateManagedBlock calm_io [''AGENTS.md''] (blockBegin @ '' 2'' @ blockEnd) t
   in t1 [''AGENTS.md''] = Some (Regular (''hi '' @ blockBegin @ '' 2'' @ blockEnd @ '' bye''))"
proof -
  let ?old = "''hi '' @ blockBegin @ '' 1'' @ blockEnd @ '' bye''" and ?t = "[[''AGENTS.md''] \<mapsto> Regular (''hi '' @ blockBegin @ '' 1'' @ blockEnd @ '' bye'')]"
  have a: "split_block ?old = Some (''hi '', blockBegin @ '' 1'' @ blockEnd, '' bye'')" by code_simp
  have b: "split_block (blockBegin @ '' 2'' @ blockEnd) = Some ([], blockBegin @ '' 2'' @ blockEnd, [])" by code_simp
  have c: "\<not> Contains '' bye'' blockBegin" by code_simp
  have d: "?t [''AGENTS.md''] = Some (Regular ?old)" "writable ?t [''AGENTS.md'']"
    "\<not> io_fails calm_io (CRead [''AGENTS.md''])" "\<not> io_fails calm_io (CWrite [''AGENTS.md''])"
    by (simp_all add: writable_def calm_io_def)
  from refresh_exact_and_idempotent [OF d(1) a b d(2-4)] c show ?thesis by (auto simp: Let_def case_prod_beta)
qed


section \<open>The block's own end marker\<close>

lemma HasPrefix_guard: "c \<notin> set old \<Longrightarrow> HasPrefix (x @ c # y) old \<longleftrightarrow> HasPrefix x old"
  by (induction x old rule: HasPrefix.induct) auto

lemma Index_guard:
  assumes "set (c # m) \<inter> set old = {}" and "old \<noteq> []"
  shows "Index (x @ (c # m) @ y) old =
    (case Index x old of Some i \<Rightarrow> Some i | None \<Rightarrow> map_option (\<lambda>j. length x + Suc (length m) + j) (Index y old))"
proof (induction x)
  case Nil
  have "Index (m @ y) old = map_option (\<lambda>j. length m + j) (Index y old)"
    using assms
  proof (induction m)
    case (Cons d m)
    from Cons.prems have "\<not> HasPrefix (d # m @ y) old" by (cases old) auto
    with Cons show ?case by (simp add: option.map_comp comp_def)
  qed (cases "Index y old"; simp)
  moreover have "\<not> HasPrefix (c # m @ y) old" using assms by (cases old) auto
  ultimately show ?case using assms(2) by (cases "Index y old") simp_all
next
  case (Cons d x)
  have "HasPrefix ((d # x) @ c # (m @ y)) old \<longleftrightarrow> HasPrefix (d # x) old"
    using assms(1) by (intro HasPrefix_guard) auto
  with Cons show ?case by (cases "Index y old"; cases "Index x old") simp_all
qed

lemma ReplaceStr_guard:
  assumes "set (c # m) \<inter> set old = {}" and "old \<noteq> []"
  shows "ReplaceStr (x @ (c # m) @ y) old new = ReplaceStr x old new @ (c # m) @ ReplaceStr y old new"
proof (induction x rule: length_induct)
  case (1 x)
  note idx = Index_guard [OF assms, of x y]
  show ?case
  proof (cases "Index x old")
    case (Some i)
    let ?d = "drop (i + length old) x"
    have len: "i + length old \<le> length x" using Index_Some_split [OF Some] by blast
    then have "length ?d < length x" using assms(2) by (cases old) auto
    with 1 have "ReplaceStr (?d @ (c # m) @ y) old new = ReplaceStr ?d old new @ (c # m) @ ReplaceStr y old new" by blast
    with Some idx len assms(2) show ?thesis
      by (simp add: ReplaceStr.simps [of "x @ c # m @ y"] ReplaceStr.simps [of x])
  next
    case None
    with idx assms(2) show ?thesis
      by (cases "Index y old") (simp_all add: ReplaceStr.simps [of "x @ c # m @ y"] ReplaceStr.simps [of x] ReplaceStr.simps [of y] add.assoc)
  qed
qed

lemma ReplaceFirst_guard:
  assumes "set (c # m) \<inter> set old = {}" and "old \<noteq> []"
  shows "ReplaceFirst (x @ (c # m) @ y) old new = ReplaceFirst x old new @ (c # m) @ y
    \<or> ReplaceFirst (x @ (c # m) @ y) old new = x @ (c # m) @ ReplaceFirst y old new"
proof (cases "Index x old")
  case (Some i)
  then have "i + length old \<le> length x" using Index_Some_split by blast
  with Some Index_guard [OF assms, of x y] show ?thesis by (simp add: ReplaceFirst_def)
next
  case None
  with Index_guard [OF assms, of x y] show ?thesis by (cases "Index y old") (simp_all add: ReplaceFirst_def add.assoc)
qed


lemma Index_le: "\<exists>i \<le> length u. Index (u @ pat @ v) pat = Some i"
proof (induction u)
  case Nil
  show ?case by (simp add: Index_prefix)
next
  case (Cons c u)
  then obtain i where "i \<le> length u" "Index (u @ pat @ v) pat = Some i" by blast
  then show ?case by (auto simp del: HasPrefix.simps)
qed

lemma block_of_early_end:
  assumes "s = w @ blockBegin @ x @ blockEnd @ y"
  obtains a b c z where "split_block s = Some (a, b, c)" and "c = z @ y"
proof -
  obtain i where i: "i \<le> length w" "Index s blockBegin = Some i" using Index_le [of w blockBegin] unfolding assms by blast
  define u where "u = drop (i + length blockBegin) (w @ blockBegin @ x)"
  have body: "drop (i + length blockBegin) s = u @ blockEnd @ y" using i(1) unfolding assms u_def by simp
  obtain j where j: "j \<le> length u" "Index (u @ blockEnd @ y) blockEnd = Some j" using Index_le [of u blockEnd y] by blast
  then have "drop (j + length blockEnd) (u @ blockEnd @ y) = drop (j + length blockEnd) (u @ blockEnd) @ y" by simp
  with i j show thesis
    by (intro that [of "take i s" "blockBegin @ take j (u @ blockEnd @ y) @ blockEnd" "drop (j + length blockEnd) (u @ blockEnd @ y)"
          "drop (j + length blockEnd) (u @ blockEnd)"]) (simp_all only: split_block_def option.case Let_def body)
qed

text \<open>A text with a begin marker and two end markers after it, which no substitution of a placeholder destroys.\<close>

definition two_ends :: "string \<Rightarrow> bool" where
  "two_ends s \<longleftrightarrow> (\<exists>w x y z. s = w @ blockBegin @ x @ blockEnd @ y @ blockEnd @ z)"

lemma guard_markers:
  assumes "old \<in> {''{{JSCLIENT}}'', ''{{VERSION}}'', ''{{DOCREF}}''}"
  shows "set (CHR ''<'' # tl blockBegin) \<inter> set old = {}" "set (CHR ''<'' # tl blockEnd) \<inter> set old = {}" "old \<noteq> []"
  using assms by (auto simp: blockBegin_def blockEnd_def)

lemma two_ends_ReplaceStr:
  assumes "two_ends s" and "old \<in> {''{{JSCLIENT}}'', ''{{VERSION}}'', ''{{DOCREF}}''}"
  shows "two_ends (ReplaceStr s old new)"
proof -
  note g = guard_markers [OF assms(2)]
  note step = ReplaceStr_guard [OF g(1,3), folded marker_heads(1)] ReplaceStr_guard [OF g(2,3), folded marker_heads(3)]
  from assms(1) show ?thesis unfolding two_ends_def by (metis step)
qed

lemma two_ends_ReplaceFirst:
  assumes "two_ends s" and "old \<in> {''{{JSCLIENT}}'', ''{{VERSION}}'', ''{{DOCREF}}''}"
  shows "two_ends (ReplaceFirst s old new)"
proof -
  note g = guard_markers [OF assms(2)]
  note step = ReplaceFirst_guard [OF g(1,3), folded marker_heads(1)] ReplaceFirst_guard [OF g(2,3), folded marker_heads(3)]
  from assms(1) show ?thesis unfolding two_ends_def by (metis step)
qed

lemma two_ends_prefix: "two_ends s \<Longrightarrow> two_ends (x @ s)"
  unfolding two_ends_def by (metis append_assoc)

lemma body_two_ends: "two_ends agentDocBody"
proof -
  have "agentDocUpper = (blockBegin @ '' {{VERSION}} -->'' @ nl) # tl agentDocUpper" by (simp add: agentDocUpper_def blockBegin_def)
  then have u: "concat agentDocUpper = blockBegin @ '' {{VERSION}} -->'' @ nl @ concat (tl agentDocUpper)" by (metis append_assoc concat.simps(2))
  have "agentDocLower = butlast agentDocLower @ [[] @ blockEnd @ nl]" by (simp add: agentDocLower_def blockEnd_def)
  then have l: "concat agentDocLower = concat (butlast agentDocLower) @ blockEnd @ nl" by (metis append.left_neutral concat_append concat.simps append_Nil2)
  have "agentDocBody = [] @ blockBegin @ ('' {{VERSION}} -->'' @ nl @ concat (tl agentDocUpper) @ [CHR 0x60]) @ blockEnd
      @ ([CHR 0x60] @ concat (butlast agentDocLower)) @ blockEnd @ nl"
    unfolding agentDocBody_def u l by (simp only: append_assoc append_Nil)
  then show ?thesis unfolding two_ends_def by blast
qed

lemma render_two_ends: "two_ends tmpl \<Longrightarrow> two_ends (renderAgentDoc B tmpl jsClient)"
  by (simp add: renderAgentDoc_def Let_def two_ends_ReplaceStr two_ends_ReplaceFirst)

lemma skill_two_ends: "two_ends (renderSkill B jsClient)"
  unfolding renderSkill_def skillTemplate_def by (intro render_two_ends two_ends_prefix body_two_ends)

lemma agents_two_ends: "two_ends (renderAgentsDoc B jsClient)"
  unfolding renderAgentsDoc_def agentsTemplate_def by (intro render_two_ends body_two_ends)

lemma rendered_block:
  assumes "two_ends s"
  shows "\<exists>a b c. split_block s = Some (a, b, c) \<and> Contains c blockEnd"
proof -
  from assms obtain w x y z where s: "s = w @ blockBegin @ x @ blockEnd @ (y @ blockEnd @ z)" by (auto simp: two_ends_def)
  from block_of_early_end [OF s] obtain a b c u where "split_block s = Some (a, b, c)" "c = u @ y @ blockEnd @ z" by metis
  then show ?thesis unfolding Contains_iff by (metis append_assoc)
qed

text \<open>
  The managed block ends too early. The rendered documents mention the end marker in their closing
  paragraph, and the shortest match stops there: what the refresh takes for the block leaves the rest
  of that paragraph and the real end marker outside, so those lines are never refreshed.
\<close>

theorem managed_block_ends_early:
  "(\<exists>a b c. split_block (renderSkill B jsClient) = Some (a, b, c) \<and> Contains c blockEnd) \<and>
   (\<exists>a b c. split_block (renderAgentsDoc B jsClient) = Some (a, b, c) \<and> Contains c blockEnd)"
  using rendered_block [OF skill_two_ends] rendered_block [OF agents_two_ends] by blast


section \<open>The example environment\<close>

text \<open>The assignments of an environment file: lines that are no comments, up to and after the first equals sign.\<close>

definition assignment :: "string \<Rightarrow> (string \<times> string) option" where
  "assignment line =
     (if HasPrefix line ''#'' then None
      else (case Index line ''='' of None \<Rightarrow> None | Some i \<Rightarrow> Some (take i line, drop (Suc i) line)))"

definition env_of :: "string \<Rightarrow> string \<Rightarrow> string" where
  "env_of text name =
     (case map_of (List.map_filter assignment (Split text (CHR 0x0A))) name of None \<Rightarrow> [] | Some v \<Rightarrow> v)"

lemma Split_lines: "\<forall>line \<in> set lines. sep \<notin> set line \<Longrightarrow> Split (concat (map (\<lambda>line. line @ [sep]) lines)) sep = lines @ [[]]"
  by (induction lines) (simp_all add: Split_line)

lemma example_lines: "list_all (\<lambda>line. \<not> List.member line (CHR 0x0A)) envExampleLines"
  by code_simp

lemma example_assigned:
  "List.map_filter assignment envExampleLines =
     [(''MAUBASE_ADDR'', '':8080''),
       (''MAUBASE_DB_PATH'', ''data/maubase.db''),
       (''MAUBASE_ISSUER'', ''http://localhost:8080''),
       (''MAUBASE_BOOTSTRAP_OWNER_EMAIL'', []),
       (''MAUBASE_BOOTSTRAP_OWNER_PASSWORD'', []),
       (''MAUBASE_MIGRATIONS_DIR'', ''migrations''),
       (''MAUBASE_LOGIN_RATE_LIMIT'', ''10''),
       (''MAUBASE_LOGIN_RATE_WINDOW_SECONDS'', ''60''),
       (''MAUBASE_SESSION_CLEANUP_INTERVAL_SECONDS'', ''3600''),
       (''MAUBASE_STORAGE_DIR'', ''data/storage''),
       (''MAUBASE_MAX_UPLOAD_MB'', ''25''),
       (''MAUBASE_MAX_REQUEST_BODY_KB'', ''1024''),
       (''MAUBASE_RESEND_API_KEY'', []),
       (''MAUBASE_EMAIL_FROM'', []),
       (''MAUBASE_PASSWORD_RESET_URL'', []),
       (''MAUBASE_GOOGLE_CLIENT_ID'', []),
       (''MAUBASE_GOOGLE_CLIENT_SECRET'', []),
       (''MAUBASE_GITHUB_CLIENT_ID'', []),
       (''MAUBASE_GITHUB_CLIENT_SECRET'', []),
       (''MAUBASE_SOCIAL_LOGIN_REDIRECT_URL'', []),
       (''MAUBASE_REDIS_URL'', []),
       (''MAUBASE_ENV'', ''production'')]"
  by code_simp

lemma example_assignments:
  "List.map_filter assignment (Split envExampleTemplate (CHR 0x0A)) = List.map_filter assignment envExampleLines"
proof -
  have "\<forall>line \<in> set envExampleLines. CHR 0x0A \<notin> set line" using example_lines by (simp add: list_all_iff)
  from Split_lines [OF this] have "Split envExampleTemplate (CHR 0x0A) = envExampleLines @ [[]]" unfolding envExampleTemplate_def .
  then show ?thesis by (simp add: List.map_filter_def assignment_def)
qed

lemma example_numbers:
  "Atoi ''10'' = Some 10" "Atoi ''60'' = Some 60" "Atoi ''3600'' = Some 3600" "Atoi ''25'' = Some 25" "Atoi ''1024'' = Some 1024"
  by code_simp+

lemma example_intervals: "mul64 60 second = 60 * second" "mul64 3600 second = hour"
  by (simp_all add: mul64_def)

text \<open>
  The example environment that a new project gets is true to its word that every line shows the
  default: a server configured with exactly that file runs with the configuration of a server with no
  configuration at all.
\<close>

theorem env_example_shows_defaults: "Load (env_of envExampleTemplate) = Load (\<lambda>_. [])"
  by (simp add: Load_def env_of_def [abs_def] example_assignments example_assigned getEnv_def getEnvInt_def getEnvSeconds_def Let_def example_numbers example_intervals)


section \<open>What scaffolding leaves alone\<close>

text \<open>Every entry lies in a directory that exists.\<close>

definition tree_ok :: "tree \<Rightarrow> bool" where
  "tree_ok t \<longleftrightarrow> (\<forall>p q r. p = q @ r \<longrightarrow> q \<noteq> [] \<longrightarrow> r \<noteq> [] \<longrightarrow> t p \<noteq> None \<longrightarrow> t q = Some Directory)"

lemma absent_below: "tree_ok t \<Longrightarrow> t q = None \<Longrightarrow> q \<noteq> [] \<Longrightarrow> t (q @ r) = None"
  unfolding tree_ok_def by (metis append_Nil2 option.distinct(1))

definition kept :: "tree \<Rightarrow> tree \<Rightarrow> bool" where
  "kept t0 t \<longleftrightarrow> (\<forall>p s. t0 p = Some (Regular s) \<longrightarrow> t p = Some (Regular s))"

definition kept_but :: "path \<Rightarrow> tree \<Rightarrow> tree \<Rightarrow> bool" where
  "kept_but g t0 t \<longleftrightarrow> (\<forall>p s. t0 p = Some (Regular s) \<longrightarrow> p \<noteq> g \<longrightarrow> t p = Some (Regular s))"

lemma mkdirs_grows: "t p = Some x \<Longrightarrow> fst (mkdirs qs t) p = Some x"
proof (induction qs t rule: mkdirs.induct)
  case (2 q qs t)
  show ?case
  proof (cases "t q")
    case None
    with 2(3) have "(t(q \<mapsto> Directory)) p = Some x" by (cases "p = q") simp_all
    then have "fst (mkdirs qs (t(q \<mapsto> Directory))) p = Some x" by (rule 2(1) [OF None])
    with None show ?thesis by (simp only: mkdirs.simps option.case)
  next
    case (Some n)
    with 2 show ?thesis by (cases n) simp_all
  qed
qed simp

lemma kept_refl [simp]: "kept t t"
  by (simp add: kept_def)

lemma kept_MkdirAll: "kept t0 t \<Longrightarrow> kept t0 (fst (MkdirAll E p t))"
  by (auto simp: kept_def MkdirAll_def intro: mkdirs_grows split: prod.split) (metis fst_conv mkdirs_grows)

lemma kept_WriteFile: "kept t0 t \<Longrightarrow> t0 p = None \<Longrightarrow> kept t0 (fst (WriteFile E p s t))"
  by (auto simp: kept_def WriteFile_def split: option.split)

lemma kept_and_then: "kept t0 (fst r) \<Longrightarrow> (\<And>t. kept t0 t \<Longrightarrow> kept t0 (fst (k t))) \<Longrightarrow> kept t0 (fst (and_then r k))"
  by (cases r; cases "snd r") (auto simp: and_then_def)

lemma kept_walk_dist:
  assumes "tree_ok t0" and "t0 jsClientRelDir = None" and "kept t0 t"
  shows "kept t0 (fst (walk_dist E xs t))"
  using assms(3)
proof (induction E xs t rule: walk_dist.induct)
  case (2 E rel xs t)
  then show ?case by (auto intro: kept_and_then kept_MkdirAll)
next
  case (3 E rel bytes xs t)
  then show ?case using absent_below [OF assms(1,2), of rel] by (auto intro!: kept_and_then kept_WriteFile)
qed simp

lemma kept_writeJSClient:
  assumes "tree_ok t0" and "t0 jsClientRelDir = None" and "kept t0 t"
  shows "kept t0 (fst (writeJSClient E B dist t))"
  using kept_walk_dist [OF assms, of E dist] absent_below [OF assms(1,2), of "[''README.md'']"]
  by (auto simp: writeJSClient_def kept_WriteFile split: prod.split option.split)

lemma kept_but_weaken: "kept t0 t \<Longrightarrow> kept_but g t0 t"
  by (simp add: kept_def kept_but_def)

definition appended :: "io_env \<Rightarrow> tree \<Rightarrow> tree \<Rightarrow> bool" where
  "appended E t0 t \<longleftrightarrow>
     (\<forall>c. t0 gitignorePath = Some (Regular c) \<longrightarrow> io_torn E gitignorePath = None \<longrightarrow> (\<exists>x. t gitignorePath = Some (Regular (c @ x))))"

lemma gitignore_step:
  assumes "kept t0 t"
  shows "kept_but gitignorePath t0 (fst (ensureGitignoreHasDataDir E gitignorePath t)) \<and>
    appended E t0 (fst (ensureGitignoreHasDataDir E gitignorePath t))"
proof -
  have same: "appended E t0 t" using assms by (auto simp: appended_def kept_def)
  show ?thesis
  proof (cases "ReadFile E gitignorePath t")
    case NotExist
    with assms show ?thesis
      by (auto simp: ensureGitignoreHasDataDir_def WriteFile_def kept_but_def kept_def appended_def ReadFile_def split: option.splits node.splits if_splits)
  next
    case ReadError
    with assms same show ?thesis by (simp add: ensureGitignoreHasDataDir_def kept_but_weaken)
  next
    case (Content c)
    then have c: "t gitignorePath = Some (Regular c)" by (auto simp: ReadFile_def split: option.splits node.splits if_splits)
    with Content assms same show ?thesis
      by (auto simp: ensureGitignoreHasDataDir_def WriteFile_def kept_but_def kept_def appended_def split: option.splits)
  qed
qed

text \<open>The last step of a chain may do more than keep, as long as keeping is enough when it is not reached.\<close>

lemma chain_step:
  assumes "kept t0 (fst r)" and "\<And>t. kept t0 t \<Longrightarrow> Q (fst (k t))" and "\<And>t. kept t0 t \<Longrightarrow> Q t"
  shows "Q (fst (and_then r k))"
  using assms by (cases r; cases "snd r") (auto simp: and_then_def)

lemma scaffold_keeps:
  assumes ok: "tree_ok t0" and stat: "\<forall>p. \<not> io_fails E (CStat p)"
  shows "kept_but gitignorePath t0 (fst (scaffold E B dist jsClient t0)) \<and> appended E t0 (fst (scaffold E B dist jsClient t0))"
proof (cases "init_conflicts E jsClient t0 = []")
  case True
  let ?Q = "\<lambda>t. kept_but gitignorePath t0 t \<and> appended E t0 t"
  have free: "t0 migrationsDir = None" "t0 envExamplePath = None" "t0 skillRelPath = None" "t0 agentsRelPath = None"
    and client: "jsClient \<longrightarrow> t0 jsClientRelDir = None"
    using True stat by (auto simp: init_conflicts_def Stat_def split: if_splits)
  have first: "t0 (migrationsDir @ [''0001_init.sql'']) = None" by (rule absent_below [OF ok free(1)]) simp
  have weak: "?Q t" if "kept t0 t" for t using that by (auto simp: kept_but_weaken appended_def kept_def)
  have js: "kept t0 (fst (if jsClient then and_then (MkdirAll E jsClientRelDir t) (writeJSClient E B dist) else (t, None)))" if "kept t0 t" for t
    using that client kept_writeJSClient [OF ok] by (auto intro!: kept_and_then kept_MkdirAll)
  have w: "kept t0 (fst (WriteFile E p s t))" if "t0 p = None" "kept t0 t" for p s t by (rule kept_WriteFile [OF that(2,1)])
  note steps = kept_MkdirAll w [OF first] w [OF free(2)] w [OF free(3)] w [OF free(4)] js
  show ?thesis
    unfolding scaffold_def True
    by (simp only: simp_thms if_False, (rule chain_step [where ?t0.0 = t0 and Q = ?Q] gitignore_step weak steps kept_refl | assumption)+)
next
  case False
  have "kept t0 t0" by simp
  with False show ?thesis by (auto simp: scaffold_def kept_but_weaken appended_def)
qed


definition old_project :: tree where
  "old_project = [[''.gitignore''] \<mapsto> Regular ''*.log'', [''src''] \<mapsto> Directory, [''src'', ''main.ts''] \<mapsto> Regular ''let x'']"

lemma old_project_ok: "tree_ok old_project"
  by (auto simp: tree_ok_def old_project_def append_eq_Cons_conv split: if_splits)



section \<open>What scaffolding creates\<close>

lemma mkdirs_free:
  "(\<And>q s. q \<in> set qs \<Longrightarrow> t q \<noteq> Some (Regular s)) \<Longrightarrow>
   mkdirs qs t = (\<lambda>p. if p \<in> set qs \<and> t p = None then Some Directory else t p, True)"
proof (induction qs t rule: mkdirs.induct)
  case (2 q qs t)
  show ?case
  proof (cases "t q")
    case None
    have "(t(q \<mapsto> Directory)) p \<noteq> Some (Regular s)" if "p \<in> set qs" for p s using 2(3) [of p s] that by simp
    note IH = 2(1) [OF None this]
    have "mkdirs (q # qs) t = mkdirs qs (t(q \<mapsto> Directory))" using None by (simp only: mkdirs.simps option.case)
    also note IH
    finally show ?thesis using None by (auto simp: fun_eq_iff)
  next
    case (Some n)
    then have n: "n = Directory" using 2(3) [of q] by (metis list.set_intros(1) node.exhaust)
    have "mkdirs qs t = (\<lambda>p. if p \<in> set qs \<and> t p = None then Some Directory else t p, True)"
      using 2(2) [OF Some n] 2(3) by simp
    with Some n show ?thesis by (auto simp: fun_eq_iff)
  qed
qed (simp add: fun_eq_iff)

lemma MkdirAll_free:
  assumes "\<forall>c. \<not> io_fails E c" and "\<And>q s. q \<in> set (prefixes p) \<Longrightarrow> t q \<noteq> Some (Regular s)"
  shows "MkdirAll E p t = (\<lambda>q. if q \<in> set (prefixes p) then Some Directory else t q, None)"
proof -
  have "(if q \<in> set (prefixes p) \<and> t q = None then Some Directory else t q) = (if q \<in> set (prefixes p) then Some Directory else t q)" for q
    using assms(2) [of q] by (cases "t q") (auto intro: node.exhaust)
  with assms show ?thesis by (simp add: MkdirAll_def mkdirs_free)
qed

lemma Split_append_sep: "Split (x @ sep # y) sep = Split x sep @ Split y sep"
  by (induction x) (auto split: list.split)

lemma trimmed_entry: "TrimSpace ''data/'' = ''data/''" by code_simp

lemma covers_appended: "covers_data (x @ ''data/'' @ nl)" if "x = [] \<or> HasSuffix x nl"
proof -
  have one: "''data/'' \<in> set (Split (''data/'' @ nl) (CHR 0x0A))" by code_simp
  have "''data/'' \<in> set (Split (x @ ''data/'' @ nl) (CHR 0x0A))"
  proof (cases "x = []")
    case False
    with that obtain z where "x = z @ nl" by (auto simp: HasSuffix_def HasPrefix_iff)
    then have "x @ ''data/'' @ nl = z @ CHR 0x0A # (''data/'' @ nl)" by simp
    then show ?thesis unfolding Split_append_sep set_append using one by (metis Split_append_sep UnI2 set_append)
  qed (use one in simp)
  then show ?thesis unfolding covers_data_def list_ex_iff using trimmed_entry by blast
qed

lemma gitignore_covered:
  assumes "\<forall>c. \<not> io_fails E c" and "t gitignorePath \<noteq> Some Directory"
  obtains g where "ensureGitignoreHasDataDir E gitignorePath t = (t(gitignorePath \<mapsto> Regular g), None)" "covers_data g"
proof (cases "t gitignorePath")
  case None
  with assms show thesis
    using covers_appended [of "[]"] by (intro that) (simp_all add: ensureGitignoreHasDataDir_def ReadFile_def WriteFile_def writable_def)
next
  case (Some n)
  then obtain c where c: "t gitignorePath = Some (Regular c)" using assms(2) by (cases n) simp_all
  let ?g = "if covers_data c then c else (if HasSuffix c nl then c else c @ nl) @ ''data/'' @ nl"
  have "covers_data ?g" using covers_appended [of c] covers_appended [of "c @ nl"] by (auto simp: HasSuffix_def)
  moreover have "ensureGitignoreHasDataDir E gitignorePath t = (t(gitignorePath \<mapsto> Regular ?g), None)"
    using assms(1) c by (auto simp: ensureGitignoreHasDataDir_def ReadFile_def WriteFile_def writable_def fun_upd_idem)
  ultimately show thesis by (rule that [rotated])
qed


definition scaffolded :: "build_info option \<Rightarrow> string \<Rightarrow> tree \<Rightarrow> tree" where
  "scaffolded B g t =
     t(migrationsDir \<mapsto> Directory, migrationsDir @ [''0001_init.sql''] \<mapsto> Regular initMigrationTemplate,
       envExamplePath \<mapsto> Regular envExampleTemplate,
       [''.claude''] \<mapsto> Directory, [''.claude'', ''skills''] \<mapsto> Directory, [''.claude'', ''skills'', ''maubase''] \<mapsto> Directory,
       skillRelPath \<mapsto> Regular (renderSkill B False), [''.maubase''] \<mapsto> Directory,
       agentsRelPath \<mapsto> Regular (renderAgentsDoc B False), gitignorePath \<mapsto> Regular g)"

text \<open>A project without any of maubase's files and with nothing in the way of the directories.\<close>

definition blank_project :: "tree \<Rightarrow> bool" where
  "blank_project t \<longleftrightarrow>
     tree_ok t \<and> t migrationsDir = None \<and> t envExamplePath = None \<and> t skillRelPath = None \<and> t agentsRelPath = None \<and>
     (\<forall>s. t [''.claude''] \<noteq> Some (Regular s) \<and> t [''.claude'', ''skills''] \<noteq> Some (Regular s) \<and>
        t [''.claude'', ''skills'', ''maubase''] \<noteq> Some (Regular s) \<and> t [''.maubase''] \<noteq> Some (Regular s)) \<and>
     t gitignorePath \<noteq> Some Directory"

lemma scaffold_fresh:
  assumes calm: "\<forall>c. \<not> io_fails E c" and blank: "blank_project t"
  obtains g where "scaffold E B dist False t = (scaffolded B g t, None)" "covers_data g"
proof -
  have ok: "tree_ok t" and new: "t migrationsDir = None" "t envExamplePath = None" "t skillRelPath = None" "t agentsRelPath = None"
    and c: "\<And>s. t [''.claude''] \<noteq> Some (Regular s)" "\<And>s. t [''.claude'', ''skills''] \<noteq> Some (Regular s)"
      "\<And>s. t [''.claude'', ''skills'', ''maubase''] \<noteq> Some (Regular s)" "\<And>s. t [''.maubase''] \<noteq> Some (Regular s)"
    and git: "t gitignorePath \<noteq> Some Directory"
    using blank unfolding blank_project_def by blast+
  have p1: "prefixes migrationsDir = [migrationsDir]" "prefixes (butlast agentsRelPath) = [[''.maubase'']]"
    "prefixes (butlast skillRelPath) = [[''.claude''], [''.claude'', ''skills''], [''.claude'', ''skills'', ''maubase'']]"
    by code_simp+
  let ?t2 = "t(migrationsDir \<mapsto> Directory, migrationsDir @ [''0001_init.sql''] \<mapsto> Regular initMigrationTemplate, envExamplePath \<mapsto> Regular envExampleTemplate)"
  let ?t3 = "?t2([''.claude''] \<mapsto> Directory, [''.claude'', ''skills''] \<mapsto> Directory, [''.claude'', ''skills'', ''maubase''] \<mapsto> Directory)"
  let ?t4 = "?t3(skillRelPath \<mapsto> Regular (renderSkill B False))"
  let ?t5 = "?t4([''.maubase''] \<mapsto> Directory)"
  let ?t6 = "?t5(agentsRelPath \<mapsto> Regular (renderAgentsDoc B False))"
  have m1: "MkdirAll E migrationsDir t = (t(migrationsDir \<mapsto> Directory), None)"
    by (subst MkdirAll_free [OF calm]) (auto simp: p1 new fun_eq_iff)
  have three: "(\<lambda>q. if q \<in> set [x, y, z] then d else f q) = f(x := d, y := d, z := d)" for x y z :: path and d :: "node option" and f
    by (simp add: fun_eq_iff)
  have one: "(\<lambda>q. if q \<in> set [x] then d else f q) = f(x := d)" for x :: path and d :: "node option" and f
    by (simp add: fun_eq_iff)
  have "?t2 q \<noteq> Some (Regular s)" if "q \<in> set (prefixes (butlast skillRelPath))" for q s
  proof -
    from that consider "q = [''.claude'']" | "q = [''.claude'', ''skills'']" | "q = [''.claude'', ''skills'', ''maubase'']"
      unfolding p1 by (simp only: set_simps insert_iff empty_iff) blast
    then show ?thesis by cases (simp_all add: c)
  qed
  from MkdirAll_free [OF calm, of "butlast skillRelPath" ?t2, OF this] have m2: "MkdirAll E (butlast skillRelPath) ?t2 = (?t3, None)" unfolding p1 three .
  have "?t4 q \<noteq> Some (Regular s)" if "q \<in> set (prefixes (butlast agentsRelPath))" for q s
    using that c(4) [of s] unfolding p1 by simp
  from MkdirAll_free [OF calm, of "butlast agentsRelPath" ?t4, OF this] have m3: "MkdirAll E (butlast agentsRelPath) ?t4 = (?t5, None)" unfolding p1 one .
  have w: "WriteFile E p s u = (u(p \<mapsto> Regular s), None)" if "writable u p" for p s u
    using that calm by (simp add: WriteFile_def)
  have first: "t (migrationsDir @ [''0001_init.sql'']) = None" by (rule absent_below [OF ok new(1)]) simp
  obtain g where g: "ensureGitignoreHasDataDir E gitignorePath ?t6 = (?t6(gitignorePath \<mapsto> Regular g), None)" "covers_data g"
    using gitignore_covered [OF calm, of ?t6] git by auto
  have none: "init_conflicts E False t = []" using new by (simp add: init_conflicts_def Stat_def)
  have run: "scaffold E B dist False t = (?t6(gitignorePath \<mapsto> Regular g), None)"
    using new first
    unfolding scaffold_def none
    by (simp add: and_then_def m1 w writable_def m2 [simplified] m3 [simplified] g(1) [simplified])
  with g(2) show thesis by (intro that) (simp_all only: scaffolded_def)
qed

text \<open>
  C38. On a project without any of maubase's files, where nothing is in the way and no call fails, \<^verbatim>\<open>maubase init\<close>
  succeeds and creates exactly the first migration, the example environment, the two agent documents and
  the directories they lie in, and sees to it that \<^verbatim>\<open>.gitignore\<close> covers the data directory; every other
  entry is as before. Run a second time, with either flag for the client, it refuses and changes nothing.
\<close>

theorem init_scaffolds_once:
  assumes calm: "\<forall>c. \<not> io_fails E c" and "blank_project t"
    and args: "init_args args = Inr (False, False, dir)" "init_args args' = Inr (False, jsClient, dir)"
  shows "\<exists>g. covers_data g \<and> runInit E B dist args t = (scaffolded B g t, None) \<and>
    (\<exists>conflicts. runInit E B dist args' (scaffolded B g t) = (scaffolded B g t, Some (AlreadyInitialized conflicts)))"
proof -
  obtain g where g: "scaffold E B dist False t = (scaffolded B g t, None)" "covers_data g"
    using scaffold_fresh [OF assms(1,2)] by blast
  have "init_conflicts E jsClient (scaffolded B g t) \<noteq> []" using calm by (simp add: init_conflicts_def Stat_def scaffolded_def)
  then have "scaffold E B dist jsClient (scaffolded B g t) = (scaffolded B g t, Some (AlreadyInitialized (init_conflicts E jsClient (scaffolded B g t))))"
    unfolding scaffold_def by (simp only: if_True simp_thms)
  with g args show ?thesis by (intro exI [of _ g]) (simp add: runInit_def)
qed

lemma old_project_blank: "blank_project old_project"
  using old_project_ok by (simp add: blank_project_def old_project_def)

theorem init_scaffolds_once_witness:
  "\<exists>t'. runInit calm_io None [] [] old_project = (t', None) \<and> t' [''.env.example''] = Some (Regular envExampleTemplate) \<and>
     fst (runInit calm_io None [] [''--js-client''] t') = t'"
proof -
  have a: "\<forall>c. \<not> io_fails calm_io c" by (simp add: calm_io_def)
  have b: "init_args [] = Inr (False, False, ''.'')" "init_args [''--js-client''] = Inr (False, True, ''.'')" by code_simp+
  obtain g conflicts where run: "runInit calm_io None [] [] old_project = (scaffolded None g old_project, None)"
    "runInit calm_io None [] [''--js-client''] (scaffolded None g old_project) = (scaffolded None g old_project, Some (AlreadyInitialized conflicts))"
    using init_scaffolds_once [OF a old_project_blank b] by blast
  have "scaffolded None g old_project [''.env.example''] = Some (Regular envExampleTemplate)" by (simp add: scaffolded_def)
  with run show ?thesis by (metis fst_conv)
qed

text \<open>
  The client cannot be vendored into a project that has been initialized, nor refreshed there, although
  the error message of the flags and the client's own notes say to run \<^verbatim>\<open>maubase init --js-client\<close> for it:
  with the migrations directory in place that command always refuses.
\<close>

theorem client_refresh_refused:
  assumes "t migrationsDir \<noteq> None" and "\<not> io_fails E (CStat migrationsDir)"
  shows "\<exists>conflicts. migrationsDir \<in> set conflicts \<and> runInit E B dist [''--js-client''] t = (t, Some (AlreadyInitialized conflicts))"
proof -
  have a: "init_args [''--js-client''] = Inr (False, True, ''.'')" by code_simp
  have c: "migrationsDir \<in> set (init_conflicts E True t)" using assms by (simp add: init_conflicts_def Stat_def)
  then have "init_conflicts E True t \<noteq> []" by auto
  then have "runInit E B dist [''--js-client''] t = (t, Some (AlreadyInitialized (init_conflicts E True t)))"
    unfolding runInit_def a scaffold_def by (simp only: sum.case prod.case if_False if_True simp_thms)
  with c show ?thesis by blast
qed

theorem client_refresh_refused_witness:
  "fst (runInit calm_io None [] [''--js-client''] [migrationsDir \<mapsto> Directory]) = [migrationsDir \<mapsto> Directory]"
proof -
  have "[migrationsDir \<mapsto> Directory] migrationsDir \<noteq> None" "\<not> io_fails calm_io (CStat migrationsDir)" by (simp_all add: calm_io_def)
  from client_refresh_refused [of "[migrationsDir \<mapsto> Directory]" calm_io None "[]", OF this] show ?thesis by (metis fst_conv)
qed

text \<open>
  A refusal can come after half of the work: when only the second document has lost its managed block,
  the refresh names it and fails, but the first document has been rewritten.
\<close>

theorem docs_refused_half_done:
  assumes "\<forall>c. \<not> io_fails E c" and "writable t skillRelPath" and "t skillRelPath = Some (Regular s)" and "split_block s \<noteq> None"
    and "t agentsRelPath = Some (Regular u)" and "split_block u = None"
  shows "\<exists>new. split_block (renderSkill B (hasJSClient E t)) = Some new \<and>
    runUpdateAgentDocs E B t = (t(skillRelPath \<mapsto> Regular (ReplaceAllLiteralString s (fst (snd new)))), Some (NoManagedBlock agentsRelPath))"
proof -
  obtain a b c where skill: "split_block (renderSkill B (hasJSClient E t)) = Some (a, b, c)"
    using rendered_block [OF skill_two_ends] by blast
  obtain a' b' c' where agents: "split_block (renderAgentsDoc B (hasJSClient E t)) = Some (a', b', c')"
    using rendered_block [OF agents_two_ends] by blast
  have ne: "b \<noteq> []" "b' \<noteq> []" using split_block_append skill agents by blast+
  let ?s' = "ReplaceAllLiteralString s b"
  have "updateManagedBlock E skillRelPath (renderSkill B (hasJSClient E t)) t = (t(skillRelPath \<mapsto> Regular ?s'), Inr (if ?s' = s then Unchanged else Updated))"
    using assms ne by (auto simp: updateManagedBlock_def FindString_def skill ReadFile_def WriteFile_def Let_def fun_upd_idem)
  moreover have "updateManagedBlock E agentsRelPath (renderAgentsDoc B (hasJSClient E t)) (t(skillRelPath \<mapsto> Regular ?s'))
      = (t(skillRelPath \<mapsto> Regular ?s'), Inl (NoManagedBlock agentsRelPath))"
    using assms ne by (simp add: updateManagedBlock_def FindString_def agents ReadFile_def)
  ultimately show ?thesis using skill by (simp add: runUpdateAgentDocs_def)
qed

theorem docs_refused_half_done_witness:
  "snd (runUpdateAgentDocs calm_io None [skillRelPath \<mapsto> Regular (blockBegin @ blockEnd), butlast skillRelPath \<mapsto> Directory,
      agentsRelPath \<mapsto> Regular ''gone'']) = Some (NoManagedBlock agentsRelPath)"
proof -
  let ?t = "[skillRelPath \<mapsto> Regular (blockBegin @ blockEnd), butlast skillRelPath \<mapsto> Directory, agentsRelPath \<mapsto> Regular ''gone'']"
  have a: "split_block (blockBegin @ blockEnd) \<noteq> None" "split_block ''gone'' = None" by code_simp+
  have b: "\<forall>c. \<not> io_fails calm_io c" "writable ?t skillRelPath" "?t skillRelPath = Some (Regular (blockBegin @ blockEnd))"
    "?t agentsRelPath = Some (Regular ''gone'')"
    by (simp_all add: calm_io_def writable_def)
  from docs_refused_half_done [of calm_io ?t, OF b(1-3) a(1) b(4) a(2), of None] show ?thesis by auto
qed

end
