(* ===== verification/Spec2Isabelle.thy ===== *)
theory Spec2Isabelle
  imports
    Maubase_Prelude Rate_Limiter Go_Values Realtime_Broker Registry Data_API Admin_Data
    Session_Store Auth_Service Owner_Auth OAuth_Storage OAuth_Authorize File_Storage Migrations
    Audit_Log Providers Server_Handlers Server_Properties Account_Erasure Admin_UI Admin_UI_Properties
    Public_Routes Deployment Lifecycle Migrate_CLI Startup Scaffold_Templates Scaffold
begin

text \<open>
  A verification development for \<^bold>\<open>maubase\<close>, a self-hosted backend written in Go: customer accounts,
  an automatic REST interface over the tables of one SQLite file, file storage, realtime events, an
  OAuth 2.1 server, an owner plane with an admin UI, and the command line that migrates and scaffolds.
  Paths below are relative to \<^verbatim>\<open>src/\<close>.

  \<^bold>\<open>The parts and how they interact.\<close>
  \<^verbatim>\<open>cmd/maubase\<close> reads the configuration, migrates the database, makes the services and listens.
  \<^verbatim>\<open>internal/server\<close> routes requests: its own handlers join the two identity planes
  (\<^verbatim>\<open>internal/auth\<close> for customers, \<^verbatim>\<open>internal/ownerauth\<close> for owners), the OAuth server
  (\<^verbatim>\<open>internal/oauth\<close>), the data API (\<^verbatim>\<open>internal/restapi\<close>), the file storage
  (\<^verbatim>\<open>internal/storage\<close>), the audit trail (\<^verbatim>\<open>internal/audit\<close>), the login throttle
  (\<^verbatim>\<open>internal/ratelimit\<close>), mail and the social providers. Every write of the data API is
  published to the broker of \<^verbatim>\<open>internal/realtime\<close>. \<^verbatim>\<open>internal/adminui\<close> is a second surface over
  the same services. Deleting an account goes through all of them.

  \<^bold>\<open>Which theory models what.\<close>
  \<^item> \<open>Maubase_Prelude\<close>, \<open>Go_Values\<close>: Go's strings, \<^verbatim>\<open>strconv\<close> and dynamic values; the collections
    \<open>keeps\<close> and \<open>frame\<close>; lemmas on lists and finds that the components share.
  \<^item> \<open>Rate_Limiter\<close> (\<^verbatim>\<open>internal/ratelimit\<close>): buckets per key and the sweep; the limiter without a sweep is
    its specification (\<open>sweep_invisible\<close>), with bounds on what is admitted. Locale \<open>throttle\<close>.
  \<^item> \<open>Realtime_Broker\<close> (\<^verbatim>\<open>internal/realtime\<close>): connections, subscriptions, bounded queues, the relay
    between processes and the interleaving of publishing and closing. Locale \<open>fanout\<close>.
  \<^item> \<open>Registry\<close> (\<^verbatim>\<open>restapi/registry.go\<close>): which tables are exposed, with which columns and rules.
  \<^item> \<open>Data_API\<close> (\<^verbatim>\<open>restapi/handlers.go\<close>, \<^verbatim>\<open>policy.go\<close>): list, get, create, update, delete, export and
    erasure over the tables, with non-interference between owners and who receives which event.
  \<^item> \<open>Admin_Data\<close> (\<^verbatim>\<open>restapi/admin.go\<close>): the data browser's reads and writes, and creating tables.
  \<^item> \<open>Session_Store\<close>, \<open>Auth_Service\<close>, \<open>Owner_Auth\<close> (\<^verbatim>\<open>internal/auth\<close>, \<^verbatim>\<open>internal/ownerauth\<close>): accounts,
    sessions, reset tokens, social identities, roles; the states reached by their operations. Locale
    \<open>session_service\<close>, interpreted for both planes.
  \<^item> \<open>OAuth_Storage\<close>, \<open>OAuth_Authorize\<close> (\<^verbatim>\<open>internal/oauth\<close>): the storage of codes and tokens, consents,
    signing keys, client registration, the authorize, login and consent pages, the token middleware.
  \<^item> \<open>File_Storage\<close> (\<^verbatim>\<open>internal/storage\<close>): metadata rows and the directory of bytes. Locale \<open>blob_store\<close>.
  \<^item> \<open>Audit_Log\<close>, \<open>Providers\<close>: recording and listing entries; provider profiles and mail senders.
  \<^item> \<open>Server_Handlers\<close>, \<open>Server_Properties\<close>, \<open>Account_Erasure\<close> (\<^verbatim>\<open>internal/server\<close>): every handler,
    guard, throttle and route on the product of the components' states. Locale \<open>server_invariant\<close>:
    what the components' steps keep, every request keeps.
  \<^item> \<open>Admin_UI\<close>, \<open>Admin_UI_Properties\<close> (\<^verbatim>\<open>internal/adminui\<close>): pages, forms, SQL Studio and roles.
  \<^item> \<open>Public_Routes\<close>, \<open>Deployment\<close> (\<^verbatim>\<open>internal/server/server.go\<close> and the \<^verbatim>\<open>Mount\<close> methods): the routes of the
    authorization server, the data API, files and websockets behind their scopes; runs over every route
    on one state, what a bearer token can reach, and the deployment-wide form of \<open>server_invariant\<close>.
  \<^item> \<open>Lifecycle\<close> (\<^verbatim>\<open>cmd/maubase/main.go\<close>): assembling the services, starts, failed starts, requests, janitor
    ticks and stops in any order, and the end of the process as a step relation over its goroutines.
  \<^item> \<open>Migrations\<close>, \<open>Migrate_CLI\<close>, \<open>Startup\<close>, \<open>Scaffold_Templates\<close>, \<open>Scaffold\<close> (\<^verbatim>\<open>internal/db\<close>, \<^verbatim>\<open>internal/config\<close>,
    \<^verbatim>\<open>cmd/maubase\<close>): applying and reverting migrations, the subcommands, scaffolding a project and
    refreshing its documents, loading the configuration and starting up.

  \<^bold>\<open>Correspondence.\<close>
  A Go struct is a record, a set of named string constants or errors a datatype, a table the list of its
  rows in insertion order, a method a definition of the same name (with a suffix or prefix where two
  packages share one) from its arguments and the state to the new state and a result. A result
  \<open>(value, error)\<close> is a sum with the error on the left; a handler's answer carries status, cookies and a
  structured body. A panic is an outcome of its own. Loops are recursive functions on the list they
  range over; all functions are total, and no fuel is used. Whatever the program meets from outside during
  one call is an argument, its environment: which statements fail, identifiers and tokens drawn, the
  time (which stands still while one request is served), the order of a map iteration.

  \<^bold>\<open>Parameters and what is assumed of them.\<close>
  The database engine's comparison, storage and constraints (\<open>engine\<close>, with the laws \<open>engine_ok\<close>),
  its execution of migration text and raw SQL, password hashing and digests (\<open>crypto\<close>, \<open>bcrypt_ok\<close>),
  the OAuth library's request handling (\<open>fosite_ok\<close>, \<open>fosite_sessions\<close>), RSA signatures (\<open>rsa_ok\<close>), the parsers of JSON and multipart
  bodies, the social providers' and the mail service's answers and the file system's failures. Every
  theorem that assumes a law has a witness with a concrete instance.

  \<^bold>\<open>What the groups of lemmas show.\<close>
  Isolation: an owner's rows, files and events are neither seen nor changed by others, and internal tables
  are never exposed. Exactness with recovery: erasing, exporting, revoking and migrating do exactly what
  they say, and an attempt that failed anywhere is completed by a later one. Invariants: reachable states
  of every component and of the whole deployment under any sequence of requests, starts and stops. Credentials: tokens are
  redeemed once, a reset signs out everywhere, nothing is granted without consent, a deleted account is
  locked out for good. Accountability: which
  changes leave which audit entry. Equivalences: the swept limiter with its specification, the admin UI
  with the JSON routes, a restart with none. Termination: a process told to shut down ends. Some theorems record where the code does not do what it
  means to; the repository's findings list refers to them.

  \<^bold>\<open>Not modelled.\<close>
  The HTML templates and static assets, the TypeScript client under \<^verbatim>\<open>sdk/js\<close>, the text of usage messages
  and SQL beyond the statements' effect, TLS, what application migrations do to the components' own tables,
  goroutine scheduling other than the interleavings stated in \<open>Realtime_Broker\<close> and \<open>Lifecycle\<close>, and \<^verbatim>\<open>internal/testserver\<close>, which only tests use.
\<close>

end
